(* ===== verification/Net_Prelude.thy ===== *)
theory Net_Prelude
  imports Main "HOL-Library.Word"
begin

text \<open>
  Shared vocabulary of the development: the machine integers of the C++ code, the faults an
  operation can end in, flat memory blocks with bounds-checked access, byte-order codecs and
  \<open>memcmp\<close>. A heap block is a list of bytes; an access outside a block is the fault
  \<open>Undefined_Behaviour\<close>, never a default value. A \<open>size_t\<close> is a \<open>nat\<close> below
  \<open>2 ^ 64\<close> with the wrap-around written out in \<open>size_sub\<close> and \<open>size_mul\<close>.
\<close>

unbundle bit_operations_syntax

named_theorems mem_simps \<open>loads, stores and copies on memory blocks\<close>
named_theorems codec_simps \<open>byte-order codecs\<close>

type_synonym u8 = "8 word"
type_synonym u16 = "16 word"
type_synonym u32 = "32 word"
type_synonym u64 = "64 word"
type_synonym block = "u8 list"

section \<open>Faults and results\<close>

text \<open>The ways a call can fail to return: the exceptions the sources throw, \<open>abort()\<close>, and
  behaviour the language leaves undefined.\<close>

datatype fault =
    Undefined_Behaviour
  | Aborted
  | Buffer_Overflow
  | Ssl_Internal_Error string
  | Runtime_Error string
  | Compression_Failure
  | Decompression_Failure
  | Exited

type_synonym 'a outcome = "fault + 'a"

definition and_then :: "'a outcome \<Rightarrow> ('a \<Rightarrow> 'b outcome) \<Rightarrow> 'b outcome" where
  "and_then r k = (case r of Inl e \<Rightarrow> Inl e | Inr x \<Rightarrow> k x)"

lemma and_then_simps [simp]:
  "and_then (Inl e) k = Inl e"
  "and_then (Inr x) k = k x"
  by (simp_all add: and_then_def)

lemma and_then_Inr_iff: "and_then r k = Inr y \<longleftrightarrow> (\<exists>x. r = Inr x \<and> k x = Inr y)"
  by (cases r) auto

definition check :: "bool \<Rightarrow> fault \<Rightarrow> unit outcome" where
  "check b e = (if b then Inr () else Inl e)"

lemma check_simps [simp]:
  "check True e = Inr ()"
  "check False e = Inl e"
  by (simp_all add: check_def)

lemma check_Inr_iff [simp]: "check b e = Inr u \<longleftrightarrow> b"
  by (simp add: check_def)

section \<open>Integer conversions\<close>

text \<open>\<open>size_t\<close> arithmetic modulo \<open>2 ^ 64\<close>, and the narrowing conversions of the sources.\<close>

abbreviation (input) size_max :: nat where
  "size_max \<equiv> 2 ^ 64"

definition size_sub :: "nat \<Rightarrow> nat \<Rightarrow> nat" where
  "size_sub a b = (if b \<le> a then a - b else a + size_max - b)"

definition size_mul :: "nat \<Rightarrow> nat \<Rightarrow> nat" where
  "size_mul a b = (a * b) mod size_max"

definition to_u32 :: "nat \<Rightarrow> u32" where
  "to_u32 n = word_of_nat n"

definition to_int32 :: "nat \<Rightarrow> int" where
  "to_int32 n = sint (word_of_nat n :: u32)"

definition size_of_int :: "int \<Rightarrow> nat" where
  "size_of_int i = nat (i mod int size_max)"

lemma size_sub_le [simp]: "b \<le> a \<Longrightarrow> size_sub a b = a - b"
  by (simp add: size_sub_def)

lemma size_mul_small: "a * b < size_max \<Longrightarrow> size_mul a b = a * b"
  by (simp add: size_mul_def)

lemma unat_to_u32: "unat (to_u32 n) = n mod 2 ^ 32"
  by (simp add: to_u32_def unat_of_nat)

lemma unat_to_u32_small [simp]: "n < 2 ^ 32 \<Longrightarrow> unat (to_u32 n) = n"
  by (simp add: unat_to_u32)

lemma to_int32_small [simp]: "n < 2 ^ 31 \<Longrightarrow> to_int32 n = int n"
  by (simp add: to_int32_def signed_of_nat signed_take_bit_int_eq_self)

lemma size_of_int_nonneg [simp]: "0 \<le> i \<Longrightarrow> i < int size_max \<Longrightarrow> size_of_int i = nat i"
  by (simp add: size_of_int_def)

section \<open>Memory blocks\<close>

text \<open>\<open>new_array g n\<close> is \<open>new uint8_t[n]\<close>: its contents are indeterminate, so they come from
  an arbitrary \<open>g\<close> every theorem quantifies over.\<close>

definition new_array :: "(nat \<Rightarrow> u8) \<Rightarrow> nat \<Rightarrow> block" where
  "new_array g n = map g [0..<n]"

definition mem_load :: "block \<Rightarrow> nat \<Rightarrow> nat \<Rightarrow> block outcome" where
  "mem_load m off n =
     (if off + n \<le> length m then Inr (take n (drop off m)) else Inl Undefined_Behaviour)"

definition mem_store :: "block \<Rightarrow> nat \<Rightarrow> block \<Rightarrow> block outcome" where
  "mem_store m off bs =
     (if off + length bs \<le> length m
      then Inr (take off m @ bs @ drop (off + length bs) m)
      else Inl Undefined_Behaviour)"

lemma length_new_array [simp]: "length (new_array g n) = n"
  by (simp add: new_array_def)

lemma mem_store_Inr [mem_simps]:
  "off + length bs \<le> length m \<Longrightarrow>
   mem_store m off bs = Inr (take off m @ bs @ drop (off + length bs) m)"
  by (simp add: mem_store_def)

lemma mem_load_Inr [mem_simps]:
  "off + n \<le> length m \<Longrightarrow> mem_load m off n = Inr (take n (drop off m))"
  by (simp add: mem_load_def)

lemma mem_store_length: "mem_store m off bs = Inr m' \<Longrightarrow> length m' = length m"
  by (auto simp: mem_store_def split: if_splits)

lemma mem_load_store_same:
  "mem_store m off bs = Inr m' \<Longrightarrow> mem_load m' off (length bs) = Inr bs"
  by (auto simp: mem_store_def mem_load_def split: if_splits)

lemma mem_load_length: "mem_load m off n = Inr bs \<Longrightarrow> length bs = n"
  by (auto simp: mem_load_def split: if_splits)

section \<open>memcmp\<close>

text \<open>The sign of the first difference, bytes compared as unsigned. The C function compares the
  same number of bytes on both sides; a list that ends first is made the smaller one.\<close>

fun memcmp :: "block \<Rightarrow> block \<Rightarrow> int" where
  "memcmp (a # as) (b # bs) = (if a < b then -1 else if b < a then 1 else memcmp as bs)"
| "memcmp [] [] = 0"
| "memcmp [] (b # bs) = -1"
| "memcmp (a # as) [] = 1"

lemma memcmp_refl [simp]: "memcmp a a = 0"
  by (induction a) auto

lemma memcmp_eq_0 [simp]: "memcmp a b = 0 \<longleftrightarrow> a = b"
  by (induction a b rule: memcmp.induct) auto

lemma memcmp_swap: "memcmp b a = - memcmp a b"
  by (induction a b rule: memcmp.induct) auto

lemma memcmp_less_trans: "memcmp a b < 0 \<Longrightarrow> memcmp b c < 0 \<Longrightarrow> memcmp a c < 0"
proof (induction a b arbitrary: c rule: memcmp.induct)
  case (1 x xs y ys)
  then show ?case by (cases c) (auto split: if_splits)
next
  case (3 y ys)
  then show ?case by (cases c) auto
qed auto

lemma memcmp_total: "a \<noteq> b \<Longrightarrow> memcmp a b < 0 \<or> memcmp b a < 0"
  using memcmp_eq_0 [of a b] memcmp_swap [of a b] by linarith

section \<open>Byte orders\<close>

text \<open>The program runs on x86-64, so a native integer in memory is little-endian; network
  fields are big-endian (\<open>ntohs\<close>, \<open>ntohl\<close>).\<close>

locale codec =
  fixes put :: "'a \<Rightarrow> block"
    and get :: "block \<Rightarrow> 'a"
    and width :: nat
  assumes get_put: "get (put x) = x"
    and length_put: "length (put x) = width"
    and get_prefix: "get (put x @ rest) = get (put x)"
begin

lemma get_take: "take width m = put x \<Longrightarrow> get m = x"
  by (metis append_take_drop_id get_prefix get_put)

lemma put_inject: "put x = put y \<Longrightarrow> x = y"
  by (metis get_put)

lemma load_stored:
  assumes "mem_store m off (put x) = Inr m'"
  shows "mem_load m' off width = Inr (put x)"
  using mem_load_store_same [OF assms] by (simp add: length_put)

end

definition le32_put :: "u32 \<Rightarrow> block" where
  "le32_put w = [ucast w, ucast (drop_bit 8 w), ucast (drop_bit 16 w), ucast (drop_bit 24 w)]"

fun le32_get :: "block \<Rightarrow> u32" where
  "le32_get (a # b # c # d # _) =
     ucast a OR push_bit 8 (ucast b) OR push_bit 16 (ucast c) OR push_bit 24 (ucast d)"
| "le32_get _ = 0"

definition be16_put :: "u16 \<Rightarrow> block" where
  "be16_put w = [ucast (drop_bit 8 w), ucast w]"

fun be16_get :: "block \<Rightarrow> u16" where
  "be16_get (a # b # _) = push_bit 8 (ucast a) OR ucast b"
| "be16_get _ = 0"

definition be32_put :: "u32 \<Rightarrow> block" where
  "be32_put w = [ucast (drop_bit 24 w), ucast (drop_bit 16 w), ucast (drop_bit 8 w), ucast w]"

fun be32_get :: "block \<Rightarrow> u32" where
  "be32_get (a # b # c # d # _) =
     push_bit 24 (ucast a) OR push_bit 16 (ucast b) OR push_bit 8 (ucast c) OR ucast d"
| "be32_get _ = 0"

definition le64_put :: "u64 \<Rightarrow> block" where
  "le64_put w = le32_put (ucast w) @ le32_put (ucast (drop_bit 32 w))"

definition le64_get :: "block \<Rightarrow> u64" where
  "le64_get m = ucast (le32_get m) OR push_bit 32 (ucast (le32_get (drop 4 m)))"

interpretation le32: codec le32_put le32_get 4
proof unfold_locales
  fix x :: u32
  show "le32_get (le32_put x) = x"
    unfolding le32_put_def le32_get.simps
  proof (rule bit_word_eqI, goal_cases)
    case (1 n)
    then consider "n < 8" | "8 \<le> n" "n < 16" | "16 \<le> n" "n < 24" | "24 \<le> n" "n < 32"
      by fastforce
    then show ?case by cases (auto simp: bit_simps)
  qed
qed (simp_all add: le32_put_def)

interpretation le64: codec le64_put le64_get 8
proof unfold_locales
  have le32: "le32_get (le32_put a @ m) = a" for a m
    using le32.get_prefix [of a m] by (simp add: le32.get_put)
  fix x :: u64 and rest
  have "ucast (ucast x :: u32) OR push_bit 32 (ucast (ucast (drop_bit 32 x) :: u32)) = x"
    by (rule bit_word_eqI) (auto simp: bit_simps)
  then show *: "le64_get (le64_put x) = x"
    by (simp add: le64_get_def le64_put_def le32 le32.length_put le32.get_put)
  show "le64_get (le64_put x @ rest) = le64_get (le64_put x)"
    by (simp add: le64_get_def le64_put_def le32 le32.length_put le32.get_put)
qed (simp add: le64_put_def le32.length_put)

interpretation be16: codec be16_put be16_get 2
proof unfold_locales
  fix x :: u16
  show "be16_get (be16_put x) = x"
    unfolding be16_put_def be16_get.simps
    by (rule bit_word_eqI) (auto simp: bit_simps)
qed (simp_all add: be16_put_def)

interpretation be32: codec be32_put be32_get 4
proof unfold_locales
  fix x :: u32
  show "be32_get (be32_put x) = x"
    unfolding be32_put_def be32_get.simps
  proof (rule bit_word_eqI, goal_cases)
    case (1 n)
    then consider "n < 8" | "8 \<le> n" "n < 16" | "16 \<le> n" "n < 24" | "24 \<le> n" "n < 32"
      by fastforce
    then show ?case by cases (auto simp: bit_simps)
  qed
qed (simp_all add: be32_put_def)

declare le32.get_put [codec_simps] le32.length_put [codec_simps]
  le64.get_put [codec_simps] le64.length_put [codec_simps]
  be16.get_put [codec_simps] be16.length_put [codec_simps]
  be32.get_put [codec_simps] be32.length_put [codec_simps]

end
