(* ===== verification/Std_Map.thy ===== *)
theory Std_Map
  imports Net_Prelude
begin

text \<open>
  \<open>std::map\<close> with a comparator: the entries in key order, two keys being the same entry when
  neither compares below the other. The sources key maps by MAC address, by socket address, by
  file descriptor and by string; each comparator is an interpretation of
  \<open>strict_weak_order\<close>, and what the map operations do is proved once inside that locale.
\<close>

named_theorems std_map_simps \<open>lookups after updates of a std::map\<close>

section \<open>Operations\<close>

definition same_key :: "('k \<Rightarrow> 'k \<Rightarrow> bool) \<Rightarrow> 'k \<Rightarrow> 'k \<Rightarrow> bool" where
  "same_key lt a b \<longleftrightarrow> \<not> lt a b \<and> \<not> lt b a"

fun map_find :: "('k \<Rightarrow> 'k \<Rightarrow> bool) \<Rightarrow> 'k \<Rightarrow> ('k \<times> 'v) list \<Rightarrow> 'v option" where
  "map_find lt k [] = None"
| "map_find lt k ((a, v) # m) = (if same_key lt k a then Some v else map_find lt k m)"

text \<open>\<open>emplace\<close> and \<open>insert\<close>: nothing happens when the key is there already.\<close>

fun map_emplace :: "('k \<Rightarrow> 'k \<Rightarrow> bool) \<Rightarrow> 'k \<Rightarrow> 'v \<Rightarrow> ('k \<times> 'v) list \<Rightarrow> ('k \<times> 'v) list" where
  "map_emplace lt k v [] = [(k, v)]"
| "map_emplace lt k v ((a, w) # m) =
     (if lt k a then (k, v) # (a, w) # m
      else if lt a k then (a, w) # map_emplace lt k v m
      else (a, w) # m)"

text \<open>Assignment through an iterator, \<open>it->second = v\<close>: the stored key stays.\<close>

fun map_assign :: "('k \<Rightarrow> 'k \<Rightarrow> bool) \<Rightarrow> 'k \<Rightarrow> 'v \<Rightarrow> ('k \<times> 'v) list \<Rightarrow> ('k \<times> 'v) list" where
  "map_assign lt k v [] = []"
| "map_assign lt k v ((a, w) # m) =
     (if same_key lt k a then (a, v) # m else (a, w) # map_assign lt k v m)"

text \<open>\<open>erase\<close> of the entry an iterator found by \<open>find\<close> points to.\<close>

fun map_erase :: "('k \<Rightarrow> 'k \<Rightarrow> bool) \<Rightarrow> 'k \<Rightarrow> ('k \<times> 'v) list \<Rightarrow> ('k \<times> 'v) list" where
  "map_erase lt k [] = []"
| "map_erase lt k ((a, w) # m) = (if same_key lt k a then m else (a, w) # map_erase lt k m)"

text \<open>The sources' erase loop: \<open>for (it = begin; it != end;) if (p) it = erase(it); else ++it;\<close>\<close>

fun map_erase_loop :: "('v \<Rightarrow> bool) \<Rightarrow> ('k \<times> 'v) list \<Rightarrow> ('k \<times> 'v) list" where
  "map_erase_loop p [] = []"
| "map_erase_loop p ((a, w) # m) =
     (if p w then map_erase_loop p m else (a, w) # map_erase_loop p m)"

definition map_ordered :: "('k \<Rightarrow> 'k \<Rightarrow> bool) \<Rightarrow> ('k \<times> 'v) list \<Rightarrow> bool" where
  "map_ordered lt m = sorted_wrt (\<lambda>x y. lt (fst x) (fst y)) m"

lemma map_ordered_simps [simp]:
  "map_ordered lt []"
  "map_ordered lt ((a, w) # m) \<longleftrightarrow> (\<forall>(b, u) \<in> set m. lt a b) \<and> map_ordered lt m"
  by (auto simp: map_ordered_def)

lemma map_erase_loop_filter: "map_erase_loop p m = filter (\<lambda>(k, v). \<not> p v) m"
  by (induction p m rule: map_erase_loop.induct) auto

lemma map_ordered_erase_loop: "map_ordered lt m \<Longrightarrow> map_ordered lt (map_erase_loop p m)"
  by (induction p m rule: map_erase_loop.induct) (auto simp: map_erase_loop_filter)

lemma set_map_emplace: "set (map_emplace lt k v m) \<subseteq> insert (k, v) (set m)"
  by (induction lt k v m rule: map_emplace.induct) auto

lemma fst_set_map_assign: "fst ` set (map_assign lt k v m) = fst ` set m"
  by (induction lt k v m rule: map_assign.induct) auto

lemma fst_set_map_erase: "set (map_erase lt k m) \<subseteq> set m"
  by (induction lt k m rule: map_erase.induct) auto

lemma map_find_in_set: "map_find lt k m = Some v \<Longrightarrow> \<exists>a. (a, v) \<in> set m \<and> same_key lt k a"
  by (induction lt k m rule: map_find.induct) (auto split: if_splits)

lemma map_find_None: "map_find lt k m = None \<longleftrightarrow> (\<forall>(a, v) \<in> set m. \<not> same_key lt k a)"
  by (induction lt k m rule: map_find.induct) auto

section \<open>The laws, for any strict weak order\<close>

locale strict_weak_order =
  fixes lt :: "'k \<Rightarrow> 'k \<Rightarrow> bool"
  assumes lt_irrefl: "\<not> lt a a"
    and lt_trans: "lt a b \<Longrightarrow> lt b c \<Longrightarrow> lt a c"
    and lt_neg_trans: "lt a c \<Longrightarrow> lt a b \<or> lt b c"
begin

lemma lt_asym: "lt a b \<Longrightarrow> \<not> lt b a"
  using lt_irrefl lt_trans by blast

lemma same_key_refl [simp]: "same_key lt a a"
  by (simp add: same_key_def lt_irrefl)

lemma same_key_sym: "same_key lt a b \<Longrightarrow> same_key lt b a"
  by (auto simp: same_key_def)

lemma same_key_trans: "same_key lt a b \<Longrightarrow> same_key lt b c \<Longrightarrow> same_key lt a c"
  unfolding same_key_def using lt_neg_trans by blast

lemma same_key_lt: "same_key lt a b \<Longrightarrow> lt a c = lt b c"
  unfolding same_key_def using lt_neg_trans by blast

lemma same_key_gt: "same_key lt a b \<Longrightarrow> lt c a = lt c b"
  unfolding same_key_def using lt_neg_trans by blast

lemma ordered_emplace: "map_ordered lt m \<Longrightarrow> map_ordered lt (map_emplace lt k v m)"
proof (induction m)
  case (Cons e m)
  obtain a w where e: "e = (a, w)" by force
  from Cons e show ?case
    using set_map_emplace [of lt k v m] by (fastforce dest: lt_trans)
qed simp

lemma ordered_assign: "map_ordered lt m \<Longrightarrow> map_ordered lt (map_assign lt k v m)"
proof (induction m)
  case (Cons e m)
  obtain a w where e: "e = (a, w)" by force
  have "lt a b" if "(b, u) \<in> set (map_assign lt k v m)" for b u
  proof -
    from that have "b \<in> fst ` set m"
      by (metis fst_conv fst_set_map_assign image_eqI)
    with Cons.prems e show ?thesis by auto
  qed
  with Cons e show ?case by auto
qed simp

lemma ordered_erase: "map_ordered lt m \<Longrightarrow> map_ordered lt (map_erase lt k m)"
proof (induction m)
  case (Cons e m)
  then show ?case using fst_set_map_erase [of lt k m] by (cases e) auto
qed simp

lemma same_key_cong: "same_key lt j k \<Longrightarrow> same_key lt j a = same_key lt k a"
  by (meson same_key_sym same_key_trans)

lemma same_key_cong2: "same_key lt k a \<Longrightarrow> same_key lt j a = same_key lt j k"
  by (meson same_key_sym same_key_trans)

lemma find_same_key: "same_key lt j k \<Longrightarrow> map_find lt j m = map_find lt k m"
proof (induction m)
  case (Cons e m)
  then show ?case using same_key_cong [OF Cons.prems] by (cases e) simp
qed simp

text \<open>In an ordered map at most one entry matches a key, so membership is lookup.\<close>

lemma find_tail_None:
  assumes "map_ordered lt ((a, w) # m)" and "lt k a \<or> same_key lt k a"
  shows "map_find lt k m = None"
  unfolding map_find_None
proof clarify
  fix b u
  assume "(b, u) \<in> set m" and eq: "same_key lt k b"
  with assms(1) have "lt a b" by auto
  with assms(2) have "lt k b" using lt_trans same_key_lt by blast
  with eq show False by (simp add: same_key_def)
qed

lemma find_iff_in_set:
  assumes "map_ordered lt m"
  shows "map_find lt k m = Some v \<longleftrightarrow> (\<exists>a. (a, v) \<in> set m \<and> same_key lt k a)"
proof
  assume "\<exists>a. (a, v) \<in> set m \<and> same_key lt k a"
  then show "map_find lt k m = Some v" using assms
  proof (induction m)
    case (Cons e m)
    obtain b w where e: "e = (b, w)" by force
    show ?case
    proof (cases "same_key lt k b")
      case True
      with Cons.prems(2) e have "map_find lt k m = None" using find_tail_None [of b w m k] by simp
      with Cons.prems(1) e True show ?thesis by (auto simp: map_find_None)
    next
      case False
      with Cons e show ?thesis by auto
    qed
  qed simp
qed (rule map_find_in_set)

lemma find_emplace [std_map_simps]:
  assumes "map_ordered lt m"
  shows "map_find lt j (map_emplace lt k v m) =
    (case map_find lt j m of
       Some u \<Rightarrow> Some u
     | None \<Rightarrow> if same_key lt j k then Some v else None)"
  using assms
proof (induction m)
  case (Cons e m)
  obtain a w where e: "e = (a, w)" by force
  consider "lt k a" | "\<not> lt k a" "lt a k" | "same_key lt k a" by (auto simp: same_key_def)
  then show ?case
  proof cases
    case 1
    have "map_find lt j m = None \<and> \<not> same_key lt j a" if "same_key lt j k"
      using that 1 Cons.prems e same_key_lt [OF that] find_tail_None by (auto simp: same_key_def)
    with 1 e show ?thesis by (auto split: option.splits)
  next
    case 2
    with Cons e show ?thesis by simp
  next
    case 3
    then have "\<not> lt k a" "\<not> lt a k" by (auto simp: same_key_def)
    with e same_key_cong2 [OF 3, of j] show ?thesis by (simp split: option.splits)
  qed
qed simp

lemma find_assign [std_map_simps]:
  assumes "map_find lt k m \<noteq> None"
  shows "map_find lt j (map_assign lt k v m) =
    (if same_key lt j k then Some v else map_find lt j m)"
  using assms
proof (induction m)
  case (Cons e m)
  obtain a w where e: "e = (a, w)" by force
  show ?case
  proof (cases "same_key lt k a")
    case True
    with e same_key_cong2 [OF True, of j] show ?thesis by simp
  next
    case False
    then have "same_key lt j k \<Longrightarrow> \<not> same_key lt j a" using same_key_cong by blast
    with False Cons e show ?thesis by simp
  qed
qed simp

lemma find_erase [std_map_simps]:
  assumes "map_ordered lt m"
  shows "map_find lt j (map_erase lt k m) =
    (if same_key lt j k then None else map_find lt j m)"
  using assms
proof (induction m)
  case (Cons e m)
  obtain a w where e: "e = (a, w)" by force
  show ?case
  proof (cases "same_key lt k a")
    case True
    with Cons.prems e have "map_find lt k m = None" using find_tail_None [of a w m k] by simp
    with True e same_key_cong2 [OF True, of j] show ?thesis
      using find_same_key [of j k m] by simp
  next
    case False
    then have "same_key lt j k \<Longrightarrow> \<not> same_key lt j a" using same_key_cong by blast
    with False Cons e show ?thesis by simp
  qed
qed simp

lemma find_erase_loop [std_map_simps]:
  assumes "map_ordered lt m"
  shows "map_find lt j (map_erase_loop p m) =
    (case map_find lt j m of None \<Rightarrow> None | Some u \<Rightarrow> if p u then None else Some u)"
  using assms
proof (induction m)
  case (Cons e m)
  obtain a w where e: "e = (a, w)" by force
  show ?case
  proof (cases "same_key lt j a")
    case True
    with Cons.prems e have "map_find lt j m = None" using find_tail_None [of a w m j] by simp
    with True Cons e show ?thesis by simp
  next
    case False
    with Cons e show ?thesis by simp
  qed
qed simp

text \<open>Update through \<open>find\<close>, the sources' idiom: overwrite a found entry, emplace otherwise.\<close>

lemma ordered_update_idiom:
  "map_ordered lt m \<Longrightarrow>
   map_ordered lt (if map_find lt k m \<noteq> None then map_assign lt k v m else map_emplace lt k v m)"
  by (simp add: ordered_assign ordered_emplace)

lemma find_update_idiom:
  "map_ordered lt m \<Longrightarrow>
   map_find lt j (if map_find lt k m \<noteq> None then map_assign lt k v m else map_emplace lt k v m) =
   (if same_key lt j k then Some v else map_find lt j m)"
  using find_same_key [of j k m] by (auto simp: std_map_simps split: option.splits)

lemma find_emplace_same: "map_ordered lt m \<Longrightarrow> map_find lt k (map_emplace lt k v m) \<noteq> None"
  by (simp add: find_emplace split: option.splits)

end

text \<open>A comparator that compares a projection of its arguments is a strict weak order.\<close>

lemma strict_weak_order_inv_image:
  assumes "strict_weak_order lt"
  shows "strict_weak_order (\<lambda>a b. lt (f a) (f b))"
proof -
  from assms have "\<not> lt x x" "lt x y \<Longrightarrow> lt y z \<Longrightarrow> lt x z" "lt x z \<Longrightarrow> lt x y \<or> lt y z" for x y z
    by (auto simp: strict_weak_order_def)
  then show ?thesis by unfold_locales blast+
qed

text \<open>Comparing bytes with \<open>memcmp\<close>.\<close>

interpretation bytes: strict_weak_order "\<lambda>a b. memcmp a b < 0"
proof unfold_locales
  fix a b c :: block
  show "memcmp a b < 0 \<Longrightarrow> memcmp b c < 0 \<Longrightarrow> memcmp a c < 0" by (rule memcmp_less_trans)
  show "memcmp a c < 0 \<Longrightarrow> memcmp a b < 0 \<or> memcmp b c < 0"
    using memcmp_total [of a b] memcmp_less_trans by metis
qed simp

end
