(* ===== verification/Byte_Buffer.thy ===== *)
theory Byte_Buffer
  imports Net_Prelude
begin

text \<open>
  \<open>lib/bytebuffer.hpp\<close>: the owning byte buffer every packet travels in. The state is the
  pointer \<open>ptr_\<close>, here \<open>buf_ptr\<close> (\<open>None\<close> is \<open>nullptr\<close>, \<open>Some m\<close> a heap block with the contents \<open>m\<close>) and
  the size \<open>size_\<close>, here \<open>buf_size\<close>, the buffer claims. The block's length is its capacity; the class keeps no
  capacity field, so whether \<open>size_\<close> stays within the block is a property to prove. Allocation
  is taken to succeed, and a zero-length copy from \<open>nullptr\<close> to be harmless.
\<close>

named_theorems buf_simps \<open>contents and capacity of byte buffers\<close>

section \<open>State and constructors\<close>

record byte_buffer =
  buf_ptr :: "block option"
  buf_size :: nat

definition buf_block :: "byte_buffer \<Rightarrow> block" where
  "buf_block b = (case buf_ptr b of None \<Rightarrow> [] | Some m \<Rightarrow> m)"

abbreviation capacity :: "byte_buffer \<Rightarrow> nat" where
  "capacity b \<equiv> length (buf_block b)"

text \<open>The bytes a reader of the buffer is entitled to see.\<close>

definition buf_bytes :: "byte_buffer \<Rightarrow> block" where
  "buf_bytes b = take (buf_size b) (buf_block b)"

definition buf_wf :: "byte_buffer \<Rightarrow> bool" where
  "buf_wf b \<longleftrightarrow> buf_size b \<le> capacity b \<and> buf_size b < size_max"

definition buf_default :: byte_buffer where
  "buf_default = \<lparr>buf_ptr = None, buf_size = 0\<rparr>"

definition buf_sized :: "(nat \<Rightarrow> u8) \<Rightarrow> nat \<Rightarrow> byte_buffer" where
  "buf_sized g n = \<lparr>buf_ptr = Some (new_array g n), buf_size = n\<rparr>"

text \<open>\<open>byte_buffer(const void *ptr, size_t len)\<close>: \<open>src\<close> is the memory readable at \<open>ptr\<close>.\<close>

definition buf_from_ptr :: "block \<Rightarrow> nat \<Rightarrow> byte_buffer outcome" where
  "buf_from_ptr src len =
     and_then (mem_load src 0 len) (\<lambda>bs. Inr \<lparr>buf_ptr = Some bs, buf_size = len\<rparr>)"

definition buf_copy :: "byte_buffer \<Rightarrow> byte_buffer outcome" where
  "buf_copy b = buf_from_ptr (buf_block b) (buf_size b)"

text \<open>The move constructor: the new buffer and the emptied source.\<close>

definition buf_move :: "byte_buffer \<Rightarrow> byte_buffer \<times> byte_buffer" where
  "buf_move b =
     (\<lparr>buf_ptr = buf_ptr b, buf_size = buf_size b\<rparr>, b\<lparr>buf_ptr := None, buf_size := 0\<rparr>)"

section \<open>Comparison and access\<close>

definition buf_eq :: "byte_buffer \<Rightarrow> byte_buffer \<Rightarrow> bool outcome" where
  "buf_eq a b =
     (if buf_size a \<noteq> buf_size b then Inr False
      else and_then (mem_load (buf_block a) 0 (buf_size a)) (\<lambda>x.
           and_then (mem_load (buf_block b) 0 (buf_size a)) (\<lambda>y.
           Inr (memcmp x y = 0))))"

text \<open>A reallocation of \<open>buf_ptr\<close> to \<open>2 * size_\<close> bytes that keeps the first \<open>size_\<close> of them,
  as \<open>operator[]\<close> and \<open>resize\<close> both do it.\<close>

definition buf_double :: "(nat \<Rightarrow> u8) \<Rightarrow> byte_buffer \<Rightarrow> byte_buffer outcome" where
  "buf_double g b =
     and_then (mem_load (buf_block b) 0 (buf_size b)) (\<lambda>old.
     and_then (mem_store (new_array g (size_mul (buf_size b) 2)) 0 old) (\<lambda>m.
     Inr (b\<lparr>buf_ptr := Some m\<rparr>)))"

text \<open>\<open>uint8_t &operator[](size_t index)\<close>: the buffer after the call; the reference returned is
  to offset \<open>index\<close> of its block, and a use of it is a load or store that must lie inside.\<close>

definition buf_index :: "(nat \<Rightarrow> u8) \<Rightarrow> byte_buffer \<Rightarrow> nat \<Rightarrow> byte_buffer outcome" where
  "buf_index g b index = (if buf_size b < index then buf_double g b else Inr b)"

text \<open>\<open>const uint8_t &operator[](size_t index) const\<close>, read at once.\<close>

definition buf_const_index :: "byte_buffer \<Rightarrow> nat \<Rightarrow> u8 outcome" where
  "buf_const_index b index =
     (if buf_size b < index then Inl Buffer_Overflow
      else and_then (mem_load (buf_block b) index 1) (\<lambda>bs. Inr (hd bs)))"

section \<open>Resizing and filling\<close>

definition buf_resize :: "(nat \<Rightarrow> u8) \<Rightarrow> byte_buffer \<Rightarrow> nat \<Rightarrow> byte_buffer outcome" where
  "buf_resize g b n =
     (if buf_size b < n
      then and_then (buf_double g b) (\<lambda>b'. Inr (b'\<lparr>buf_size := n\<rparr>))
      else Inr (b\<lparr>buf_size := n\<rparr>))"

text \<open>\<open>fill(buf, size, offset)\<close>: \<open>bcopy(buf, buf_ptr + offset, to_copy)\<close> copies from \<open>buf\<close> into
  the buffer. The result is the buffer after the call and \<open>to_copy\<close>.\<close>

definition buf_fill :: "byte_buffer \<Rightarrow> block \<Rightarrow> nat \<Rightarrow> nat \<Rightarrow> (byte_buffer \<times> nat) outcome" where
  "buf_fill b src n offset =
     (let to_copy = size_sub (buf_size b) offset;
          to_copy = (if n < to_copy then n else to_copy)
      in and_then (mem_load src 0 to_copy) (\<lambda>bs.
         and_then (mem_store (buf_block b) offset bs) (\<lambda>m.
         Inr (b\<lparr>buf_ptr := map_option (\<lambda>_. m) (buf_ptr b)\<rparr>, to_copy))))"

section \<open>Contents, capacity and the invariant\<close>

lemma buf_block_simps [simp]:
  "buf_block \<lparr>buf_ptr = Some m, buf_size = n\<rparr> = m"
  "buf_block (b\<lparr>buf_ptr := Some m\<rparr>) = m"
  "buf_block (b\<lparr>buf_size := n\<rparr>) = buf_block b"
  "buf_block \<lparr>buf_ptr = None, buf_size = n\<rparr> = []"
  by (simp_all add: buf_block_def)

lemma buf_bytes_length [buf_simps]: "buf_wf b \<Longrightarrow> length (buf_bytes b) = buf_size b"
  by (simp add: buf_bytes_def buf_wf_def)

lemma buf_sized_simps [buf_simps]:
  "buf_size (buf_sized g n) = n"
  "buf_block (buf_sized g n) = new_array g n"
  "buf_wf (buf_sized g n) \<longleftrightarrow> n < size_max"
  by (simp_all add: buf_sized_def buf_wf_def)

lemma buf_default_wf [simp]: "buf_wf buf_default"
  by (simp add: buf_default_def buf_wf_def)

lemma buf_from_ptr_Inr [buf_simps]:
  "len \<le> length src \<Longrightarrow> buf_from_ptr src len = Inr \<lparr>buf_ptr = Some (take len src), buf_size = len\<rparr>"
  by (simp add: buf_from_ptr_def mem_simps)

lemma buf_copy_Inr:
  "buf_wf b \<Longrightarrow> buf_copy b = Inr \<lparr>buf_ptr = Some (buf_bytes b), buf_size = buf_size b\<rparr>"
  by (simp add: buf_copy_def buf_simps buf_wf_def buf_bytes_def)

lemma buf_double_Inr:
  assumes "buf_wf b" and "2 * buf_size b < size_max"
  shows "buf_double g b =
    Inr (b\<lparr>buf_ptr := Some (buf_bytes b @ drop (buf_size b) (new_array g (2 * buf_size b)))\<rparr>)"
  using assms
  by (simp add: buf_double_def mem_simps buf_wf_def buf_bytes_def size_mul_small mult.commute)

lemma buf_resize_shrink:
  "n \<le> buf_size b \<Longrightarrow> buf_resize g b n = Inr (b\<lparr>buf_size := n\<rparr>)"
  by (simp add: buf_resize_def)

lemma buf_resize_grow:
  assumes "buf_wf b" and "2 * buf_size b < size_max" and "buf_size b < n"
  shows "buf_resize g b n =
    Inr \<lparr>buf_ptr = Some (buf_bytes b @ drop (buf_size b) (new_array g (2 * buf_size b))), buf_size = n\<rparr>"
  using assms by (cases b) (simp add: buf_resize_def buf_double_Inr)

lemma buf_bytes_shrunk: "n \<le> buf_size b \<Longrightarrow> buf_bytes (b\<lparr>buf_size := n\<rparr>) = take n (buf_bytes b)"
  by (simp add: buf_bytes_def min_absorb1)

lemma buf_wf_shrunk: "buf_wf b \<Longrightarrow> n \<le> buf_size b \<Longrightarrow> buf_wf (b\<lparr>buf_size := n\<rparr>)"
  by (simp add: buf_wf_def)

section \<open>Properties\<close>

text \<open>A copy of a well-formed buffer succeeds, has exactly the visible bytes of the original
  and a block of exactly that many bytes; comparing the two says they are equal.\<close>

theorem buf_copy_exact:
  assumes "buf_wf b"
  shows "\<exists>c. buf_copy b = Inr c \<and> buf_wf c \<and> buf_bytes c = buf_bytes b \<and> capacity c = buf_size b \<and>
    buf_eq b c = Inr True"
  using assms by (auto simp: buf_copy_Inr buf_wf_def buf_bytes_def buf_eq_def mem_simps)

theorem buf_copy_exact_witness:
  "\<exists>c. buf_copy \<lparr>buf_ptr = Some [1, 2, 3], buf_size = 2\<rparr> = Inr c \<and> buf_wf c \<and>
    buf_bytes c = buf_bytes \<lparr>buf_ptr = Some [1, 2, 3], buf_size = 2\<rparr> \<and>
    capacity c = buf_size \<lparr>buf_ptr = Some [1, 2, 3], buf_size = 2\<rparr> \<and>
    buf_eq \<lparr>buf_ptr = Some [1, 2, 3], buf_size = 2\<rparr> c = Inr True"
  by (rule buf_copy_exact) (simp add: buf_wf_def)

text \<open>\<open>operator==\<close> on well-formed buffers decides equality of the visible bytes.\<close>

theorem buf_eq_iff:
  assumes "buf_wf a" and "buf_wf b"
  shows "buf_eq a b = Inr (buf_bytes a = buf_bytes b)"
proof (cases "buf_size a = buf_size b")
  case True
  with assms show ?thesis
    by (simp add: buf_eq_def mem_simps buf_wf_def buf_bytes_def)
next
  case False
  with assms have "length (buf_bytes a) \<noteq> length (buf_bytes b)" by (simp add: buf_simps)
  with False show ?thesis by (auto simp: buf_eq_def)
qed

theorem buf_eq_iff_witness:
  "buf_eq \<lparr>buf_ptr = Some [1, 2, 3], buf_size = 2\<rparr> \<lparr>buf_ptr = Some [1, 2], buf_size = 2\<rparr> =
    Inr (buf_bytes \<lparr>buf_ptr = Some [1, 2, 3], buf_size = 2\<rparr> =
         buf_bytes \<lparr>buf_ptr = Some [1, 2], buf_size = 2\<rparr>)"
  by (rule buf_eq_iff) (simp_all add: buf_wf_def)

text \<open>Shrinking keeps the prefix and the block; growing keeps every visible byte, and leaves a
  well-formed buffer exactly when the new size is at most twice the old one, since the block is
  only doubled.\<close>

theorem buf_resize_spec:
  assumes "buf_wf b" and "2 * buf_size b < size_max" and "n < size_max"
  shows "\<exists>c. buf_resize g b n = Inr c \<and> buf_size c = n
      \<and> take (buf_size b) (buf_bytes c) = take n (buf_bytes b)
      \<and> (buf_wf c \<longleftrightarrow> n \<le> 2 * buf_size b)"
proof (cases "buf_size b < n")
  case True
  with assms show ?thesis
    by (auto simp: buf_resize_grow buf_wf_def buf_bytes_def)
next
  case False
  with assms show ?thesis
    by (auto simp: buf_resize_shrink buf_wf_def buf_bytes_def min_def)
qed

theorem buf_resize_spec_witness:
  "\<exists>c. buf_resize (\<lambda>_. 7) \<lparr>buf_ptr = Some [1, 2, 3], buf_size = 2\<rparr> 5 = Inr c \<and> buf_size c = 5
      \<and> take (buf_size \<lparr>buf_ptr = Some [1, 2, 3], buf_size = 2\<rparr>) (buf_bytes c) =
          take 5 (buf_bytes \<lparr>buf_ptr = Some [1, 2, 3], buf_size = 2\<rparr>)
      \<and> (buf_wf c \<longleftrightarrow> 5 \<le> 2 * buf_size \<lparr>buf_ptr = Some [1, 2, 3], buf_size = 2\<rparr>)"
  by (rule buf_resize_spec) (simp_all add: buf_wf_def)

text \<open>Reading with the const subscript: a visible index gives the byte, an index beyond the size
  throws \<open>buffer_overflow\<close>, and the index equal to the size passes the guard, which makes it a
  read past the visible bytes (past the block, when the block is full).\<close>

theorem buf_const_index_spec:
  assumes "buf_wf b"
  shows "buf_const_index b i =
    (if i < buf_size b then Inr (buf_bytes b ! i)
     else if buf_size b < i then Inl Buffer_Overflow
     else if buf_size b < capacity b then Inr (buf_block b ! i)
     else Inl Undefined_Behaviour)"
  using assms
  by (auto simp: buf_const_index_def mem_load_def buf_wf_def buf_bytes_def hd_drop_conv_nth)

theorem buf_const_index_spec_witness:
  "buf_const_index \<lparr>buf_ptr = Some [1, 2], buf_size = 2\<rparr> 2 =
    (if 2 < buf_size \<lparr>buf_ptr = Some [1, 2], buf_size = 2\<rparr>
     then Inr (buf_bytes \<lparr>buf_ptr = Some [1, 2], buf_size = 2\<rparr> ! 2)
     else if buf_size \<lparr>buf_ptr = Some [1, 2], buf_size = 2\<rparr> < 2 then Inl Buffer_Overflow
     else if buf_size \<lparr>buf_ptr = Some [1, 2], buf_size = 2\<rparr> < capacity \<lparr>buf_ptr = Some [1, 2], buf_size = 2\<rparr>
     then Inr (buf_block \<lparr>buf_ptr = Some [1, 2], buf_size = 2\<rparr> ! 2)
     else Inl Undefined_Behaviour)"
  by (rule buf_const_index_spec) (simp add: buf_wf_def)

text \<open>\<open>fill\<close> with an offset inside the buffer overwrites at most the rest of it, from
  \<open>offset\<close>, with the bytes of \<open>buf\<close>: the copy goes into the buffer although the method is const.\<close>

theorem buf_fill_spec:
  assumes "buf_wf b" and "offset \<le> buf_size b" and "min n (buf_size b - offset) \<le> length src"
  shows "\<exists>c. buf_fill b src n offset = Inr (c, min n (buf_size b - offset)) \<and> buf_wf c \<and>
    buf_bytes c = take offset (buf_bytes b) @ take (min n (buf_size b - offset)) src
      @ drop (offset + min n (buf_size b - offset)) (buf_bytes b)"
proof -
  let ?k = "min n (buf_size b - offset)"
  have k: "(if n < buf_size b - offset then n else buf_size b - offset) = ?k" by simp
  have fit: "offset + ?k \<le> buf_size b" "buf_size b \<le> capacity b"
    using assms(1,2) by (simp_all add: buf_wf_def)
  let ?m = "take offset (buf_block b) @ take ?k src @ drop (offset + ?k) (buf_block b)"
  have "buf_fill b src n offset = Inr (b\<lparr>buf_ptr := map_option (\<lambda>_. ?m) (buf_ptr b)\<rparr>, ?k)"
    using assms(2,3) fit by (simp add: buf_fill_def k mem_simps Let_def)
  moreover have "buf_block (b\<lparr>buf_ptr := map_option (\<lambda>_. ?m) (buf_ptr b)\<rparr>) = ?m"
    using fit by (cases "buf_ptr b") (simp_all add: buf_block_def)
  ultimately show ?thesis
    using assms(1,2,3) fit by (auto simp: buf_wf_def buf_bytes_def drop_take min_absorb1)
qed

theorem buf_fill_spec_witness:
  "\<exists>c. buf_fill \<lparr>buf_ptr = Some [1, 2, 3], buf_size = 3\<rparr> [9, 9] 2 1 =
      Inr (c, min 2 (buf_size \<lparr>buf_ptr = Some [1, 2, 3], buf_size = 3\<rparr> - 1)) \<and> buf_wf c \<and>
    buf_bytes c = take 1 (buf_bytes \<lparr>buf_ptr = Some [1, 2, 3], buf_size = 3\<rparr>)
      @ take (min 2 (buf_size \<lparr>buf_ptr = Some [1, 2, 3], buf_size = 3\<rparr> - 1)) [9, 9]
      @ drop (1 + min 2 (buf_size \<lparr>buf_ptr = Some [1, 2, 3], buf_size = 3\<rparr> - 1))
          (buf_bytes \<lparr>buf_ptr = Some [1, 2, 3], buf_size = 3\<rparr>)"
  by (rule buf_fill_spec) (simp_all add: buf_wf_def)

end
