(* ===== verification/Aes_Crypto.thy ===== *)
theory Aes_Crypto
  imports Byte_Buffer
begin

text \<open>
  \<open>crypto/AES.hpp\<close> and \<open>crypto/AES.cpp\<close>: AES-256-CBC with a random initial vector, carried in
  an envelope \<open>iv (16) | plaintext length (4, native) | ciphertext\<close>. OpenSSL's EVP calls and
  \<open>RAND_bytes\<close> are outside the repository: the record \<open>evp\<close> holds what the calls return, and
  \<open>evp_cbc_ok\<close> states the documented behaviour of AES-256-CBC with PKCS padding the code relies
  on. The buffer handling around those calls is translated with every load and store checked.
\<close>

named_theorems cipher_simps \<open>layout of the encrypted envelope\<close>

section \<open>Keys and initial vectors\<close>

abbreviation (input) AES_BLOCK_SIZE :: nat where "AES_BLOCK_SIZE \<equiv> 16"

abbreviation (input) AES_KEY_SIZE :: nat where "AES_KEY_SIZE \<equiv> 32"

text \<open>\<open>sizeof(length_type)\<close>.\<close>

abbreviation (input) LENGTH_SIZE :: nat where "LENGTH_SIZE \<equiv> 4"

text \<open>\<open>AES_key(const std::string &key)\<close>: the first loop copies, the second pads with zeros.\<close>

fun key_fill :: "nat \<Rightarrow> u8 list \<Rightarrow> block" where
  "key_fill 0 key = []"
| "key_fill (Suc n) [] = 0 # key_fill n []"
| "key_fill (Suc n) (c # key) = c # key_fill n key"

definition AES_key :: "u8 list \<Rightarrow> block" where
  "AES_key key = key_fill AES_KEY_SIZE key"

record aes =
  aes_key :: block
  aes_iv :: block

text \<open>\<open>AES(const AES_key &key)\<close>; \<open>iv_\<close> starts indeterminate.\<close>

definition aes_new :: "(nat \<Rightarrow> u8) \<Rightarrow> block \<Rightarrow> aes" where
  "aes_new g key = \<lparr>aes_key = key, aes_iv = new_array g AES_BLOCK_SIZE\<rparr>"

definition aes_wf :: "aes \<Rightarrow> bool" where
  "aes_wf a \<longleftrightarrow> length (aes_key a) = AES_KEY_SIZE \<and> length (aes_iv a) = AES_BLOCK_SIZE"

section \<open>The EVP interface\<close>

text \<open>Each call's result as a function of what it may depend on: key, initial vector, the length
  argument and the bytes readable at the input pointer. \<open>None\<close> is a return value other than 1.
  The \<open>final\<close> calls follow the \<open>update\<close> call with the same arguments on the same context.\<close>

record evp =
  ctx_new :: bool
  enc_init :: "block \<Rightarrow> block \<Rightarrow> bool"
  enc_update :: "block \<Rightarrow> block \<Rightarrow> int \<Rightarrow> block \<Rightarrow> block option"
  enc_final :: "block \<Rightarrow> block \<Rightarrow> int \<Rightarrow> block \<Rightarrow> block option"
  dec_init :: "block \<Rightarrow> block \<Rightarrow> bool"
  dec_update :: "block \<Rightarrow> block \<Rightarrow> int \<Rightarrow> block \<Rightarrow> block option"
  dec_final :: "block \<Rightarrow> block \<Rightarrow> int \<Rightarrow> block \<Rightarrow> block option"

text \<open>The length of an AES-CBC ciphertext with PKCS padding.\<close>

definition padded :: "nat \<Rightarrow> nat" where
  "padded n = AES_BLOCK_SIZE * (n div AES_BLOCK_SIZE + 1)"

definition evp_cbc_ok :: "evp \<Rightarrow> bool" where
  "evp_cbc_ok e \<longleftrightarrow> ctx_new e \<and>
     (\<forall>k iv. length k = AES_KEY_SIZE \<longrightarrow> length iv = AES_BLOCK_SIZE \<longrightarrow>
        enc_init e k iv \<and> dec_init e k iv \<and>
        (\<forall>p mem. length p < 2 ^ 31 - AES_BLOCK_SIZE \<longrightarrow> take (length p) mem = p \<longrightarrow>
          (\<exists>u f. enc_update e k iv (int (length p)) mem = Some u
               \<and> enc_final e k iv (int (length p)) mem = Some f
               \<and> length (u @ f) = padded (length p)
               \<and> (\<exists>u' f'. dec_update e k iv (int (padded (length p))) (u @ f) = Some u'
                    \<and> dec_final e k iv (int (padded (length p))) (u @ f) = Some f'
                    \<and> u' @ f' = p))))"

section \<open>cipher_buffer\<close>

text \<open>\<open>cipher_buffer(const AES_IV &iv, length_type origin_len)\<close>.\<close>

definition cipher_new :: "(nat \<Rightarrow> u8) \<Rightarrow> block \<Rightarrow> u32 \<Rightarrow> byte_buffer outcome" where
  "cipher_new g iv origin_len =
     (let b = buf_sized g (unat origin_len + LENGTH_SIZE + AES_BLOCK_SIZE * 2)
      in and_then (mem_store (buf_block b) 0 iv) (\<lambda>m.
         and_then (buf_index g (b\<lparr>buf_ptr := Some m\<rparr>) AES_BLOCK_SIZE) (\<lambda>b.
         and_then (mem_store (buf_block b) AES_BLOCK_SIZE (le32_put origin_len)) (\<lambda>m.
         Inr (b\<lparr>buf_ptr := Some m\<rparr>)))))"

text \<open>\<open>cipher_buffer(const byte_buffer &origin)\<close>.\<close>

definition cipher_of :: "byte_buffer \<Rightarrow> byte_buffer outcome" where
  "cipher_of origin = buf_copy origin"

text \<open>\<open>plaintext_len()\<close> read as a value: \<open>*(length_type *)&buffer[AES_BLOCK_SIZE]\<close>.\<close>

definition plaintext_len :: "(nat \<Rightarrow> u8) \<Rightarrow> byte_buffer \<Rightarrow> u32 outcome" where
  "plaintext_len g b =
     and_then (buf_index g b AES_BLOCK_SIZE) (\<lambda>b.
     and_then (mem_load (buf_block b) AES_BLOCK_SIZE LENGTH_SIZE) (\<lambda>bs.
     Inr (le32_get bs)))"

definition cipher_iv :: "byte_buffer \<Rightarrow> block outcome" where
  "cipher_iv b = mem_load (buf_block b) 0 AES_BLOCK_SIZE"

text \<open>\<open>operator uint8_t *()\<close>: the buffer after the subscript; the pointer is to offset
  \<open>AES_BLOCK_SIZE + sizeof(length_type)\<close>.\<close>

abbreviation (input) CIPHER_OFF :: nat where "CIPHER_OFF \<equiv> AES_BLOCK_SIZE + LENGTH_SIZE"

definition cipher_ptr :: "(nat \<Rightarrow> u8) \<Rightarrow> byte_buffer \<Rightarrow> byte_buffer outcome" where
  "cipher_ptr g b = buf_index g b CIPHER_OFF"

definition cipher_size :: "byte_buffer \<Rightarrow> u32" where
  "cipher_size b = to_u32 (size_sub (size_sub (buf_size b) AES_BLOCK_SIZE) LENGTH_SIZE)"

definition cipher_resize :: "(nat \<Rightarrow> u8) \<Rightarrow> byte_buffer \<Rightarrow> u32 \<Rightarrow> byte_buffer outcome" where
  "cipher_resize g b n = buf_resize g b (CIPHER_OFF + unat n)"

section \<open>Encryption and decryption\<close>

text \<open>One EVP call on input memory \<open>mem\<close>: reading past it is undefined, a failure throws.\<close>

definition evp_call ::
    "(block \<Rightarrow> block \<Rightarrow> int \<Rightarrow> block \<Rightarrow> block option) \<Rightarrow> string \<Rightarrow> block \<Rightarrow> block \<Rightarrow> int \<Rightarrow> block \<Rightarrow>
     block outcome" where
  "evp_call f what key iv inl mem =
     (if int (length mem) < inl then Inl Undefined_Behaviour
      else case f key iv inl mem of
             None \<Rightarrow> Inl (Ssl_Internal_Error what)
           | Some out \<Rightarrow> Inr out)"

text \<open>\<open>rnd\<close> is what \<open>RAND_bytes\<close> wrote, \<open>None\<close> when it failed (its result is not looked at).
  \<open>g i\<close> is the indeterminate contents of the \<open>i\<close>-th allocation that can take place.\<close>

definition AES_encrypt ::
    "evp \<Rightarrow> (nat \<Rightarrow> nat \<Rightarrow> u8) \<Rightarrow> block option \<Rightarrow> aes \<Rightarrow> byte_buffer \<Rightarrow> (aes \<times> byte_buffer) outcome" where
  "AES_encrypt e g rnd a plain =
     (let iv = (case rnd of None \<Rightarrow> aes_iv a | Some r \<Rightarrow> r);
          a = a\<lparr>aes_iv := iv\<rparr>;
          inl = to_int32 (buf_size plain)
      in and_then (cipher_new (g 0) iv (to_u32 (buf_size plain))) (\<lambda>cipher.
         and_then (check (ctx_new e) (Ssl_Internal_Error ''EVP_CIPHER_CTX_new'')) (\<lambda>_.
         and_then (check (enc_init e (aes_key a) iv)
           (Ssl_Internal_Error ''EVP_CIPHER_CTX_new'')) (\<lambda>_.
         and_then (cipher_ptr (g 1) cipher) (\<lambda>cipher.
         and_then (evp_call (enc_update e) ''EVP_EncryptUpdate'' (aes_key a) iv inl
           (buf_block plain)) (\<lambda>u.
         and_then (mem_store (buf_block cipher) CIPHER_OFF u) (\<lambda>m.
         and_then (cipher_ptr (g 2) (cipher\<lparr>buf_ptr := Some m\<rparr>)) (\<lambda>cipher.
         and_then (evp_call (enc_final e) ''EVP_EncryptFinal_ex'' (aes_key a) iv inl
           (buf_block plain)) (\<lambda>f.
         and_then (mem_store (buf_block cipher) (CIPHER_OFF + length u) f) (\<lambda>m.
         and_then (cipher_resize (g 3) (cipher\<lparr>buf_ptr := Some m\<rparr>)
           (to_u32 (length u + length f))) (\<lambda>cipher.
         and_then (buf_copy cipher) (\<lambda>out.
         Inr (a, out)))))))))))))"

definition AES_decrypt ::
    "evp \<Rightarrow> (nat \<Rightarrow> nat \<Rightarrow> u8) \<Rightarrow> aes \<Rightarrow> byte_buffer \<Rightarrow> (aes \<times> byte_buffer) outcome" where
  "AES_decrypt e g a buffer =
     and_then (cipher_of buffer) (\<lambda>cipher.
     and_then (cipher_iv cipher) (\<lambda>iv.
     let a = a\<lparr>aes_iv := iv\<rparr>;
         plain = buf_sized (g 0) (buf_size buffer);
         inl = sint (cipher_size cipher)
     in and_then (check (ctx_new e) (Ssl_Internal_Error ''EVP_CIPHER_CTX_new'')) (\<lambda>_.
        and_then (check (dec_init e (aes_key a) iv)
          (Ssl_Internal_Error ''EVP_DecryptInit_ex'')) (\<lambda>_.
        and_then (cipher_ptr (g 1) cipher) (\<lambda>cipher.
        and_then (evp_call (dec_update e) ''EVP_DecryptUpdate'' (aes_key a) iv inl
          (drop CIPHER_OFF (buf_block cipher))) (\<lambda>u.
        and_then (mem_store (buf_block plain) 0 u) (\<lambda>m.
        and_then (evp_call (dec_final e) ''EVP_DecryptFinal_ex'' (aes_key a) iv inl
          (drop CIPHER_OFF (buf_block cipher))) (\<lambda>f.
        and_then (mem_store m (length u) f) (\<lambda>m.
        let plain = plain\<lparr>buf_ptr := Some m\<rparr>
        in and_then (plaintext_len (g 2) cipher) (\<lambda>len.
           and_then (if unat len < buf_size plain then buf_resize (g 3) plain (unat len)
                     else Inr plain) (\<lambda>plain.
           Inr (a, plain))))))))))))"

section \<open>The envelope\<close>

text \<open>The bytes of an encrypted buffer.\<close>

definition envelope :: "block \<Rightarrow> u32 \<Rightarrow> block \<Rightarrow> block" where
  "envelope iv len c = iv @ le32_put len @ c"

lemma length_envelope [cipher_simps]:
  "length iv = AES_BLOCK_SIZE \<Longrightarrow> length (envelope iv len c) = CIPHER_OFF + length c"
  by (simp add: envelope_def codec_simps)

lemma padded_bounds: "n < padded n" "padded n \<le> n + AES_BLOCK_SIZE"
  unfolding padded_def by (presburger, presburger)

lemma padded_less: "n < 2 ^ 31 - AES_BLOCK_SIZE \<Longrightarrow> padded n < 2 ^ 31"
  using padded_bounds(2) [of n] by simp

lemma cipher_new_Inr:
  assumes "length iv = AES_BLOCK_SIZE"
  shows "cipher_new g iv len = Inr \<lparr>buf_ptr = Some (envelope iv len
      (drop CIPHER_OFF (new_array g (unat len + 36)))), buf_size = unat len + 36\<rparr>"
  using assms
  by (simp add: cipher_new_def buf_sized_def mem_simps buf_index_def Let_def codec_simps envelope_def
      add.commute)

lemma evp_call_Some:
  "inl \<le> int (length mem) \<Longrightarrow> f key iv inl mem = Some out \<Longrightarrow> evp_call f what key iv inl mem = Inr out"
  by (simp add: evp_call_def)

lemma evp_cbc_okD:
  assumes "evp_cbc_ok e" and "length k = AES_KEY_SIZE" and "length iv = AES_BLOCK_SIZE"
    and "length p = n" and "n < 2 ^ 31 - AES_BLOCK_SIZE" and "take n mem = p"
  obtains u f u' f' where
    "ctx_new e" "enc_init e k iv" "dec_init e k iv"
    "enc_update e k iv (int n) mem = Some u"
    "enc_final e k iv (int n) mem = Some f"
    "length u + length f = padded n"
    "dec_update e k iv (int (padded n)) (u @ f) = Some u'"
    "dec_final e k iv (int (padded n)) (u @ f) = Some f'"
    "u' @ f' = p"
  using assms unfolding evp_cbc_ok_def by (metis length_append)

lemma AES_encrypt_Inr:
  assumes "evp_cbc_ok e" and "aes_wf a" and "buf_wf plain"
    and "buf_size plain < 2 ^ 31 - AES_BLOCK_SIZE"
    and "iv = (case rnd of None \<Rightarrow> aes_iv a | Some r \<Rightarrow> r)" and "length iv = AES_BLOCK_SIZE"
  obtains c where
    "AES_encrypt e g rnd a plain = Inr (a\<lparr>aes_iv := iv\<rparr>,
       \<lparr>buf_ptr = Some (envelope iv (to_u32 (buf_size plain)) c), buf_size = CIPHER_OFF + length c\<rparr>)"
    "length c = padded (buf_size plain)"
    "\<exists>u f. dec_update e (aes_key a) iv (int (length c)) c = Some u
       \<and> dec_final e (aes_key a) iv (int (length c)) c = Some f \<and> u @ f = buf_bytes plain"
    "ctx_new e" "dec_init e (aes_key a) iv"
proof -
  let ?n = "buf_size plain"
  let ?hd = "iv @ le32_put (to_u32 ?n)"
  have len: "length (buf_bytes plain) = ?n" using assms(3) by (simp add: buf_simps)
  have n: "?n < 2 ^ 31" using assms(4) by simp
  have pre: "take ?n (buf_block plain) = buf_bytes plain" by (simp add: buf_bytes_def)
  obtain u f u' f' where
    uf: "ctx_new e" "enc_init e (aes_key a) iv" "dec_init e (aes_key a) iv"
      "enc_update e (aes_key a) iv (int ?n) (buf_block plain) = Some u"
      "enc_final e (aes_key a) iv (int ?n) (buf_block plain) = Some f"
      "length u + length f = padded ?n"
      "dec_update e (aes_key a) iv (int (padded ?n)) (u @ f) = Some u'"
      "dec_final e (aes_key a) iv (int (padded ?n)) (u @ f) = Some f'" "u' @ f' = buf_bytes plain"
    by (rule evp_cbc_okD [OF assms(1) _ assms(6) len assms(4) pre, of "aes_key a"])
       (use assms(2) in \<open>simp_all add: aes_wf_def\<close>)
  have inl: "int ?n \<le> int (length (buf_block plain))" using assms(3) by (simp add: buf_wf_def)
  have hd: "length ?hd = CIPHER_OFF" using assms(6) by (simp add: codec_simps)
  have fit: "length u + length f \<le> ?n + 16" "length u + length f < 2 ^ 31"
    using uf(6) padded_bounds(2) [of ?n] padded_less [OF assms(4)] by simp_all
  have enc: "AES_encrypt e g rnd a plain = Inr (a\<lparr>aes_iv := iv\<rparr>,
      \<lparr>buf_ptr = Some (?hd @ u @ f), buf_size = CIPHER_OFF + length (u @ f)\<rparr>)"
    using assms(5,6) uf(1-5) fit n hd inl
    by (simp add: AES_encrypt_def cipher_new_Inr cipher_ptr_def buf_index_def envelope_def
        evp_call_Some mem_simps cipher_resize_def buf_resize_shrink buf_copy_def buf_simps codec_simps
        Let_def)
  show thesis
    by (rule that [of "u @ f"]) (use enc uf in \<open>simp_all add: envelope_def\<close>)
qed

lemma AES_decrypt_envelope:
  assumes "length iv = AES_BLOCK_SIZE" and "buf_size b = CIPHER_OFF + length c"
    and "buf_bytes b = envelope iv len c" and "buf_wf b" and "length c < 2 ^ 31"
    and "ctx_new e" and "dec_init e (aes_key a) iv"
    and "dec_update e (aes_key a) iv (int (length c)) c = Some u"
    and "dec_final e (aes_key a) iv (int (length c)) c = Some f"
    and "length u + length f \<le> buf_size b"
  shows "AES_decrypt e g a b = Inr (a\<lparr>aes_iv := iv\<rparr>,
    \<lparr>buf_ptr = Some (u @ f @ drop (length u + length f) (new_array (g 0) (buf_size b))),
     buf_size = min (unat len) (buf_size b)\<rparr>)"
proof -
  have sz: "sint (cipher_size b) = int (length c)"
    using assms(2,5) to_int32_small [of "length c"] by (simp add: cipher_size_def to_int32_def to_u32_def)
  show ?thesis
    using assms(1-4,6-10) sz
    by (simp add: AES_decrypt_def cipher_of_def buf_copy_Inr cipher_iv_def mem_simps envelope_def
        cipher_size_def codec_simps buf_simps cipher_ptr_def buf_index_def plaintext_len_def
        evp_call_Some buf_sized_def buf_resize_shrink le32.get_prefix min_def Let_def
        add.commute)
qed

text \<open>Decrypting an encrypted buffer whose length field was replaced by \<open>len\<close>.\<close>

lemma AES_decrypt_of_encrypted:
  assumes "evp_cbc_ok e" and "aes_wf a" and "aes_key b = aes_key a" and "buf_wf plain"
    and "buf_size plain < 2 ^ 31 - AES_BLOCK_SIZE" and "\<forall>r. rnd = Some r \<longrightarrow> length r = AES_BLOCK_SIZE"
  obtains iv c where
    "AES_encrypt e g rnd a plain = Inr (a\<lparr>aes_iv := iv\<rparr>,
       \<lparr>buf_ptr = Some (envelope iv (to_u32 (buf_size plain)) c), buf_size = CIPHER_OFF + length c\<rparr>)"
    "length iv = AES_BLOCK_SIZE" "length c = padded (buf_size plain)"
    "\<And>h len. AES_decrypt e h b \<lparr>buf_ptr = Some (envelope iv len c), buf_size = CIPHER_OFF + length c\<rparr> =
       Inr (b\<lparr>aes_iv := iv\<rparr>,
         \<lparr>buf_ptr = Some (buf_bytes plain @ drop (buf_size plain) (new_array (h 0) (CIPHER_OFF + length c))),
          buf_size = min (unat len) (CIPHER_OFF + length c)\<rparr>)"
proof -
  define iv where "iv = (case rnd of None \<Rightarrow> aes_iv a | Some r \<Rightarrow> r)"
  have iv: "length iv = AES_BLOCK_SIZE"
    using assms(2,6) by (auto simp: iv_def aes_wf_def split: option.splits)
  obtain c where enc: "AES_encrypt e g rnd a plain = Inr (a\<lparr>aes_iv := iv\<rparr>,
       \<lparr>buf_ptr = Some (envelope iv (to_u32 (buf_size plain)) c), buf_size = CIPHER_OFF + length c\<rparr>)"
    and c: "length c = padded (buf_size plain)"
    and dec: "\<exists>u f. dec_update e (aes_key a) iv (int (length c)) c = Some u
       \<and> dec_final e (aes_key a) iv (int (length c)) c = Some f \<and> u @ f = buf_bytes plain"
    and init: "ctx_new e" "dec_init e (aes_key a) iv"
    using AES_encrypt_Inr [OF assms(1,2,4,5) iv_def iv] by blast
  obtain u f where uf: "dec_update e (aes_key b) iv (int (length c)) c = Some u"
      "dec_final e (aes_key b) iv (int (length c)) c = Some f" "u @ f = buf_bytes plain"
    using dec assms(3) by auto
  have n: "length u + length f = buf_size plain"
    using uf(3) assms(4) by (metis buf_bytes_length length_append)
  have fit: "length c < 2 ^ 31" "buf_size plain \<le> CIPHER_OFF + length c"
    using c padded_less [OF assms(5)] padded_bounds(1) [of "buf_size plain"] by simp_all
  show thesis
  proof (rule that [OF enc iv c])
    fix h len
    let ?b = "\<lparr>buf_ptr = Some (envelope iv len c), buf_size = CIPHER_OFF + length c\<rparr>"
    have b: "buf_bytes ?b = envelope iv len c" "buf_wf ?b"
      using iv fit by (simp_all add: buf_bytes_def buf_wf_def cipher_simps)
    show "AES_decrypt e h b ?b = Inr (b\<lparr>aes_iv := iv\<rparr>,
         \<lparr>buf_ptr = Some (buf_bytes plain @ drop (buf_size plain) (new_array (h 0) (CIPHER_OFF + length c))),
          buf_size = min (unat len) (CIPHER_OFF + length c)\<rparr>)"
      using AES_decrypt_envelope [OF iv _ b(1,2) fit(1) init(1) _ uf(1,2), of h] init(2) assms(3) n fit
      by (simp flip: uf(3))
  qed
qed

lemma key_fill_append: "key_fill n k = take n k @ replicate (n - length k) 0"
  by (induction n k rule: key_fill.induct) auto

lemma AES_decrypt_short:
  assumes "buf_wf b" and "buf_size b < AES_BLOCK_SIZE"
  shows "AES_decrypt e g a b = Inl Undefined_Behaviour"
  using assms
  by (simp add: AES_decrypt_def cipher_of_def buf_copy_Inr cipher_iv_def mem_load_def buf_bytes_def
      buf_wf_def)

section \<open>A padding-only cipher\<close>

text \<open>The EVP contract can hold: a cipher that only applies PKCS padding satisfies it.\<close>

definition pkcs_pad :: "block \<Rightarrow> block" where
  "pkcs_pad p = p @ replicate (padded (length p) - length p) (of_nat (padded (length p) - length p))"

definition pkcs_strip :: "block \<Rightarrow> block" where
  "pkcs_strip c = take (length c - unat (last c)) c"

definition pad_evp :: evp where
  "pad_evp = \<lparr>ctx_new = True, enc_init = (\<lambda>_ _. True),
     enc_update = (\<lambda>_ _ _ _. Some []),
     enc_final = (\<lambda>_ _ n mem. Some (pkcs_pad (take (nat n) mem))),
     dec_init = (\<lambda>_ _. True),
     dec_update = (\<lambda>_ _ _ _. Some []),
     dec_final = (\<lambda>_ _ n mem. Some (pkcs_strip (take (nat n) mem)))\<rparr>"

lemma length_pkcs_pad: "length (pkcs_pad p) = padded (length p)"
  using padded_bounds(1) [of "length p"] by (simp add: pkcs_pad_def)

lemma pkcs_strip_pad: "pkcs_strip (pkcs_pad p) = p"
proof -
  let ?k = "padded (length p) - length p"
  have k: "0 < ?k" "?k \<le> 16" using padded_bounds [of "length p"] by simp_all
  then have "last (pkcs_pad p) = of_nat ?k" by (simp add: pkcs_pad_def)
  moreover have "unat (of_nat j :: u8) = j" if "j \<le> 16" for j using that by (simp add: unat_of_nat)
  then have "unat (of_nat ?k :: u8) = ?k" using k(2) .
  ultimately show ?thesis
    using k by (simp add: pkcs_strip_def length_pkcs_pad) (simp add: pkcs_pad_def)
qed

lemma evp_cbc_ok_pad_evp: "evp_cbc_ok pad_evp"
  by (auto simp: evp_cbc_ok_def pad_evp_def length_pkcs_pad pkcs_strip_pad)

section \<open>Properties\<close>

text \<open>C4: what one side encrypts, a side with the same key decrypts to the same bytes, whatever the
  random initial vector (drawn, or left over when \<open>RAND_bytes\<close> fails) and the heap contents.\<close>

theorem AES_decrypt_encrypt:
  assumes "evp_cbc_ok e" and "aes_wf a" and "aes_key b = aes_key a" and "buf_wf plain"
    and "buf_size plain < 2 ^ 31 - AES_BLOCK_SIZE" and "\<forall>r. rnd = Some r \<longrightarrow> length r = AES_BLOCK_SIZE"
  shows "\<exists>a' c b' p. AES_encrypt e g rnd a plain = Inr (a', c) \<and> buf_wf c \<and>
    AES_decrypt e h b c = Inr (b', p) \<and> buf_wf p \<and> buf_bytes p = buf_bytes plain"
proof -
  have n: "unat (to_u32 (buf_size plain)) = buf_size plain" using assms(5) by simp
  have fit: "buf_size plain < padded (buf_size plain)" "padded (buf_size plain) < 2 ^ 31"
    using padded_bounds(1) padded_less [OF assms(5)] by blast+
  have len: "length (buf_bytes plain) = buf_size plain" using assms(4) by (simp add: buf_simps)
  show ?thesis
    by (rule AES_decrypt_of_encrypted [OF assms, of g])
       (use n fit len in \<open>auto simp: buf_wf_def buf_bytes_def cipher_simps min_def\<close>)
qed

theorem AES_decrypt_encrypt_witness:
  "\<exists>a' c b' p. AES_encrypt pad_evp (\<lambda>_ _. 7) (Some (replicate 16 9))
      \<lparr>aes_key = replicate 32 1, aes_iv = replicate 16 0\<rparr> \<lparr>buf_ptr = Some [1, 2, 3], buf_size = 2\<rparr> = Inr (a', c) \<and>
    buf_wf c \<and> AES_decrypt pad_evp (\<lambda>_ _. 5) \<lparr>aes_key = replicate 32 1, aes_iv = replicate 16 4\<rparr> c = Inr (b', p) \<and>
    buf_wf p \<and> buf_bytes p = buf_bytes \<lparr>buf_ptr = Some [1, 2, 3], buf_size = 2\<rparr>"
  by (rule AES_decrypt_encrypt) (simp_all add: evp_cbc_ok_pad_evp aes_wf_def buf_wf_def)

text \<open>An encrypted buffer is the initial vector, the plaintext length and whole cipher blocks:
  its size is \<open>20 + 16 * (n div 16 + 1)\<close> and its head reads back as the vector and the length.\<close>

theorem AES_encrypt_envelope:
  assumes "evp_cbc_ok e" and "aes_wf a" and "buf_wf plain"
    and "buf_size plain < 2 ^ 31 - AES_BLOCK_SIZE" and "length r = AES_BLOCK_SIZE"
  shows "\<exists>a' c. AES_encrypt e g (Some r) a plain = Inr (a', c) \<and> aes_key a' = aes_key a \<and> buf_wf c \<and>
    buf_size c = CIPHER_OFF + padded (buf_size plain) \<and> cipher_iv c = Inr r \<and>
    plaintext_len h c = Inr (to_u32 (buf_size plain)) \<and>
    cipher_size c = to_u32 (padded (buf_size plain))"
proof -
  let ?n = "buf_size plain"
  obtain c where enc: "AES_encrypt e g (Some r) a plain = Inr (a\<lparr>aes_iv := r\<rparr>,
       \<lparr>buf_ptr = Some (envelope r (to_u32 ?n) c), buf_size = CIPHER_OFF + length c\<rparr>)"
    and c: "length c = padded ?n"
    by (rule AES_encrypt_Inr [OF assms(1-4) _ assms(5), of "Some r" g]) simp_all
  let ?c = "\<lparr>buf_ptr = Some (envelope r (to_u32 ?n) c), buf_size = CIPHER_OFF + length c\<rparr>"
  have fit: "padded ?n < 2 ^ 31" using padded_less [OF assms(4)] .
  have wf: "buf_wf ?c" using assms(5) c fit by (simp add: buf_wf_def cipher_simps)
  have iv: "cipher_iv ?c = Inr r"
    using assms(5) by (simp add: cipher_iv_def mem_simps envelope_def codec_simps)
  have len: "plaintext_len h ?c = Inr (to_u32 ?n)"
    using assms(5)
    by (simp add: plaintext_len_def buf_index_def mem_simps envelope_def codec_simps)
  show ?thesis using enc wf iv len c by (auto simp: cipher_size_def)
qed

theorem AES_encrypt_envelope_witness:
  "\<exists>a' c. AES_encrypt pad_evp (\<lambda>_ _. 7) (Some (replicate 16 9))
      \<lparr>aes_key = replicate 32 1, aes_iv = replicate 16 0\<rparr> \<lparr>buf_ptr = Some [1, 2, 3], buf_size = 2\<rparr> = Inr (a', c) \<and>
    aes_key a' = aes_key \<lparr>aes_key = replicate 32 1, aes_iv = replicate 16 0\<rparr> \<and> buf_wf c \<and>
    buf_size c = CIPHER_OFF + padded (buf_size \<lparr>buf_ptr = Some [1, 2, 3], buf_size = 2\<rparr>) \<and>
    cipher_iv c = Inr (replicate 16 9) \<and>
    plaintext_len (\<lambda>_. 0) c = Inr (to_u32 (buf_size \<lparr>buf_ptr = Some [1, 2, 3], buf_size = 2\<rparr>)) \<and>
    cipher_size c = to_u32 (padded (buf_size \<lparr>buf_ptr = Some [1, 2, 3], buf_size = 2\<rparr>))"
  by (rule AES_encrypt_envelope) (simp_all add: evp_cbc_ok_pad_evp aes_wf_def buf_wf_def)

text \<open>The length field is not authenticated: when it is replaced by a larger one, decryption
  returns the plaintext followed by indeterminate heap bytes, up to the size of the datagram.\<close>

theorem AES_decrypt_forged_length:
  assumes "evp_cbc_ok e" and "aes_wf a" and "aes_key b = aes_key a" and "buf_wf plain"
    and "buf_size plain < 2 ^ 31 - AES_BLOCK_SIZE" and "length r = AES_BLOCK_SIZE"
    and "buf_size plain < unat len"
  shows "\<exists>a' c b' p m. AES_encrypt e g (Some r) a plain = Inr (a', c) \<and>
    mem_store (buf_block c) AES_BLOCK_SIZE (le32_put len) = Inr m \<and>
    AES_decrypt e h b (c\<lparr>buf_ptr := Some m\<rparr>) = Inr (b', p) \<and>
    buf_size p = min (unat len) (buf_size c) \<and>
    buf_bytes p = buf_bytes plain @
      drop (buf_size plain) (new_array (h 0) (min (unat len) (buf_size c)))"
proof -
  have rnd: "\<forall>r'. Some r = Some r' \<longrightarrow> length r' = AES_BLOCK_SIZE" using assms(6) by simp
  have bytes: "length (buf_bytes plain) = buf_size plain" using assms(4) by (simp add: buf_simps)
  have new: "take k (new_array (h 0) n) = new_array (h 0) (min k n)" for k n
    by (simp add: new_array_def take_map min_def)
  have fit: "buf_size plain \<le> min (unat len) (CIPHER_OFF + padded (buf_size plain))"
    using assms(7) padded_bounds(1) [of "buf_size plain"] by simp
  show ?thesis
    by (rule AES_decrypt_of_encrypted [OF assms(1-5) rnd, of g])
       (use fit bytes new in \<open>auto simp: mem_simps envelope_def codec_simps buf_bytes_def take_drop\<close>)
qed

theorem AES_decrypt_forged_length_witness:
  "\<exists>a' c b' p m. AES_encrypt pad_evp (\<lambda>_ _. 7) (Some (replicate 16 9))
      \<lparr>aes_key = replicate 32 1, aes_iv = replicate 16 0\<rparr> \<lparr>buf_ptr = Some [1, 2, 3], buf_size = 2\<rparr> = Inr (a', c) \<and>
    mem_store (buf_block c) AES_BLOCK_SIZE (le32_put 100) = Inr m \<and>
    AES_decrypt pad_evp (\<lambda>_ _. 5) \<lparr>aes_key = replicate 32 1, aes_iv = replicate 16 0\<rparr>
      (c\<lparr>buf_ptr := Some m\<rparr>) = Inr (b', p) \<and>
    buf_size p = min (unat (100::u32)) (buf_size c) \<and>
    buf_bytes p = buf_bytes \<lparr>buf_ptr = Some [1, 2, 3], buf_size = 2\<rparr> @
      drop (buf_size \<lparr>buf_ptr = Some [1, 2, 3], buf_size = 2\<rparr>)
        (new_array (\<lambda>_. 5) (min (unat (100::u32)) (buf_size c)))"
  by (rule AES_decrypt_forged_length) (simp_all add: evp_cbc_ok_pad_evp aes_wf_def buf_wf_def)

text \<open>The constructor of a key keeps the first 32 bytes of the configured string and pads a
  shorter one with zeros, so a key is always 32 bytes.\<close>

theorem AES_key_pads:
  "AES_key k = take AES_KEY_SIZE k @ replicate (AES_KEY_SIZE - length k) 0 \<and>
   length (AES_key k) = AES_KEY_SIZE"
  by (simp add: AES_key_def key_fill_append)

text \<open>A datagram shorter than the 16 bytes of an initial vector is decrypted without a length
  check: copying the vector out reads past the buffer's block.\<close>

theorem AES_decrypt_short_undefined:
  assumes "buf_wf b" and "buf_size b < AES_BLOCK_SIZE"
  shows "AES_decrypt e g a b = Inl Undefined_Behaviour"
  using assms by (rule AES_decrypt_short)

theorem AES_decrypt_short_undefined_witness:
  "AES_decrypt pad_evp (\<lambda>_ _. 0) \<lparr>aes_key = replicate 32 1, aes_iv = replicate 16 0\<rparr>
     \<lparr>buf_ptr = Some (replicate 1500 3), buf_size = 15\<rparr> = Inl Undefined_Behaviour"
  by (rule AES_decrypt_short_undefined) (simp_all add: buf_wf_def)

end
