(* ===== verification/Mac_Table.thy ===== *)
theory Mac_Table
  imports Std_Map
begin

text \<open>
  \<open>ethernet_address\<close> and \<open>mac_table<T>\<close> of \<open>bridge/ether_bridge.hpp\<close>: the table in which the
  bridge learns behind which handler a MAC address was last seen. An address is its six octets,
  ordered by \<open>memcmp\<close>; the table is the \<open>std::map\<close> \<open>table_\<close> (the member \<open>list_\<close> is never
  used). Every operation that reads the clock takes the time it reads.
\<close>

named_theorems mac_simps \<open>what the table holds after an operation\<close>

section \<open>Ethernet addresses\<close>

datatype ethernet_address = Mac u8 u8 u8 u8 u8 u8

fun octets :: "ethernet_address \<Rightarrow> block" where
  "octets (Mac a b c d e f) = [a, b, c, d, e, f]"

fun mac_of :: "block \<Rightarrow> ethernet_address" where
  "mac_of (a # b # c # d # e # f # _) = Mac a b c d e f"
| "mac_of _ = Mac 0 0 0 0 0 0"

lemma octets_inject [simp]: "octets a = octets b \<longleftrightarrow> a = b"
  by (cases a; cases b) simp

lemma mac_of_octets [simp]: "mac_of (octets a @ rest) = a"
  by (cases a) simp

definition mac_less :: "ethernet_address \<Rightarrow> ethernet_address \<Rightarrow> bool" where
  "mac_less a b \<longleftrightarrow> memcmp (octets a) (octets b) < 0"

definition mac_equal :: "ethernet_address \<Rightarrow> ethernet_address \<Rightarrow> bool" where
  "mac_equal a b \<longleftrightarrow> memcmp (octets a) (octets b) = 0"

definition broad_cast_address :: ethernet_address where
  "broad_cast_address = Mac 0xff 0xff 0xff 0xff 0xff 0xff"

definition is_broadcast :: "ethernet_address \<Rightarrow> bool" where
  "is_broadcast a \<longleftrightarrow> mac_equal a broad_cast_address"

lemma mac_equal_iff [simp]: "mac_equal a b \<longleftrightarrow> a = b"
  by (simp add: mac_equal_def)

lemma is_broadcast_iff: "is_broadcast a \<longleftrightarrow> a = broad_cast_address"
  by (simp add: is_broadcast_def)

instantiation ethernet_address :: linorder
begin

definition less_ethernet_address :: "ethernet_address \<Rightarrow> ethernet_address \<Rightarrow> bool" where
  "less_ethernet_address = mac_less"

definition less_eq_ethernet_address :: "ethernet_address \<Rightarrow> ethernet_address \<Rightarrow> bool" where
  "less_eq_ethernet_address a b \<longleftrightarrow> \<not> mac_less b a"

instance
proof
  fix x y z :: ethernet_address
  have asym: "\<not> mac_less b a" if "mac_less a b" for a b
    using that memcmp_swap [of "octets b" "octets a"] by (simp add: mac_less_def)
  have total: "mac_less a b \<or> mac_less b a" if "a \<noteq> b" for a b
    using that memcmp_total [of "octets a" "octets b"] by (simp add: mac_less_def)
  have trans: "mac_less a c" if "mac_less a b" "mac_less b c" for a b c
    using that memcmp_less_trans unfolding mac_less_def by blast
  show "(x < y) = (x \<le> y \<and> \<not> y \<le> x)"
    using asym by (auto simp: less_ethernet_address_def less_eq_ethernet_address_def)
  show "x \<le> x" by (simp add: less_eq_ethernet_address_def mac_less_def)
  show "x \<le> y \<Longrightarrow> y \<le> z \<Longrightarrow> x \<le> z"
    unfolding less_eq_ethernet_address_def using total trans by metis
  show "x \<le> y \<Longrightarrow> y \<le> x \<Longrightarrow> x = y"
    unfolding less_eq_ethernet_address_def using total by blast
  show "x \<le> y \<or> y \<le> x"
    unfolding less_eq_ethernet_address_def using asym by blast
qed

end

interpretation mac: strict_weak_order mac_less
  unfolding mac_less_def by (rule strict_weak_order_inv_image) unfold_locales

lemma same_key_mac [simp]: "same_key mac_less a b \<longleftrightarrow> a = b"
  using less_linear [of a b]
  by (auto simp: same_key_def mac.lt_irrefl less_ethernet_address_def)

section \<open>The table\<close>

record 'h ethernet_address_record =
  rec_addr :: ethernet_address
  last_active :: int
  rec_t :: 'h

type_synonym 'h mac_table = "(ethernet_address \<times> 'h ethernet_address_record) list"

abbreviation (input) mac_timeout :: int where "mac_timeout \<equiv> 600"

definition mac_update :: "int \<Rightarrow> ethernet_address \<Rightarrow> 'h \<Rightarrow> 'h mac_table \<Rightarrow> 'h mac_table" where
  "mac_update now addr t table =
     (let r = \<lparr>rec_addr = addr, last_active = now, rec_t = t\<rparr>
      in if map_find mac_less addr table \<noteq> None then map_assign mac_less addr r table
         else map_emplace mac_less addr r table)"

definition mac_query :: "ethernet_address \<Rightarrow> 'h mac_table \<Rightarrow> 'h option" where
  "mac_query addr table =
     (case map_find mac_less addr table of None \<Rightarrow> None | Some r \<Rightarrow> Some (rec_t r))"

definition mac_check_timeout :: "int \<Rightarrow> 'h mac_table \<Rightarrow> 'h mac_table" where
  "mac_check_timeout now table = map_erase_loop (\<lambda>r. mac_timeout < now - last_active r) table"

text \<open>The pairs \<open>(it.addr(), *it)\<close> an iterator visits from \<open>begin()\<close> to \<open>end()\<close>.\<close>

definition mac_entries :: "'h mac_table \<Rightarrow> (ethernet_address \<times> 'h) list" where
  "mac_entries table = map (\<lambda>(a, r). (a, rec_t r)) table"

definition mac_stamp :: "ethernet_address \<Rightarrow> 'h mac_table \<Rightarrow> int option" where
  "mac_stamp addr table = map_option last_active (map_find mac_less addr table)"

definition mac_inv :: "'h mac_table \<Rightarrow> bool" where
  "mac_inv table \<longleftrightarrow> map_ordered mac_less table \<and> (\<forall>(a, r) \<in> set table. rec_addr r = a)"

lemma mac_inv_Nil [simp]: "mac_inv []"
  by (simp add: mac_inv_def)

section \<open>The contract the bridge relies on\<close>

locale learning_table =
  fixes inv :: "'t \<Rightarrow> bool"
    and update :: "int \<Rightarrow> 'a \<Rightarrow> 'h \<Rightarrow> 't \<Rightarrow> 't"
    and query :: "'a \<Rightarrow> 't \<Rightarrow> 'h option"
    and expire :: "int \<Rightarrow> 't \<Rightarrow> 't"
    and stamp :: "'a \<Rightarrow> 't \<Rightarrow> int option"
    and entries :: "'t \<Rightarrow> ('a \<times> 'h) list"
    and limit :: int
  assumes inv_update: "inv t \<Longrightarrow> inv (update now a h t)"
    and inv_expire: "inv t \<Longrightarrow> inv (expire now t)"
    and query_update: "inv t \<Longrightarrow> query b (update now a h t) = (if b = a then Some h else query b t)"
    and stamp_update: "inv t \<Longrightarrow> stamp b (update now a h t) = (if b = a then Some now else stamp b t)"
    and query_expire: "inv t \<Longrightarrow> query a (expire now t) =
      (case stamp a t of None \<Rightarrow> None | Some s \<Rightarrow> if limit < now - s then None else query a t)"
    and stamp_expire: "inv t \<Longrightarrow> stamp a (expire now t) =
      (case stamp a t of None \<Rightarrow> None | Some s \<Rightarrow> if limit < now - s then None else Some s)"
    and stamp_query: "inv t \<Longrightarrow> stamp a t = None \<longleftrightarrow> query a t = None"
    and entries_query: "inv t \<Longrightarrow> (a, h) \<in> set (entries t) \<longleftrightarrow> query a t = Some h"
    and entries_distinct: "inv t \<Longrightarrow> distinct (map fst (entries t))"
begin

text \<open>Expiring and then learning, as \<open>forward\<close> does.\<close>

lemma inv_learn: "inv t \<Longrightarrow> inv (update now' a h (expire now t))"
  by (simp add: inv_update inv_expire)

lemma query_learn:
  "inv t \<Longrightarrow> query b (update now' a h (expire now t)) =
    (if b = a then Some h
     else case stamp b t of None \<Rightarrow> None | Some s \<Rightarrow> if limit < now - s then None else query b t)"
  by (simp add: query_update inv_expire query_expire)

lemma stamp_learn:
  "inv t \<Longrightarrow> stamp b (update now' a h (expire now t)) =
    (if b = a then Some now'
     else case stamp b t of None \<Rightarrow> None | Some s \<Rightarrow> if limit < now - s then None else Some s)"
  by (simp add: stamp_update inv_expire stamp_expire)

text \<open>An address is known for as long as it was active within the limit.\<close>

lemma query_fresh:
  assumes "inv t" and "stamp a t = Some s" and "now - s \<le> limit"
  shows "query a (expire now t) = query a t" and "query a t \<noteq> None"
  using assms stamp_query [OF assms(1), of a] by (simp_all add: query_expire)

lemma query_stale:
  assumes "inv t" and "stamp a t = Some s" and "limit < now - s"
  shows "query a (expire now t) = None"
  using assms by (simp add: query_expire)

end

lemma mac_find_update [mac_simps]:
  "map_ordered mac_less t \<Longrightarrow> map_find mac_less b (mac_update now a h t) =
    (if b = a then Some \<lparr>rec_addr = a, last_active = now, rec_t = h\<rparr> else map_find mac_less b t)"
  using mac.find_update_idiom [of t b a] by (simp add: mac_update_def Let_def)

lemma mac_inv_iff_find:
  assumes "map_ordered mac_less t"
  shows "mac_inv t \<longleftrightarrow> (\<forall>a r. map_find mac_less a t = Some r \<longrightarrow> rec_addr r = a)"
  using assms by (auto simp: mac_inv_def mac.find_iff_in_set)

lemma mac_inv_update: "mac_inv t \<Longrightarrow> mac_inv (mac_update now a h t)"
proof -
  assume inv: "mac_inv t"
  then have "map_ordered mac_less t" by (simp add: mac_inv_def)
  moreover from this have "map_ordered mac_less (mac_update now a h t)"
    using mac.ordered_update_idiom [of t a] by (simp add: mac_update_def Let_def)
  ultimately show ?thesis using inv by (simp add: mac_inv_iff_find mac_simps)
qed

lemma mac_inv_check_timeout: "mac_inv t \<Longrightarrow> mac_inv (mac_check_timeout now t)"
  using map_ordered_erase_loop [of mac_less t]
  by (auto simp: mac_inv_def mac_check_timeout_def map_erase_loop_filter)

lemma map_ordered_distinct: "map_ordered mac_less t \<Longrightarrow> distinct (map fst t)"
  by (induction t) (use mac.lt_irrefl in fastforce)+

interpretation tbl: learning_table mac_inv mac_update mac_query mac_check_timeout mac_stamp
  mac_entries mac_timeout
proof unfold_locales
  fix t :: "'a mac_table" and a b :: ethernet_address and h :: 'a and now :: int
  assume inv: "mac_inv t"
  then have ord: "map_ordered mac_less t" by (simp add: mac_inv_def)
  show "mac_inv (mac_update now a h t)" by (rule mac_inv_update [OF inv])
  show "mac_inv (mac_check_timeout now t)" by (rule mac_inv_check_timeout [OF inv])
  show "mac_query b (mac_update now a h t) = (if b = a then Some h else mac_query b t)"
    using ord by (simp add: mac_query_def mac_simps)
  show "mac_stamp b (mac_update now a h t) = (if b = a then Some now else mac_stamp b t)"
    using ord by (simp add: mac_stamp_def mac_simps)
  show "mac_query a (mac_check_timeout now t) = (case mac_stamp a t of None \<Rightarrow> None
      | Some s \<Rightarrow> if mac_timeout < now - s then None else mac_query a t)"
    using ord by (simp add: mac_query_def mac_stamp_def mac_check_timeout_def
        mac.find_erase_loop split: option.splits)
  show "mac_stamp a (mac_check_timeout now t) = (case mac_stamp a t of None \<Rightarrow> None
      | Some s \<Rightarrow> if mac_timeout < now - s then None else Some s)"
    using ord by (simp add: mac_stamp_def mac_check_timeout_def
        mac.find_erase_loop split: option.splits)
  show "(mac_stamp a t = None) = (mac_query a t = None)"
    by (simp add: mac_stamp_def mac_query_def split: option.splits)
  show "((a, h) \<in> set (mac_entries t)) = (mac_query a t = Some h)"
  proof -
    have "((a, h) \<in> set (mac_entries t)) = (\<exists>r. (a, r) \<in> set t \<and> rec_t r = h)"
      by (force simp: mac_entries_def)
    also have "\<dots> = (\<exists>r. map_find mac_less a t = Some r \<and> rec_t r = h)"
      by (simp add: mac.find_iff_in_set [OF ord])
    finally show ?thesis by (auto simp: mac_query_def split: option.splits)
  qed
  show "distinct (map fst (mac_entries t))"
    using map_ordered_distinct [OF ord] by (simp add: mac_entries_def comp_def case_prod_beta')
qed

end
