(* ===== verification/Ether_Bridge.thy ===== *)
theory Ether_Bridge
  imports Mac_Table Byte_Buffer
begin

text \<open>
  \<open>ethernet_bridge\<close> of \<open>bridge/ether_bridge.hpp\<close>: \<open>forward\<close> expires old table entries, learns the
  source address of the frame together with the reply handler of the port it came from, and
  calls the handler of the destination, or of every other known address for a broadcast. The
  handlers are an arbitrary type; a call of \<open>forward\<close> yields the new table and the handlers it
  calls with the frame, in order. The two clock readings of one call are two arguments.
\<close>

named_theorems bridge_simps \<open>what one call of forward does\<close>

section \<open>forward\<close>

text \<open>\<open>sizeof(struct ether_header)\<close>: destination (6), source (6), type (2).\<close>

abbreviation (input) ETHER_HEADER :: nat where "ETHER_HEADER \<equiv> 14"

definition ether_dhost :: "block \<Rightarrow> ethernet_address" where
  "ether_dhost head = mac_of (take 6 head)"

definition ether_shost :: "block \<Rightarrow> ethernet_address" where
  "ether_shost head = mac_of (take 6 (drop 6 head))"

definition clean_up :: "int \<Rightarrow> 'h mac_table \<Rightarrow> 'h mac_table" where
  "clean_up now table = mac_check_timeout now table"

text \<open>The broadcast loop over the table's iterators.\<close>

fun broadcast_loop :: "ethernet_address \<Rightarrow> (ethernet_address \<times> 'h) list \<Rightarrow> 'h list" where
  "broadcast_loop src [] = []"
| "broadcast_loop src ((a, h) # es) =
     (if \<not> mac_equal a src then h # broadcast_loop src es else broadcast_loop src es)"

definition forward ::
    "int \<Rightarrow> int \<Rightarrow> byte_buffer \<Rightarrow> 'h \<Rightarrow> 'h mac_table \<Rightarrow> ('h mac_table \<times> 'h list) outcome" where
  "forward now now' buffer reply_handler table =
     (let table = clean_up now table
      in if buf_size buffer < ETHER_HEADER then Inr (table, [])
         else and_then (mem_load (buf_block buffer) 0 ETHER_HEADER) (\<lambda>head.
           let dst = ether_dhost head;
               src = ether_shost head;
               table = mac_update now' src reply_handler table
           in if \<not> is_broadcast dst
              then (case mac_query dst table of
                      Some send_handler \<Rightarrow> Inr (table, [send_handler])
                    | None \<Rightarrow> Inr (table, []))
              else Inr (table, broadcast_loop src (mac_entries table))))"

text \<open>The source address \<open>forward\<close> learns, if the frame is long enough to have one.\<close>

definition frame_src :: "byte_buffer \<Rightarrow> ethernet_address option" where
  "frame_src b = (if buf_size b < ETHER_HEADER then None else Some (ether_shost (buf_bytes b)))"

definition frame_dst :: "byte_buffer \<Rightarrow> ethernet_address option" where
  "frame_dst b = (if buf_size b < ETHER_HEADER then None else Some (ether_dhost (buf_bytes b)))"

text \<open>A sequence of calls on the one global bridge, as its ports make them.\<close>

record 'h arrival =
  at_clean :: int
  at_update :: int
  frame :: byte_buffer
  reply :: 'h

fun bridge_run :: "'h arrival list \<Rightarrow> 'h mac_table \<Rightarrow> ('h mac_table \<times> 'h list list) outcome" where
  "bridge_run [] table = Inr (table, [])"
| "bridge_run (x # xs) table =
     and_then (forward (at_clean x) (at_update x) (frame x) (reply x) table) (\<lambda>(table, calls).
     and_then (bridge_run xs table) (\<lambda>(table, rest). Inr (table, calls # rest)))"

section \<open>Lemmas\<close>

lemma ether_host_take:
  "14 \<le> n \<Longrightarrow> ether_dhost (take n m) = ether_dhost m"
  "14 \<le> n \<Longrightarrow> ether_shost (take n m) = ether_shost m"
  by (simp_all add: ether_dhost_def ether_shost_def take_drop min_def)

lemma broadcast_loop_filter:
  "broadcast_loop src es = map snd (filter (\<lambda>(a, h). a \<noteq> src) es)"
  by (induction src es rule: broadcast_loop.induct) auto

lemma forward_short [bridge_simps]:
  "frame_src b = None \<Longrightarrow> forward now now' b h t = Inr (mac_check_timeout now t, [])"
  by (simp add: forward_def frame_src_def clean_up_def split: if_splits)

lemma forward_frame [bridge_simps]:
  assumes "buf_wf b" and "frame_src b = Some src" and "frame_dst b = Some dst"
  shows "forward now now' b h t =
    (let t' = mac_update now' src h (mac_check_timeout now t)
     in Inr (t', if dst = broad_cast_address then broadcast_loop src (mac_entries t')
                 else case mac_query dst t' of None \<Rightarrow> [] | Some h' \<Rightarrow> [h']))"
  using assms
  by (auto simp: forward_def frame_src_def frame_dst_def clean_up_def buf_wf_def mem_simps
      buf_bytes_def ether_host_take is_broadcast_iff Let_def split: if_splits option.splits)

lemma forward_table:
  assumes "buf_wf b"
  shows "\<exists>calls. forward now now' b h t = Inr
    (case frame_src b of None \<Rightarrow> mac_check_timeout now t
       | Some src \<Rightarrow> mac_update now' src h (mac_check_timeout now t), calls)"
proof (cases "frame_src b")
  case (Some src)
  then obtain dst where "frame_dst b = Some dst" by (auto simp: frame_src_def frame_dst_def split: if_splits)
  with assms Some show ?thesis by (simp add: forward_frame Let_def)
qed (simp add: forward_short)

lemma forward_Inr_table:
  assumes "forward now now' b h t = Inr (t', calls)"
  obtains "t' = mac_check_timeout now t" | src where "t' = mac_update now' src h (mac_check_timeout now t)"
  using assms
  by (auto simp: forward_def clean_up_def Let_def and_then_Inr_iff split: if_splits option.splits)

lemma sorted_mac_entries:
  assumes "mac_inv t"
  shows "sorted (map fst (mac_entries t))"
proof -
  have "sorted (map fst t)" if "map_ordered mac_less t"
    using that
    by (induction t) (force simp: less_ethernet_address_def [symmetric] intro: less_imp_le)+
  with assms show ?thesis by (simp add: mac_entries_def mac_inv_def comp_def case_prod_beta')
qed

text \<open>The history a bridge has to remember: when and behind which handler an address last
  appeared as the source of a frame.\<close>

fun last_seen :: "'h arrival list \<Rightarrow> ethernet_address \<Rightarrow> (int \<times> 'h) option" where
  "last_seen [] a = None"
| "last_seen (x # xs) a =
     (case last_seen xs a of
        Some r \<Rightarrow> Some r
      | None \<Rightarrow> if frame_src (frame x) = Some a then Some (at_update x, reply x) else None)"

text \<open>The clock readings, from \<open>s\<close> on and up to \<open>e\<close>, do not go back.\<close>

fun clock_ok :: "int \<Rightarrow> 'h arrival list \<Rightarrow> int \<Rightarrow> bool" where
  "clock_ok s [] e \<longleftrightarrow> s \<le> e"
| "clock_ok s (x # xs) e \<longleftrightarrow>
     s \<le> at_clean x \<and> at_clean x \<le> at_update x \<and> clock_ok (at_update x) xs e"

lemma clock_ok_le: "clock_ok s xs e \<Longrightarrow> s \<le> e"
  by (induction s xs e rule: clock_ok.induct) auto

lemma bridge_run_lookup:
  assumes "mac_inv t" and "\<forall>x \<in> set xs. buf_wf (frame x)" and "clock_ok s xs now"
  shows "\<exists>t' calls. bridge_run xs t = Inr (t', calls) \<and> mac_inv t' \<and>
    (\<forall>a. mac_query a (mac_check_timeout now t') =
      (case last_seen xs a of
         Some (s, h) \<Rightarrow> if now - s \<le> mac_timeout then Some h else None
       | None \<Rightarrow> mac_query a (mac_check_timeout now t)))"
  using assms
proof (induction xs arbitrary: t s)
  case (Cons x xs)
  let ?c = "mac_check_timeout (at_clean x) t"
  define t1 where "t1 = (case frame_src (frame x) of None \<Rightarrow> ?c
      | Some src \<Rightarrow> mac_update (at_update x) src (reply x) ?c)"
  obtain calls where fwd: "forward (at_clean x) (at_update x) (frame x) (reply x) t = Inr (t1, calls)"
    using forward_table [of "frame x"] Cons.prems(2) by (force simp: t1_def)
  have inv1: "mac_inv t1"
    using Cons.prems(1) by (simp add: t1_def tbl.inv_learn tbl.inv_expire split: option.split)
  have clk: "at_clean x \<le> now"
    using Cons.prems(3) clock_ok_le [of "at_update x" xs now] by simp
  obtain t' rest where run: "bridge_run xs t1 = Inr (t', rest)" "mac_inv t'"
    and look: "\<And>a. mac_query a (mac_check_timeout now t') = (case last_seen xs a of
         Some (s, h) \<Rightarrow> if now - s \<le> mac_timeout then Some h else None
       | None \<Rightarrow> mac_query a (mac_check_timeout now t1))"
    using Cons.IH [OF inv1, of "at_update x"] Cons.prems(2,3) by auto
  have "mac_query a (mac_check_timeout now t1) =
    (if frame_src (frame x) = Some a then if now - at_update x \<le> mac_timeout then Some (reply x) else None
     else mac_query a (mac_check_timeout now t))" for a
    using Cons.prems(1) clk
    by (auto simp: t1_def tbl.query_expire tbl.stamp_expire tbl.query_update tbl.stamp_update
        tbl.inv_update tbl.inv_expire split: option.splits)
  then show ?case using fwd run look by (auto simp: and_then_def split: option.splits)
qed simp

section \<open>Properties\<close>

text \<open>C23: every call of \<open>forward\<close> on a well-formed frame keeps the table's invariant, and after it
  the source address is known behind the handler of the port the frame came from.\<close>

theorem forward_learns_source:
  assumes "mac_inv t" and "buf_wf b" and "frame_src b = Some src"
  shows "\<exists>t' calls. forward now now' b h t = Inr (t', calls) \<and> mac_inv t' \<and>
    mac_query src t' = Some h \<and> mac_stamp src t' = Some now'"
proof -
  obtain calls where
    "forward now now' b h t = Inr (mac_update now' src h (mac_check_timeout now t), calls)"
    using forward_table [OF assms(2), of now now' h t] assms(3) by auto
  then show ?thesis
    using assms(1) by (simp add: tbl.inv_learn tbl.query_learn tbl.stamp_learn)
qed

theorem forward_learns_source_witness:
  "\<exists>t' calls. forward 1000 1001 \<lparr>buf_ptr = Some (replicate 60 7), buf_size = 60\<rparr> (CHR ''h'')
     [] = Inr (t', calls) \<and> mac_inv t' \<and>
    mac_query (Mac 7 7 7 7 7 7) t' = Some (CHR ''h'') \<and> mac_stamp (Mac 7 7 7 7 7 7) t' = Some 1001"
proof (rule forward_learns_source)
  have "replicate 60 (7::u8) = replicate 6 7 @ replicate 6 7 @ replicate 48 7"
    by (simp flip: replicate_add)
  then show "frame_src \<lparr>buf_ptr = Some (replicate 60 7), buf_size = 60\<rparr> = Some (Mac 7 7 7 7 7 7)"
    by (simp add: frame_src_def buf_bytes_def ether_shost_def eval_nat_numeral)
qed (simp_all add: mac_inv_def buf_wf_def)

text \<open>A frame to a single address is handed to exactly one handler, the one its destination was
  last seen behind, when that was at most 600 seconds ago, and is dropped otherwise; a frame
  addressed to its own source goes back to the port it came from.\<close>

theorem forward_unicast:
  assumes "mac_inv t" and "buf_wf b" and "frame_src b = Some src" and "frame_dst b = Some dst"
    and "dst \<noteq> broad_cast_address"
  shows "\<exists>t'. forward now now' b h t = Inr (t',
    if dst = src then [h]
    else case (mac_stamp dst t, mac_query dst t) of
           (Some s, Some h') \<Rightarrow> if now - s \<le> 600 then [h'] else []
         | _ \<Rightarrow> [])"
  using assms tbl.stamp_query [OF assms(1), of dst]
  by (auto simp: forward_frame Let_def tbl.query_learn split: option.splits)

text \<open>A broadcast frame is handed to the handler of every address known within the last 600
  seconds other than its source, once for each such address, in address order.\<close>

theorem forward_broadcast:
  assumes "mac_inv t" and "buf_wf b" and "frame_src b = Some src"
    and "frame_dst b = Some broad_cast_address"
  shows "\<exists>t' as. forward now now' b h t = Inr (t', map (\<lambda>a. the (mac_query a t)) as) \<and>
    sorted as \<and> distinct as \<and>
    set as = {a. a \<noteq> src \<and> (\<exists>s. mac_stamp a t = Some s \<and> now - s \<le> 600)}"
proof -
  let ?t = "mac_update now' src h (mac_check_timeout now t)"
  let ?es = "filter (\<lambda>(a, h). a \<noteq> src) (mac_entries ?t)"
  have inv: "mac_inv ?t" using assms(1) by (rule tbl.inv_learn)
  have fwd: "forward now now' b h t = Inr (?t, map snd ?es)"
    using assms by (simp add: forward_frame Let_def broadcast_loop_filter)
  have "mac_query a t = Some h'" if "(a, h') \<in> set ?es" for a h'
    using that inv tbl.entries_query [OF inv, of a h'] tbl.query_learn [OF assms(1), of a now' src h now]
    by (auto split: option.splits if_splits)
  then have "map snd ?es = map (\<lambda>a. the (mac_query a t)) (map fst ?es)" by force
  with fwd have "forward now now' b h t = Inr (?t, map (\<lambda>a. the (mac_query a t)) (map fst ?es))"
    by simp
  moreover have "sorted (map fst ?es)" "distinct (map fst ?es)"
    using sorted_mac_entries [OF inv] tbl.entries_distinct [OF inv]
    by (simp_all add: sorted_filter distinct_map_filter)
  moreover have "a \<in> set (map fst ?es) \<longleftrightarrow> a \<noteq> src \<and> (\<exists>s. mac_stamp a t = Some s \<and> now - s \<le> 600)" for a
  proof -
    have "a \<in> set (map fst ?es) \<longleftrightarrow> a \<noteq> src \<and> mac_query a ?t \<noteq> None"
      using tbl.entries_query [OF inv, of a] by force
    then show ?thesis
      using tbl.query_learn [OF assms(1), of a now' src h now] tbl.stamp_query [OF assms(1), of a]
      by (auto split: option.splits)
  qed
  then have "set (map fst ?es) = {a. a \<noteq> src \<and> (\<exists>s. mac_stamp a t = Some s \<and> now - s \<le> 600)}"
    by blast
  ultimately show ?thesis by blast
qed

text \<open>C2: over any sequence of frames the bridge implements its history: a later frame to another
  host goes to the handler behind which that host last sent a frame, if it did so within the last
  600 seconds, and to nobody otherwise.\<close>

theorem bridge_delivers_to_last_port:
  assumes "\<forall>x \<in> set xs. buf_wf (frame x)" and "clock_ok s xs now"
    and "buf_wf b" and "frame_src b = Some src" and "frame_dst b = Some dst"
    and "dst \<noteq> broad_cast_address" and "dst \<noteq> src"
  shows "\<exists>t calls t'. bridge_run xs [] = Inr (t, calls) \<and> mac_inv t \<and>
    forward now now' b h t = Inr (t',
      case last_seen xs dst of
        Some (s, h') \<Rightarrow> if now - s \<le> 600 then [h'] else []
      | None \<Rightarrow> [])"
proof -
  obtain t calls where run: "bridge_run xs [] = Inr (t, calls)" "mac_inv t"
    and look: "mac_query dst (mac_check_timeout now t) =
      (case last_seen xs dst of
         Some (s, h) \<Rightarrow> if now - s \<le> mac_timeout then Some h else None
       | None \<Rightarrow> mac_query dst (mac_check_timeout now []))"
    using bridge_run_lookup [OF mac_inv_Nil assms(1,2)] by blast
  have "forward now now' b h t = Inr (mac_update now' src h (mac_check_timeout now t),
      case mac_query dst (mac_check_timeout now t) of None \<Rightarrow> [] | Some h' \<Rightarrow> [h'])"
    using assms(3-7) run(2)
    by (simp add: forward_frame Let_def tbl.query_update tbl.inv_expire split: option.split)
  with run look show ?thesis
    by (auto simp: mac_query_def mac_check_timeout_def split: option.splits)
qed

text \<open>Two hosts: a frame from \<open>02:..:01\<close> on port \<open>p\<close>, then one to it from \<open>02:..:02\<close>.\<close>

definition demo_frame :: "ethernet_address \<Rightarrow> ethernet_address \<Rightarrow> byte_buffer" where
  "demo_frame dst src = \<lparr>buf_ptr = Some (octets dst @ octets src @ [8, 0]), buf_size = 14\<rparr>"

lemma demo_frame_simps:
  "buf_wf (demo_frame dst src)"
  "frame_src (demo_frame dst src) = Some src"
  "frame_dst (demo_frame dst src) = Some dst"
  by (cases dst; cases src; simp add: demo_frame_def buf_wf_def frame_src_def frame_dst_def
      buf_bytes_def ether_dhost_def ether_shost_def)+

theorem bridge_delivers_to_last_port_witness:
  "\<exists>t calls t'. bridge_run [\<lparr>at_clean = 10, at_update = 11,
        frame = demo_frame broad_cast_address (Mac 2 0 0 0 0 1), reply = CHR ''p''\<rparr>] [] = Inr (t, calls) \<and>
    mac_inv t \<and>
    forward 600 600 (demo_frame (Mac 2 0 0 0 0 1) (Mac 2 0 0 0 0 2)) (CHR ''q'') t = Inr (t',
      case last_seen [\<lparr>at_clean = 10, at_update = 11,
        frame = demo_frame broad_cast_address (Mac 2 0 0 0 0 1), reply = CHR ''p''\<rparr>] (Mac 2 0 0 0 0 1) of
        Some (s, h') \<Rightarrow> if 600 - s \<le> 600 then [h'] else []
      | None \<Rightarrow> [])"
  by (rule bridge_delivers_to_last_port [where s = 0 and src = "Mac 2 0 0 0 0 2"])
     (simp_all add: demo_frame_simps broad_cast_address_def)

theorem forward_unicast_witness:
  "\<exists>t'. forward 600 600 (demo_frame (Mac 2 0 0 0 0 1) (Mac 2 0 0 0 0 2)) (CHR ''q'')
      (mac_update 100 (Mac 2 0 0 0 0 1) (CHR ''p'') []) = Inr (t',
    if Mac 2 0 0 0 0 1 = Mac 2 0 0 0 0 2 then [CHR ''q'']
    else case (mac_stamp (Mac 2 0 0 0 0 1) (mac_update 100 (Mac 2 0 0 0 0 1) (CHR ''p'') []),
               mac_query (Mac 2 0 0 0 0 1) (mac_update 100 (Mac 2 0 0 0 0 1) (CHR ''p'') [])) of
           (Some s, Some h') \<Rightarrow> if 600 - s \<le> 600 then [h'] else []
         | _ \<Rightarrow> [])"
  by (rule forward_unicast)
     (simp_all add: demo_frame_simps broad_cast_address_def mac_inv_update)

theorem forward_broadcast_witness:
  "\<exists>t' as. forward 600 600 (demo_frame broad_cast_address (Mac 2 0 0 0 0 2)) (CHR ''q'')
      (mac_update 100 (Mac 2 0 0 0 0 1) (CHR ''p'') []) =
      Inr (t', map (\<lambda>a. the (mac_query a (mac_update 100 (Mac 2 0 0 0 0 1) (CHR ''p'') []))) as) \<and>
    sorted as \<and> distinct as \<and>
    set as = {a. a \<noteq> Mac 2 0 0 0 0 2 \<and>
      (\<exists>s. mac_stamp a (mac_update 100 (Mac 2 0 0 0 0 1) (CHR ''p'') []) = Some s \<and> 600 - s \<le> 600)}"
  by (rule forward_broadcast)
     (simp_all add: demo_frame_simps mac_inv_update)

end
