(* ===== verification/Sock_Address.thy ===== *)
theory Sock_Address
  imports Std_Map
begin

text \<open>
  The class \<open>address\<close> of \<open>network/socket.hpp\<close>: a host and port as strings, a
  \<open>sockaddr_storage\<close> of 128 bytes and the length in use. For \<open>AF_INET\<close> the storage holds
  \<open>sin_family\<close> (2, native), \<open>sin_port\<close> (2, network order), \<open>sin_addr\<close> (4, network order) and
  8 bytes of padding. \<open>getaddrinfo\<close> is outside the repository: \<open>resolve\<close> takes its result.
\<close>

named_theorems addr_simps \<open>fields of socket addresses\<close>

abbreviation (input) STORAGE_SIZE :: nat where "STORAGE_SIZE \<equiv> 128"

abbreviation (input) SOCKADDR_IN_SIZE :: nat where "SOCKADDR_IN_SIZE \<equiv> 16"

record address =
  addr_host :: string
  addr_port :: string
  addr_storage :: block
  addr_len :: nat

definition addr_wf :: "address \<Rightarrow> bool" where
  "addr_wf a \<longleftrightarrow> length (addr_storage a) = STORAGE_SIZE \<and> addr_len a \<le> STORAGE_SIZE"

section \<open>Decimal text\<close>

text \<open>\<open>std::to_string\<close> on a non-negative integer.\<close>

fun to_string :: "nat \<Rightarrow> string" where
  "to_string n =
     (if n < 10 then [char_of (48 + n)] else to_string (n div 10) @ [char_of (48 + n mod 10)])"

declare to_string.simps [simp del]

text \<open>Reading decimal text back; used to state that \<open>to_string\<close> loses nothing.\<close>

definition digit_value :: "char \<Rightarrow> nat" where
  "digit_value c = of_char c - 48"

definition decimal_value :: "string \<Rightarrow> nat" where
  "decimal_value s = foldl (\<lambda>v c. 10 * v + digit_value c) 0 s"

lemma digit_value_char [simp]: "d < 10 \<Longrightarrow> digit_value (char_of (48 + d)) = d"
  by (simp add: digit_value_def)

lemma decimal_value_to_string: "decimal_value (to_string n) = n"
proof (induction n rule: to_string.induct)
  case (1 n)
  show ?case
  proof (cases "n < 10")
    case True
    then show ?thesis by (subst to_string.simps) (simp add: decimal_value_def)
  next
    case False
    with "1.IH" show ?thesis by (subst to_string.simps) (simp add: decimal_value_def)
  qed
qed

text \<open>\<open>inet_ntop(AF_INET, ...)\<close> on the four address bytes.\<close>

fun dotted :: "block \<Rightarrow> string" where
  "dotted (a # b # c # d # _) =
     to_string (unat a) @ ''.'' @ to_string (unat b) @ ''.'' @ to_string (unat c) @ ''.''
       @ to_string (unat d)"
| "dotted _ = []"

section \<open>Operations\<close>

definition address_default :: address where
  "address_default = \<lparr>addr_host = [], addr_port = [],
     addr_storage = replicate STORAGE_SIZE 0, addr_len = STORAGE_SIZE\<rparr>"

text \<open>\<open>address(host, port)\<close> leaves \<open>addr_\<close> and \<open>len_\<close> indeterminate.\<close>

definition address_host_port :: "(nat \<Rightarrow> u8) \<Rightarrow> nat \<Rightarrow> string \<Rightarrow> u16 \<Rightarrow> address" where
  "address_host_port g len host port = \<lparr>addr_host = host, addr_port = to_string (unat port),
     addr_storage = new_array g STORAGE_SIZE, addr_len = len\<rparr>"

text \<open>\<open>address(const sockaddr_storage *, socklen_t)\<close>.\<close>

definition address_of_storage :: "(nat \<Rightarrow> u8) \<Rightarrow> block \<Rightarrow> nat \<Rightarrow> address outcome" where
  "address_of_storage g storage len =
     and_then (mem_load storage 0 len) (\<lambda>bs.
     and_then (mem_store (new_array g STORAGE_SIZE) 0 bs) (\<lambda>m.
     Inr \<lparr>addr_host = [], addr_port = [], addr_storage = m, addr_len = len\<rparr>))"

definition address_ip :: "address \<Rightarrow> string" where
  "address_ip a = dotted (drop 4 (addr_storage a))"

definition address_port :: "address \<Rightarrow> u16" where
  "address_port a = be16_get (drop 2 (addr_storage a))"

text \<open>\<open>ipv4()\<close> returns \<open>s_addr\<close> as it lies in memory, that is in native order.\<close>

definition address_ipv4 :: "address \<Rightarrow> u32" where
  "address_ipv4 a = le32_get (drop 4 (addr_storage a))"

text \<open>\<open>resolve()\<close>: \<open>ret\<close> and \<open>info\<close> are the return value of \<open>getaddrinfo\<close> and the first
  result's \<open>ai_addr\<close>, whose length is \<open>ai_addrlen\<close>.\<close>

definition address_resolve :: "int \<Rightarrow> block \<Rightarrow> address \<Rightarrow> (address \<times> int) outcome" where
  "address_resolve ret info a =
     (if ret < 0 then Inr (a, ret)
      else and_then (mem_store (addr_storage a) 0 info) (\<lambda>m.
           Inr (a\<lparr>addr_storage := m, addr_len := length info\<rparr>, ret)))"

definition address_less :: "address \<Rightarrow> address \<Rightarrow> bool" where
  "address_less a b =
     (if addr_len a < addr_len b then True
      else if addr_len b < addr_len a then False
      else memcmp (take (addr_len a) (addr_storage a)) (take (addr_len a) (addr_storage b)) < 0)"

text \<open>The \<open>sockaddr_in\<close> of an IPv4 address and port, zero padded, as the kernel and
  \<open>getaddrinfo\<close> produce it and as \<open>udp_bridge\<close> rebuilds it.\<close>

definition sockaddr_in :: "block \<Rightarrow> block \<Rightarrow> block" where
  "sockaddr_in ip port = [2, 0] @ port @ ip @ replicate 8 0"

definition inet_address :: "block \<Rightarrow> block \<Rightarrow> address" where
  "inet_address ip port = \<lparr>addr_host = [], addr_port = [],
     addr_storage = sockaddr_in ip port @ replicate 112 0, addr_len = SOCKADDR_IN_SIZE\<rparr>"

section \<open>The order on addresses\<close>

definition addr_key :: "address \<Rightarrow> nat \<times> block" where
  "addr_key a = (addr_len a, take (addr_len a) (addr_storage a))"

definition key_less :: "nat \<times> block \<Rightarrow> nat \<times> block \<Rightarrow> bool" where
  "key_less x y \<longleftrightarrow> fst x < fst y \<or> fst x = fst y \<and> memcmp (snd x) (snd y) < 0"

lemma address_less_key: "address_less a b = key_less (addr_key a) (addr_key b)"
  by (auto simp: address_less_def key_less_def addr_key_def)

interpretation key: strict_weak_order key_less
proof unfold_locales
  fix a b c :: "nat \<times> block"
  show "\<not> key_less a a" by (simp add: key_less_def)
  show "key_less a b \<Longrightarrow> key_less b c \<Longrightarrow> key_less a c"
    unfolding key_less_def using memcmp_less_trans [of "snd a" "snd b" "snd c"] by auto
  show "key_less a c \<Longrightarrow> key_less a b \<or> key_less b c"
    unfolding key_less_def using bytes.lt_neg_trans [of "snd a" "snd c" "snd b"] by auto
qed

interpretation adr: strict_weak_order address_less
  unfolding address_less_key
  by (rule strict_weak_order_inv_image [OF key.strict_weak_order_axioms])

text \<open>Two addresses are the same key when their length and their bytes in use agree; host and
  port strings do not matter.\<close>

lemma same_key_address: "same_key address_less a b \<longleftrightarrow> addr_key a = addr_key b"
  unfolding same_key_def address_less_key key_less_def
  using memcmp_total [of "snd (addr_key a)" "snd (addr_key b)"]
  by (auto simp: prod_eq_iff)

lemma le32_get_be32_put: "be32_put (le32_get (be32_put ip @ rest)) = rev (be32_put ip)"
proof -
  have "le32_put (le32_get (be32_put ip @ rest)) = be32_put ip"
    unfolding be32_put_def le32_put_def
    by (auto intro!: bit_word_eqI simp: bit_simps)
  moreover have "be32_put w = rev (le32_put w)" for w
    by (simp add: be32_put_def le32_put_def)
  ultimately show ?thesis by simp
qed

lemma inet_address_simps [addr_simps]:
  assumes "length ip = 4" and "length port = 2"
  shows "addr_wf (inet_address ip port)"
    and "addr_key (inet_address ip port) = (16, sockaddr_in ip port)"
    and "take 4 (drop 4 (addr_storage (inet_address ip port))) = ip"
    and "take 2 (drop 2 (addr_storage (inet_address ip port))) = port"
  using assms by (simp_all add: inet_address_def sockaddr_in_def addr_wf_def addr_key_def)

section \<open>Properties\<close>

text \<open>The comparison of addresses is a strict weak order whose equivalence is equality of the
  length and the bytes in use, as a \<open>std::map\<close> keyed by addresses needs.\<close>

theorem address_less_order:
  "\<not> address_less a a \<and>
   (address_less a b \<and> address_less b c \<longrightarrow> address_less a c) \<and>
   (\<not> address_less a b \<and> \<not> address_less b a \<longleftrightarrow>
      addr_len a = addr_len b \<and>
      take (addr_len a) (addr_storage a) = take (addr_len b) (addr_storage b))"
  using adr.lt_irrefl [of a] adr.lt_trans [of a b c] same_key_address [of a b]
  by (auto simp: same_key_def addr_key_def)

theorem address_less_order_witness:
  "\<not> address_less (inet_address [10, 0, 0, 1] [0, 80]) (inet_address [10, 0, 0, 1] [0, 80]) \<and>
   address_less (inet_address [10, 0, 0, 1] [0, 80]) (inet_address [10, 0, 0, 3] [0, 80])"
proof -
  have "address_less (inet_address [10, 0, 0, 1] [0, 80]) (inet_address [10, 0, 0, 2] [0, 80])"
    "address_less (inet_address [10, 0, 0, 2] [0, 80]) (inet_address [10, 0, 0, 3] [0, 80])"
    by (simp_all add: address_less_def inet_address_def sockaddr_in_def)
  then show ?thesis
    using address_less_order [of "inet_address [10, 0, 0, 1] [0, 80]" "inet_address [10, 0, 0, 2] [0, 80]"
        "inet_address [10, 0, 0, 3] [0, 80]"] by blast
qed

text \<open>The accessors of an IPv4 address: the port comes back in host order, the text of the
  address is its four bytes in order, but the integer \<open>ipv4()\<close> has them in the reverse order of
  the network's value.\<close>

theorem inet_address_accessors:
  "address_port (inet_address (be32_put ip) (be16_put port)) = port \<and>
   address_ip (inet_address (be32_put ip) (be16_put port)) = dotted (be32_put ip) \<and>
   be32_put (address_ipv4 (inet_address (be32_put ip) (be16_put port))) = rev (be32_put ip)"
proof -
  have "dotted (be32_put ip @ rest) = dotted (be32_put ip)" for rest
    by (simp add: be32_put_def)
  then show ?thesis
    by (simp add: address_port_def address_ip_def address_ipv4_def inet_address_def sockaddr_in_def
        codec_simps be16.get_prefix le32_get_be32_put)
qed

end
