(* ===== verification/Eth_Tunnel.thy ===== *)
theory Eth_Tunnel
  imports Aes_Crypto Ether_Bridge Sock_Address
begin

text \<open>
  The datapath of the bridge: \<open>xor_mess\<close> (\<open>bridge/config.hpp\<close>), one iteration of the client's
  \<open>read_tap\<close> and \<open>read_udp\<close> loops (\<open>bridge/ether_bridge_client.cpp\<close>) and of the server's
  (\<open>bridge/ether_bridge_server.cpp\<close>). A read hands over the bytes the kernel delivered; what an
  iteration writes is a list of effects. The server's reply handler for a UDP peer is a lambda
  that captures the loop body's variable \<open>addr\<close> by reference, so the model names such a handler
  by its iteration: calling it reads \<open>addr\<close>, which exists only while that iteration runs.
\<close>

named_theorems tunnel_simps \<open>the steps of the datapath\<close>

section \<open>xor_mess\<close>

function xor_loop :: "nat \<Rightarrow> nat \<Rightarrow> block \<Rightarrow> block outcome" where
  "xor_loop i n m =
     (if i < n
      then and_then (mem_load m i 1) (\<lambda>bs.
           and_then (mem_store m i [hd bs XOR 0x0f]) (\<lambda>m. xor_loop (Suc i) n m))
      else Inr m)"
  by pat_completeness auto
termination
  by (relation "measure (\<lambda>(i, n, m). n - i)") auto

declare xor_loop.simps [simp del]

definition xor_mess :: "block \<Rightarrow> nat \<Rightarrow> block outcome" where
  "xor_mess buf n = xor_loop 0 n buf"

text \<open>The closed form of the loop.\<close>

definition xor_bytes :: "block \<Rightarrow> block" where
  "xor_bytes bs = map (\<lambda>b. b XOR 0x0f) bs"

lemma length_xor_bytes [simp]: "length (xor_bytes bs) = length bs"
  by (simp add: xor_bytes_def)

lemma xor_bytes_twice [simp]: "xor_bytes (xor_bytes bs) = bs"
  unfolding xor_bytes_def
  by (induction bs) (auto intro: bit_word_eqI simp: bit_simps)

lemma xor_loop_spec:
  "i \<le> n \<Longrightarrow> n \<le> length m \<Longrightarrow>
   xor_loop i n m = Inr (take i m @ xor_bytes (drop i (take n m)) @ drop n m)"
proof (induction i n m rule: xor_loop.induct)
  case (1 i n m)
  show ?case
  proof (cases "i < n")
    case True
    let ?m = "m[i := m ! i XOR 0x0f]"
    have i: "i < length m" using True "1.prems" by simp
    have ld: "mem_load m i 1 = Inr [m ! i]"
      using i by (simp add: mem_load_def take_Suc_conv_app_nth Cons_nth_drop_Suc [symmetric])
    have st: "mem_store m i [m ! i XOR 0x0f] = Inr ?m"
      using i by (simp add: mem_store_def upd_conv_take_nth_drop)
    have "xor_loop (Suc i) n ?m =
        Inr (take (Suc i) ?m @ xor_bytes (drop (Suc i) (take n ?m)) @ drop n ?m)"
      using "1.IH" [OF True] True "1.prems" by simp
    also have "\<dots> = Inr (take i m @ xor_bytes (drop i (take n m)) @ drop n m)"
    proof -
      have "take (Suc i) ?m = take i m @ [m ! i XOR 0x0f]"
        using i by (simp add: take_Suc_conv_app_nth take_update_cancel)
      moreover have "drop (Suc i) (take n ?m) = drop (Suc i) (take n m)"
        by (simp add: drop_take drop_update_cancel)
      moreover have "drop i (take n m) = m ! i # drop (Suc i) (take n m)"
        using True i by (simp add: Cons_nth_drop_Suc [symmetric] drop_take take_Cons')
      ultimately show ?thesis using True by (simp add: drop_update_cancel xor_bytes_def)
    qed
    finally show ?thesis using True ld st by (subst xor_loop.simps) simp
  next
    case False
    with "1.prems" show ?thesis by (subst xor_loop.simps) (simp add: xor_bytes_def)
  qed
qed

lemma xor_mess_Inr: "n \<le> length m \<Longrightarrow> xor_mess m n = Inr (xor_bytes (take n m) @ drop n m)"
  by (simp add: xor_mess_def xor_loop_spec)

lemma xor_mess_overrun: "length m < n \<Longrightarrow> xor_mess m n = Inl Undefined_Behaviour"
proof -
  have "xor_loop i n m = Inl Undefined_Behaviour" if "i \<le> length m" "length m < n" for i
    using that
  proof (induction i n m rule: xor_loop.induct)
    case (1 i n m)
    then show ?case
      by (subst xor_loop.simps)
         (auto simp: and_then_def mem_load_def mem_store_def split: sum.splits)
  qed
  then show "length m < n \<Longrightarrow> xor_mess m n = Inl Undefined_Behaviour" by (simp add: xor_mess_def)
qed

text \<open>\<open>xor_mess(buffer, buffer.size())\<close>.\<close>

definition buf_xor_mess :: "byte_buffer \<Rightarrow> byte_buffer outcome" where
  "buf_xor_mess b =
     and_then (xor_mess (buf_block b) (buf_size b)) (\<lambda>m. Inr (b\<lparr>buf_ptr := Some m\<rparr>))"

section \<open>Reads, writes and effects\<close>

abbreviation (input) BRIDGE_MTU :: nat where "BRIDGE_MTU \<equiv> 1500"

text \<open>What a completed read or receive delivered: the bytes, or an error return.\<close>

datatype io_result = Io_Data block | Io_Error

datatype effect = Tap_Write block | Send_To address block

text \<open>The bytes a write or send of \<open>buffer, buffer.size()\<close> hands to the kernel.\<close>

definition buf_output :: "byte_buffer \<Rightarrow> block outcome" where
  "buf_output b = mem_load (buf_block b) 0 (buf_size b)"

text \<open>\<open>byte_buffer buffer(bridge_mtu)\<close>, filled by the kernel with \<open>d\<close>, then \<open>buffer.resize(ret)\<close>.\<close>

definition receive_buffer :: "(nat \<Rightarrow> nat \<Rightarrow> u8) \<Rightarrow> block \<Rightarrow> byte_buffer outcome" where
  "receive_buffer g d =
     (let buffer = buf_sized (g 4) BRIDGE_MTU
      in and_then (mem_store (buf_block buffer) 0 d) (\<lambda>m.
         buf_resize (g 5) (buffer\<lparr>buf_ptr := Some m\<rparr>) (length d)))"

section \<open>The client\<close>

record client_env =
  env_addr :: address
  env_aes :: aes

definition client_read_tap ::
    "evp \<Rightarrow> (nat \<Rightarrow> nat \<Rightarrow> u8) \<Rightarrow> block option \<Rightarrow> io_result \<Rightarrow> client_env \<Rightarrow>
     (client_env \<times> effect list) outcome" where
  "client_read_tap e g rnd rd env =
     (case rd of
        Io_Error \<Rightarrow> Inl Aborted
      | Io_Data d \<Rightarrow>
          and_then (receive_buffer g d) (\<lambda>buffer.
          and_then (AES_encrypt e g rnd (env_aes env) buffer) (\<lambda>(aes, encrypt_buffer).
          and_then (buf_xor_mess encrypt_buffer) (\<lambda>encrypt_buffer.
          and_then (buf_output encrypt_buffer) (\<lambda>out.
          Inr (env\<lparr>env_aes := aes\<rparr>, [Send_To (env_addr env) out]))))))"

definition client_read_udp ::
    "evp \<Rightarrow> (nat \<Rightarrow> nat \<Rightarrow> u8) \<Rightarrow> io_result \<Rightarrow> client_env \<Rightarrow> (client_env \<times> effect list) outcome" where
  "client_read_udp e g rd env =
     (case rd of
        Io_Error \<Rightarrow> Inr (env, [])
      | Io_Data d \<Rightarrow>
          and_then (receive_buffer g d) (\<lambda>buffer.
          and_then (buf_xor_mess buffer) (\<lambda>buffer.
          and_then (AES_decrypt e g (env_aes env) buffer) (\<lambda>(aes, decrypt_buffer).
          and_then (buf_output decrypt_buffer) (\<lambda>out.
          Inr (env\<lparr>env_aes := aes\<rparr>, [Tap_Write out]))))))"

section \<open>The server\<close>

text \<open>A reply handler: the tap's lambda, or the lambda created in the \<open>k\<close>-th iteration of
  \<open>read_udp\<close>. \<open>srv_iter\<close> is the iteration that is running, \<open>srv_addr\<close> its variable \<open>addr\<close>.\<close>

datatype port = Tap_Port | Udp_Port nat

record server =
  srv_table :: "port mac_table"
  srv_aes :: aes
  srv_iter :: nat
  srv_addr :: address

definition run_handler ::
    "evp \<Rightarrow> (nat \<Rightarrow> nat \<Rightarrow> u8) \<Rightarrow> block option \<Rightarrow> byte_buffer \<Rightarrow> port \<Rightarrow> server \<Rightarrow>
     (server \<times> effect) outcome" where
  "run_handler e g rnd buffer h s =
     (case h of
        Tap_Port \<Rightarrow> and_then (buf_output buffer) (\<lambda>out. Inr (s, Tap_Write out))
      | Udp_Port k \<Rightarrow>
          if k \<noteq> srv_iter s then Inl Undefined_Behaviour
          else and_then (AES_encrypt e g rnd (srv_aes s) buffer) (\<lambda>(aes, encrypt_buffer).
               and_then (buf_xor_mess encrypt_buffer) (\<lambda>encrypt_buffer.
               and_then (buf_output encrypt_buffer) (\<lambda>out.
               Inr (s\<lparr>srv_aes := aes\<rparr>, Send_To (srv_addr s) out)))))"

text \<open>The handlers \<open>forward\<close> calls, in order; the \<open>i\<close>-th takes its randomness from \<open>rnd i\<close>.\<close>

fun run_handlers ::
    "evp \<Rightarrow> (nat \<Rightarrow> nat \<Rightarrow> u8) \<Rightarrow> (nat \<Rightarrow> block option) \<Rightarrow> nat \<Rightarrow> byte_buffer \<Rightarrow> port list \<Rightarrow> server \<Rightarrow>
     (server \<times> effect list) outcome" where
  "run_handlers e g rnd i buffer [] s = Inr (s, [])"
| "run_handlers e g rnd i buffer (h # hs) s =
     and_then (run_handler e g (rnd i) buffer h s) (\<lambda>(s, x).
     and_then (run_handlers e g rnd (Suc i) buffer hs s) (\<lambda>(s, xs). Inr (s, x # xs)))"

definition bridge_forward ::
    "evp \<Rightarrow> (nat \<Rightarrow> nat \<Rightarrow> u8) \<Rightarrow> (nat \<Rightarrow> block option) \<Rightarrow> int \<Rightarrow> int \<Rightarrow> byte_buffer \<Rightarrow> port \<Rightarrow> server \<Rightarrow>
     (server \<times> effect list) outcome" where
  "bridge_forward e g rnd now now' buffer h s =
     and_then (forward now now' buffer h (srv_table s)) (\<lambda>(table, hs).
     run_handlers e g rnd 0 buffer hs (s\<lparr>srv_table := table\<rparr>))"

definition server_read_tap ::
    "evp \<Rightarrow> (nat \<Rightarrow> nat \<Rightarrow> u8) \<Rightarrow> (nat \<Rightarrow> block option) \<Rightarrow> int \<Rightarrow> int \<Rightarrow> io_result \<Rightarrow> server \<Rightarrow>
     (server \<times> effect list) outcome" where
  "server_read_tap e g rnd now now' rd s =
     (case rd of
        Io_Error \<Rightarrow> Inl Aborted
      | Io_Data d \<Rightarrow>
          and_then (receive_buffer g d) (\<lambda>buffer.
          bridge_forward e g rnd now now' buffer Tap_Port s))"

text \<open>\<open>sender\<close> is the address \<open>recvfrom\<close> filled in. On an error the code reports it and goes on, so
  \<open>buffer.resize(ret)\<close> gets \<open>ret = -1\<close> as a \<open>size_t\<close>.\<close>

definition server_read_udp ::
    "evp \<Rightarrow> (nat \<Rightarrow> nat \<Rightarrow> u8) \<Rightarrow> (nat \<Rightarrow> block option) \<Rightarrow> int \<Rightarrow> int \<Rightarrow> address \<Rightarrow> io_result \<Rightarrow> server \<Rightarrow>
     (server \<times> effect list) outcome" where
  "server_read_udp e g rnd now now' sender rd s =
     and_then (case rd of
        Io_Error \<Rightarrow> buf_resize (g 5) (buf_sized (g 4) BRIDGE_MTU) (size_of_int (-1))
      | Io_Data d \<Rightarrow> receive_buffer g d) (\<lambda>buffer.
     and_then (buf_xor_mess buffer) (\<lambda>buffer.
     and_then (AES_decrypt e g (srv_aes s) buffer) (\<lambda>(aes, decrypt_buffer).
     and_then (bridge_forward e g rnd now now' decrypt_buffer (Udp_Port (srv_iter s))
       (s\<lparr>srv_aes := aes, srv_addr := sender\<rparr>)) (\<lambda>(s, xs).
     Inr (s\<lparr>srv_iter := Suc (srv_iter s), srv_addr := address_default\<rparr>, xs)))))"

section \<open>Lemmas\<close>

lemma receive_buffer_Inr [tunnel_simps]:
  "length d \<le> BRIDGE_MTU \<Longrightarrow> receive_buffer g d =
    Inr \<lparr>buf_ptr = Some (d @ drop (length d) (new_array (g 4) BRIDGE_MTU)), buf_size = length d\<rparr>"
  by (simp add: receive_buffer_def buf_sized_def mem_simps buf_resize_shrink)

lemma buf_xor_mess_Inr [tunnel_simps]:
  "buf_wf b \<Longrightarrow> buf_xor_mess b =
    Inr (b\<lparr>buf_ptr := Some (xor_bytes (buf_bytes b) @ drop (buf_size b) (buf_block b))\<rparr>)"
  by (simp add: buf_xor_mess_def xor_mess_Inr buf_wf_def buf_bytes_def)

lemma buf_output_Inr [tunnel_simps]: "buf_wf b \<Longrightarrow> buf_output b = Inr (buf_bytes b)"
  by (simp add: buf_output_def mem_simps buf_wf_def buf_bytes_def)

lemma buf_wf_received [simp]:
  "length d \<le> BRIDGE_MTU \<Longrightarrow> buf_wf \<lparr>buf_ptr = Some (d @ rest), buf_size = length d\<rparr>"
  "buf_bytes \<lparr>buf_ptr = Some (d @ rest), buf_size = length d\<rparr> = d"
  by (simp_all add: buf_wf_def buf_bytes_def)

lemma AES_decrypt_visible:
  assumes "buf_wf b" and "buf_wf b'" and "buf_size b = buf_size b'" and "buf_bytes b = buf_bytes b'"
  shows "AES_decrypt e g a b = AES_decrypt e g a b'"
  using assms by (simp add: AES_decrypt_def cipher_of_def buf_copy_Inr)

text \<open>What the sender puts on the wire for the frame \<open>d\<close>, and what a receiver with the same key
  makes of it.\<close>

lemma seal_and_open:
  assumes "evp_cbc_ok e" and "aes_wf a" and "aes_key b = aes_key a" and "buf_wf plain"
    and "buf_size plain < 2 ^ 31 - AES_BLOCK_SIZE" and "\<forall>r. rnd = Some r \<longrightarrow> length r = AES_BLOCK_SIZE"
  obtains a' c b' out where
    "AES_encrypt e g rnd a plain = Inr (a', c)" "buf_wf c" "aes_key a' = aes_key a"
    "aes_wf a'" "buf_bytes c = xor_bytes out"
    "length out = CIPHER_OFF + padded (buf_size plain)"
    "\<forall>h rest. \<exists>x p. buf_xor_mess \<lparr>buf_ptr = Some (out @ rest), buf_size = length out\<rparr> = Inr x
       \<and> AES_decrypt e h b x = Inr (b', p) \<and> buf_wf p \<and> buf_size p = buf_size plain
       \<and> buf_bytes p = buf_bytes plain"
    "aes_key b' = aes_key b"
proof -
  obtain iv c where enc: "AES_encrypt e g rnd a plain = Inr (a\<lparr>aes_iv := iv\<rparr>,
       \<lparr>buf_ptr = Some (envelope iv (to_u32 (buf_size plain)) c), buf_size = CIPHER_OFF + length c\<rparr>)"
    and iv: "length iv = AES_BLOCK_SIZE" and c: "length c = padded (buf_size plain)"
    and dec: "\<And>h len. AES_decrypt e h b \<lparr>buf_ptr = Some (envelope iv len c), buf_size = CIPHER_OFF + length c\<rparr> =
       Inr (b\<lparr>aes_iv := iv\<rparr>,
         \<lparr>buf_ptr = Some (buf_bytes plain @ drop (buf_size plain) (new_array (h 0) (CIPHER_OFF + length c))),
          buf_size = min (unat len) (CIPHER_OFF + length c)\<rparr>)"
    using AES_decrypt_of_encrypted [OF assms] by blast
  let ?env = "envelope iv (to_u32 (buf_size plain)) c"
  let ?c = "\<lparr>buf_ptr = Some ?env, buf_size = CIPHER_OFF + length c\<rparr>"
  have fit: "buf_size plain < padded (buf_size plain)" "padded (buf_size plain) < 2 ^ 31"
    using padded_bounds(1) padded_less [OF assms(5)] by blast+
  have bytes: "length (buf_bytes plain) = buf_size plain" using assms(4) by (simp add: buf_simps)
  have len: "length ?env = CIPHER_OFF + padded (buf_size plain)" using iv c by (simp add: cipher_simps)
  have wf: "buf_wf ?c" "buf_bytes ?c = ?env"
    using len c fit by (simp_all add: buf_wf_def buf_bytes_def)
  show thesis
  proof (rule that [OF enc wf(1), of "xor_bytes ?env" "b\<lparr>aes_iv := iv\<rparr>"])
    show "\<forall>h rest. \<exists>x p. buf_xor_mess \<lparr>buf_ptr = Some (xor_bytes ?env @ rest),
          buf_size = length (xor_bytes ?env)\<rparr> = Inr x \<and>
        AES_decrypt e h b x = Inr (b\<lparr>aes_iv := iv\<rparr>, p) \<and> buf_wf p \<and>
        buf_size p = buf_size plain \<and> buf_bytes p = buf_bytes plain"
    proof (intro allI)
    fix h rest
    let ?b = "\<lparr>buf_ptr = Some (xor_bytes ?env @ rest), buf_size = length (xor_bytes ?env)\<rparr>"
    have b: "buf_wf ?b" "buf_bytes ?b = xor_bytes ?env"
      using len fit by (simp_all add: buf_wf_def buf_bytes_def)
    let ?x = "?b\<lparr>buf_ptr := Some (?env @ rest)\<rparr>"
    have x: "buf_xor_mess ?b = Inr ?x" using buf_xor_mess_Inr [OF b(1)] b(2) by simp
    have "AES_decrypt e h b ?x = AES_decrypt e h b ?c"
      by (rule AES_decrypt_visible)
         (use wf len c fit in \<open>simp_all add: buf_wf_def buf_bytes_def\<close>)
    with x dec [of h "to_u32 (buf_size plain)"] fit bytes c
    show "\<exists>x p. buf_xor_mess ?b = Inr x \<and> AES_decrypt e h b x = Inr (b\<lparr>aes_iv := iv\<rparr>, p) \<and> buf_wf p
        \<and> buf_size p = buf_size plain \<and> buf_bytes p = buf_bytes plain"
      by (simp add: min_def buf_wf_def buf_bytes_def)
    qed
  qed (use wf len c iv assms(2) in \<open>simp_all add: aes_wf_def\<close>)
qed

lemma run_handlers_Tap:
  "buf_wf b \<Longrightarrow> run_handlers e g rnd i b [Tap_Port] s = Inr (s, [Tap_Write (buf_bytes b)])"
  by (simp add: run_handler_def tunnel_simps)

lemma envelope_fits: "CIPHER_OFF + padded n \<le> BRIDGE_MTU \<longleftrightarrow> n \<le> 1471"
  unfolding padded_def by presburger

text \<open>One frame on the client: the datagram is the masked envelope of the frame.\<close>

lemma client_read_tap_Inr:
  assumes "evp_cbc_ok e" and "aes_wf (env_aes env)" and "aes_key b = aes_key (env_aes env)"
    and "\<forall>r. rnd = Some r \<longrightarrow> length r = AES_BLOCK_SIZE" and "length d \<le> BRIDGE_MTU"
  obtains aes out b' where
    "client_read_tap e g rnd (Io_Data d) env =
      Inr (env\<lparr>env_aes := aes\<rparr>, [Send_To (env_addr env) out])"
    "length out = CIPHER_OFF + padded (length d)"
    "\<forall>h rest. \<exists>x p. buf_xor_mess \<lparr>buf_ptr = Some (out @ rest), buf_size = length out\<rparr> = Inr x
       \<and> AES_decrypt e h b x = Inr (b', p) \<and> buf_wf p \<and> buf_size p = length d \<and> buf_bytes p = d"
proof -
  let ?b = "\<lparr>buf_ptr = Some (d @ drop (length d) (new_array (g 4) BRIDGE_MTU)), buf_size = length d\<rparr>"
  have wf: "buf_wf ?b" and bytes: "buf_bytes ?b = d" using assms(5) by simp_all
  have n: "buf_size ?b < 2 ^ 31 - AES_BLOCK_SIZE" using assms(5) by simp
  have size_b: "buf_size ?b = length d" by simp
  obtain a' c b' out where enc: "AES_encrypt e g rnd (env_aes env) ?b = Inr (a', c)" "buf_wf c"
      "buf_bytes c = xor_bytes out" "length out = CIPHER_OFF + padded (buf_size ?b)"
    and dec: "\<forall>h rest. \<exists>x p. buf_xor_mess \<lparr>buf_ptr = Some (out @ rest), buf_size = length out\<rparr> = Inr x
       \<and> AES_decrypt e h b x = Inr (b', p) \<and> buf_wf p \<and> buf_size p = buf_size ?b \<and> buf_bytes p = buf_bytes ?b"
    by (rule seal_and_open [OF assms(1-3) wf n assms(4), of g]) blast
  note enc = enc [unfolded size_b] and dec = dec [unfolded size_b bytes]
  let ?x = "c\<lparr>buf_ptr := Some (out @ drop (buf_size c) (buf_block c))\<rparr>"
  have size: "buf_size c = length out" using enc(2,3) by (metis buf_bytes_length length_xor_bytes)
  then have "buf_wf ?x" "buf_bytes ?x = out"
    using enc(2) by (simp_all add: buf_wf_def buf_bytes_def)
  then have "client_read_tap e g rnd (Io_Data d) env =
      Inr (env\<lparr>env_aes := a'\<rparr>, [Send_To (env_addr env) out])"
    using enc assms(5) by (simp add: client_read_tap_def tunnel_simps)
  from that [OF this enc(4) dec] show thesis .
qed

text \<open>The server's states: any sequence of completed iterations of its two loops.\<close>

inductive server_run :: "evp \<Rightarrow> server \<Rightarrow> bool" for e where
  server_start: "server_run e \<lparr>srv_table = [], srv_aes = a, srv_iter = 0, srv_addr = address_default\<rparr>"
| server_tap: "server_run e s \<Longrightarrow> server_read_tap e g rnd now now' rd s = Inr (s', xs) \<Longrightarrow> server_run e s'"
| server_udp: "server_run e s \<Longrightarrow> server_read_udp e g rnd now now' sender rd s = Inr (s', xs) \<Longrightarrow>
    server_run e s'"

text \<open>Every UDP handler in the table belongs to an iteration that has ended.\<close>

definition server_inv :: "server \<Rightarrow> bool" where
  "server_inv s \<longleftrightarrow> mac_inv (srv_table s) \<and>
     (\<forall>a k. mac_query a (srv_table s) = Some (Udp_Port k) \<longrightarrow> k < srv_iter s)"

lemma run_handlers_frame:
  "run_handlers e g rnd i b hs s = Inr (s', xs) \<Longrightarrow>
   srv_table s' = srv_table s \<and> srv_iter s' = srv_iter s"
proof (induction hs arbitrary: i s xs)
  case (Cons h hs)
  then show ?case
    by (cases h) (fastforce simp: and_then_Inr_iff run_handler_def split: if_splits)+
qed simp

lemma bridge_forward_inv:
  assumes "server_inv s" and "bridge_forward e g rnd now now' b h s = Inr (s', xs)"
    and "h = Tap_Port \<or> h = Udp_Port (srv_iter s)"
  shows "mac_inv (srv_table s')" and "srv_iter s' = srv_iter s"
    and "\<forall>a k. mac_query a (srv_table s') = Some (Udp_Port k) \<longrightarrow>
      k < srv_iter s \<or> h = Udp_Port k"
proof -
  have inv: "mac_inv (srv_table s)" using assms(1) by (simp add: server_inv_def)
  obtain t hs where fwd: "forward now now' b h (srv_table s) = Inr (t, hs)"
    and run: "srv_table s' = t" "srv_iter s' = srv_iter s"
    using assms(2) run_handlers_frame by (fastforce simp: bridge_forward_def and_then_Inr_iff)
  show "srv_iter s' = srv_iter s" by (rule run)
  show "mac_inv (srv_table s')"
    using fwd run(1) inv by (auto elim!: forward_Inr_table simp: tbl.inv_expire tbl.inv_learn)
  have "mac_query a t = Some p \<Longrightarrow> p = h \<or> mac_query a (srv_table s) = Some p" for a p
    using fwd inv
    by (auto elim!: forward_Inr_table simp: tbl.query_expire tbl.query_learn split: option.splits if_splits)
  then show "\<forall>a k. mac_query a (srv_table s') = Some (Udp_Port k) \<longrightarrow> k < srv_iter s \<or> h = Udp_Port k"
    using assms(1) run(1) by (fastforce simp: server_inv_def)
qed

lemma server_run_inv: "server_run e s \<Longrightarrow> server_inv s"
proof (induction rule: server_run.induct)
  case (server_start a)
  show ?case by (simp add: server_inv_def mac_query_def)
next
  case (server_tap s g rnd now now' rd s' xs)
  then obtain b where b: "bridge_forward e g rnd now now' b Tap_Port s = Inr (s', xs)"
    by (auto simp: server_read_tap_def and_then_Inr_iff split: io_result.splits)
  show ?case
    using bridge_forward_inv [OF server_tap.IH b] by (auto simp: server_inv_def)
next
  case (server_udp s g rnd now now' sender rd s' xs)
  then obtain b aes s1 where
    b: "bridge_forward e g rnd now now' b (Udp_Port (srv_iter s))
      (s\<lparr>srv_aes := aes, srv_addr := sender\<rparr>) = Inr (s1, xs)"
    and s': "s' = s1\<lparr>srv_iter := Suc (srv_iter s1), srv_addr := address_default\<rparr>"
    by (auto simp: server_read_udp_def and_then_Inr_iff)
  have "server_inv (s\<lparr>srv_aes := aes, srv_addr := sender\<rparr>)"
    using server_udp.IH by (simp add: server_inv_def)
  from bridge_forward_inv [OF this b] s' show ?case by (auto simp: server_inv_def less_Suc_eq)
qed

text \<open>A frame one side sealed, as the server opens it.\<close>

lemma server_receives_frame:
  assumes "evp_cbc_ok e" and "aes_wf (env_aes env)" and "aes_key (srv_aes s) = aes_key (env_aes env)"
    and "\<forall>r. rnd = Some r \<longrightarrow> length r = AES_BLOCK_SIZE"
    and "ETHER_HEADER \<le> length d" and "length d \<le> 1471"
  obtains aes out b' p where
    "client_read_tap e g rnd (Io_Data d) env =
      Inr (env\<lparr>env_aes := aes\<rparr>, [Send_To (env_addr env) out])"
    "length out \<le> BRIDGE_MTU"
    "server_read_udp e h rs now now' sender (Io_Data out) s =
      and_then (bridge_forward e h rs now now' p (Udp_Port (srv_iter s))
         (s\<lparr>srv_aes := b', srv_addr := sender\<rparr>))
       (\<lambda>(s, xs). Inr (s\<lparr>srv_iter := Suc (srv_iter s), srv_addr := address_default\<rparr>, xs))"
    "buf_wf p" "buf_bytes p = d" "frame_src p = Some (ether_shost d)" "frame_dst p = Some (ether_dhost d)"
proof -
  have mtu: "length d \<le> BRIDGE_MTU" using assms(6) by simp
  obtain aes out b' where
    sent: "client_read_tap e g rnd (Io_Data d) env =
      Inr (env\<lparr>env_aes := aes\<rparr>, [Send_To (env_addr env) out])"
    and out: "length out = CIPHER_OFF + padded (length d)"
    and recv: "\<forall>h rest. \<exists>x p. buf_xor_mess \<lparr>buf_ptr = Some (out @ rest), buf_size = length out\<rparr> = Inr x
       \<and> AES_decrypt e h (srv_aes s) x = Inr (b', p) \<and> buf_wf p \<and> buf_size p = length d \<and> buf_bytes p = d"
    using client_read_tap_Inr [OF assms(1-4) mtu] by metis
  have fit: "length out \<le> BRIDGE_MTU" using out assms(6) envelope_fits by simp
  obtain x p where p: "buf_xor_mess \<lparr>buf_ptr = Some (out @ drop (length out) (new_array (h 4) BRIDGE_MTU)),
      buf_size = length out\<rparr> = Inr x" "AES_decrypt e h (srv_aes s) x = Inr (b', p)" "buf_wf p"
      "buf_size p = length d" "buf_bytes p = d"
    using recv by metis
  have "server_read_udp e h rs now now' sender (Io_Data out) s =
      and_then (bridge_forward e h rs now now' p (Udp_Port (srv_iter s))
         (s\<lparr>srv_aes := b', srv_addr := sender\<rparr>))
       (\<lambda>(s, xs). Inr (s\<lparr>srv_iter := Suc (srv_iter s), srv_addr := address_default\<rparr>, xs))"
    using p(1,2) fit by (simp add: server_read_udp_def tunnel_simps)
  moreover have "frame_src p = Some (ether_shost d)" "frame_dst p = Some (ether_dhost d)"
    using p(4,5) assms(5) by (simp_all add: frame_src_def frame_dst_def)
  ultimately show thesis by (rule that [OF sent fit _ p(3,5)])
qed

text \<open>A frame for a station the server has seen on its tap.\<close>

lemma frame_carried:
  assumes "evp_cbc_ok e" and "aes_wf (env_aes env)" and "aes_key (srv_aes s) = aes_key (env_aes env)"
    and "\<forall>r. rnd = Some r \<longrightarrow> length r = AES_BLOCK_SIZE"
    and "ETHER_HEADER \<le> length d" and "length d \<le> 1471"
    and "mac_inv (srv_table s)" and "ether_dhost d \<noteq> broad_cast_address"
    and "ether_dhost d \<noteq> ether_shost d"
    and "mac_query (ether_dhost d) (srv_table s) = Some Tap_Port"
    and "mac_stamp (ether_dhost d) (srv_table s) = Some t" and "now - t \<le> 600"
  shows "\<exists>env' out s'.
    client_read_tap e g rnd (Io_Data d) env = Inr (env', [Send_To (env_addr env) out]) \<and>
    length out \<le> BRIDGE_MTU \<and>
    server_read_udp e h rs now now' sender (Io_Data out) s = Inr (s', [Tap_Write d]) \<and>
    mac_query (ether_shost d) (srv_table s') = Some (Udp_Port (srv_iter s))"
proof -
  obtain aes out b' p where
    sent: "client_read_tap e g rnd (Io_Data d) env =
      Inr (env\<lparr>env_aes := aes\<rparr>, [Send_To (env_addr env) out])" "length out \<le> BRIDGE_MTU"
    and recv: "server_read_udp e h rs now now' sender (Io_Data out) s =
      and_then (bridge_forward e h rs now now' p (Udp_Port (srv_iter s))
         (s\<lparr>srv_aes := b', srv_addr := sender\<rparr>))
       (\<lambda>(s, xs). Inr (s\<lparr>srv_iter := Suc (srv_iter s), srv_addr := address_default\<rparr>, xs))"
    and p: "buf_wf p" "buf_bytes p = d" "frame_src p = Some (ether_shost d)"
      "frame_dst p = Some (ether_dhost d)"
    by (rule server_receives_frame [OF assms(1-6), of g h rs now now' sender])
  let ?t = "mac_update now' (ether_shost d) (Udp_Port (srv_iter s)) (mac_check_timeout now (srv_table s))"
  have "forward now now' p (Udp_Port (srv_iter s)) (srv_table s) = Inr (?t, [Tap_Port])"
    using assms(7-12) p by (simp add: forward_frame Let_def tbl.query_learn)
  with recv p have "server_read_udp e h rs now now' sender (Io_Data out) s =
      Inr (s\<lparr>srv_table := ?t, srv_aes := b', srv_iter := Suc (srv_iter s), srv_addr := address_default\<rparr>,
        [Tap_Write d])"
    by (simp add: bridge_forward_def run_handler_def tunnel_simps)
  then show ?thesis
    using sent assms(7) by (simp add: tbl.query_learn)
qed

section \<open>Properties\<close>

text \<open>Masking a buffer in place touches its visible bytes only and twice is the identity; a
  length beyond the block is an overrun.\<close>

theorem xor_mess_involution:
  "if n \<le> length m
   then \<exists>m'. xor_mess m n = Inr m' \<and> length m' = length m \<and> drop n m' = drop n m \<and> xor_mess m' n = Inr m
   else xor_mess m n = Inl Undefined_Behaviour"
  by (simp add: xor_mess_Inr xor_mess_overrun)

text \<open>C1: the tunnel carries a frame: what the client reads from its tap it sends as one datagram,
  and the server, receiving it, writes exactly that frame to its own tap when the destination was
  last seen there within 600 seconds, and learns the sender's source address.\<close>

theorem tunnel_carries_frame:
  assumes "evp_cbc_ok e" and "aes_wf (env_aes env)" and "aes_key (srv_aes s) = aes_key (env_aes env)"
    and "\<forall>r. rnd = Some r \<longrightarrow> length r = AES_BLOCK_SIZE"
    and "ETHER_HEADER \<le> length d" and "length d \<le> 1471"
    and "mac_inv (srv_table s)" and "ether_dhost d \<noteq> broad_cast_address"
    and "ether_dhost d \<noteq> ether_shost d"
    and "mac_query (ether_dhost d) (srv_table s) = Some Tap_Port"
    and "mac_stamp (ether_dhost d) (srv_table s) = Some t" and "now - t \<le> 600"
  shows "\<exists>env' out s'.
    client_read_tap e g rnd (Io_Data d) env = Inr (env', [Send_To (env_addr env) out]) \<and>
    length out \<le> BRIDGE_MTU \<and>
    server_read_udp e h rs now now' sender (Io_Data out) s = Inr (s', [Tap_Write d]) \<and>
    mac_query (ether_shost d) (srv_table s') = Some (Udp_Port (srv_iter s))"
  using assms by (rule frame_carried)

definition demo_bytes :: block where
  "demo_bytes = octets (Mac 2 0 0 0 0 1) @ octets (Mac 2 0 0 0 0 2) @ [8, 0]"

lemma demo_bytes_simps:
  "ether_dhost demo_bytes = Mac 2 0 0 0 0 1"
  "ether_shost demo_bytes = Mac 2 0 0 0 0 2"
  "length demo_bytes = 14"
  by (simp_all add: demo_bytes_def ether_dhost_def ether_shost_def)

definition demo_aes :: aes where
  "demo_aes = \<lparr>aes_key = AES_key [107, 101, 121], aes_iv = replicate 16 0\<rparr>"

lemma demo_aes_wf: "aes_wf demo_aes"
  by (simp add: demo_aes_def aes_wf_def AES_key_def key_fill_append)

definition demo_env :: client_env where
  "demo_env = \<lparr>env_addr = inet_address [192, 0, 2, 1] [11, 184], env_aes = demo_aes\<rparr>"

definition demo_server :: "port mac_table \<Rightarrow> server" where
  "demo_server t = \<lparr>srv_table = t, srv_aes = demo_aes, srv_iter = 0, srv_addr = address_default\<rparr>"

theorem tunnel_carries_frame_witness:
  "\<exists>env' out s'.
    client_read_tap pad_evp (\<lambda>_ _. 1) None (Io_Data demo_bytes) demo_env =
      Inr (env', [Send_To (env_addr demo_env) out]) \<and>
    length out \<le> BRIDGE_MTU \<and>
    server_read_udp pad_evp (\<lambda>_ _. 2) (\<lambda>_. None) 500 500 address_default (Io_Data out)
      (demo_server (mac_update 100 (Mac 2 0 0 0 0 1) Tap_Port [])) = Inr (s', [Tap_Write demo_bytes]) \<and>
    mac_query (ether_shost demo_bytes) (srv_table s') =
      Some (Udp_Port (srv_iter (demo_server (mac_update 100 (Mac 2 0 0 0 0 1) Tap_Port []))))"
  by (rule tunnel_carries_frame [where t = 100])
     (simp_all add: evp_cbc_ok_pad_evp demo_aes_wf demo_env_def demo_server_def demo_bytes_simps
        mac_inv_update broad_cast_address_def tbl.query_update tbl.stamp_update)

text \<open>The datagram of an \<open>n\<close>-byte frame has \<open>20 + 16 * (n div 16 + 1)\<close> bytes, so it fits the
  1500-byte receive buffers exactly for frames of at most 1471 bytes; longer frames are sent
  although the peer's buffer cannot hold them.\<close>

theorem client_datagram_size:
  assumes "evp_cbc_ok e" and "aes_wf (env_aes env)"
    and "\<forall>r. rnd = Some r \<longrightarrow> length r = AES_BLOCK_SIZE" and "length d \<le> BRIDGE_MTU"
  shows "\<exists>env' out. client_read_tap e g rnd (Io_Data d) env = Inr (env', [Send_To (env_addr env) out]) \<and>
    length out = CIPHER_OFF + padded (length d) \<and> (length out \<le> BRIDGE_MTU \<longleftrightarrow> length d \<le> 1471)"
proof -
  obtain aes out where "client_read_tap e g rnd (Io_Data d) env =
      Inr (env\<lparr>env_aes := aes\<rparr>, [Send_To (env_addr env) out])"
    "length out = CIPHER_OFF + padded (length d)"
    using client_read_tap_Inr [OF assms(1,2) refl assms(3,4)] by metis
  then show ?thesis using envelope_fits by auto
qed

theorem client_datagram_size_witness:
  "\<exists>env' out. client_read_tap pad_evp (\<lambda>_ _. 1) None (Io_Data (replicate 1500 0)) demo_env =
      Inr (env', [Send_To (env_addr demo_env) out]) \<and>
    length out = CIPHER_OFF + padded (length (replicate 1500 (0::u8))) \<and>
    (length out \<le> BRIDGE_MTU \<longleftrightarrow> length (replicate 1500 (0::u8)) \<le> 1471)"
  by (rule client_datagram_size) (simp_all add: evp_cbc_ok_pad_evp demo_aes_wf demo_env_def)

text \<open>C37: a failed receive on the server is not skipped: the buffer is resized to \<open>-1\<close> as a
  \<open>size_t\<close> and unmasking it overruns its block. The client skips it.\<close>

theorem server_receive_error_undefined:
  "server_read_udp e g rnd now now' sender Io_Error s = Inl Undefined_Behaviour \<and>
   client_read_udp e g Io_Error env = Inr (env, [])"
proof -
  have "buf_wf (buf_sized (g 4) BRIDGE_MTU)" by (simp add: buf_simps)
  then have "buf_resize (g 5) (buf_sized (g 4) BRIDGE_MTU) (size_of_int (-1)) =
    Inr \<lparr>buf_ptr = Some (buf_bytes (buf_sized (g 4) BRIDGE_MTU) @
        drop BRIDGE_MTU (new_array (g 5) 3000)), buf_size = size_of_int (-1)\<rparr>"
    using buf_resize_grow [of "buf_sized (g 4) BRIDGE_MTU" "size_of_int (-1)" "g 5"]
    by (simp add: buf_simps size_of_int_def)
  then show ?thesis
    by (simp add: server_read_udp_def client_read_udp_def buf_xor_mess_def xor_mess_overrun
        buf_bytes_def buf_simps size_of_int_def)
qed

text \<open>C33: a handler learned by an earlier \<open>read_udp\<close> iteration outlives the variable \<open>addr\<close> it
  refers to: in every state the server can be in, a frame read from its tap for a host behind a
  UDP peer ends in undefined behaviour, not in a datagram to that peer.\<close>

theorem server_tap_to_udp_undefined:
  assumes "server_run e s" and "ETHER_HEADER \<le> length d" and "length d \<le> BRIDGE_MTU"
    and "ether_dhost d \<noteq> broad_cast_address" and "ether_dhost d \<noteq> ether_shost d"
    and "mac_query (ether_dhost d) (srv_table s) = Some (Udp_Port k)"
    and "mac_stamp (ether_dhost d) (srv_table s) = Some t" and "now - t \<le> 600"
  shows "server_read_tap e g rnd now now' (Io_Data d) s = Inl Undefined_Behaviour"
proof -
  have inv: "mac_inv (srv_table s)" and k: "k \<noteq> srv_iter s"
    using server_run_inv [OF assms(1)] assms(6) by (auto simp: server_inv_def)
  let ?b = "\<lparr>buf_ptr = Some (d @ drop (length d) (new_array (g 4) BRIDGE_MTU)), buf_size = length d\<rparr>"
  have hosts: "frame_src ?b = Some (ether_shost d)" "frame_dst ?b = Some (ether_dhost d)"
    using assms(2) by (simp_all add: frame_src_def frame_dst_def)
  have "\<exists>t'. forward now now' ?b Tap_Port (srv_table s) = Inr (t', [Udp_Port k])"
    using inv hosts assms(3-8) by (simp add: forward_frame Let_def tbl.query_learn)
  with k assms(3) show ?thesis
    by (auto simp: server_read_tap_def tunnel_simps bridge_forward_def run_handler_def)
qed

text \<open>A server that has learned one host behind a UDP peer.\<close>

lemma demo_server_learns:
  obtains s where "server_run pad_evp s" "mac_inv (srv_table s)"
    "mac_query (Mac 2 0 0 0 0 2) (srv_table s) = Some (Udp_Port 0)"
    "mac_stamp (Mac 2 0 0 0 0 2) (srv_table s) = Some 100"
proof -
  let ?s = "demo_server []"
  have run: "server_run pad_evp ?s" unfolding demo_server_def by (rule server_start)
  obtain aes out b' p where
    "client_read_tap pad_evp (\<lambda>_ _. 1) None (Io_Data demo_bytes) demo_env =
      Inr (demo_env\<lparr>env_aes := aes\<rparr>, [Send_To (env_addr demo_env) out])"
    and recv: "server_read_udp pad_evp (\<lambda>_ _. 2) (\<lambda>_. None) 100 100 address_default (Io_Data out) ?s =
      and_then (bridge_forward pad_evp (\<lambda>_ _. 2) (\<lambda>_. None) 100 100 p (Udp_Port (srv_iter ?s))
         (?s\<lparr>srv_aes := b', srv_addr := address_default\<rparr>))
       (\<lambda>(s, xs). Inr (s\<lparr>srv_iter := Suc (srv_iter s), srv_addr := address_default\<rparr>, xs))"
    and p: "buf_wf p" "frame_src p = Some (Mac 2 0 0 0 0 2)" "frame_dst p = Some (Mac 2 0 0 0 0 1)"
    by (rule server_receives_frame [of pad_evp demo_env ?s None demo_bytes])
       (simp_all add: evp_cbc_ok_pad_evp demo_aes_wf demo_env_def demo_server_def demo_bytes_simps)
  let ?t = "mac_update 100 (Mac 2 0 0 0 0 2) (Udp_Port 0) (mac_check_timeout 100 [])"
  have "forward 100 100 p (Udp_Port 0) [] = Inr (?t, [])"
    using p by (simp add: forward_frame Let_def broad_cast_address_def mac_check_timeout_def
        mac_update_def mac_query_def)
  with recv have "server_read_udp pad_evp (\<lambda>_ _. 2) (\<lambda>_. None) 100 100 address_default (Io_Data out) ?s =
      Inr (?s\<lparr>srv_table := ?t, srv_aes := b', srv_iter := 1, srv_addr := address_default\<rparr>, [])"
    by (simp add: bridge_forward_def demo_server_def)
  from that [OF server_udp [OF run this]] show thesis
    by (simp add: tbl.query_learn tbl.stamp_learn tbl.inv_learn)
qed

theorem server_tap_to_udp_undefined_witness:
  "\<exists>s. server_run pad_evp s \<and>
    server_read_tap pad_evp (\<lambda>_ _. 3) (\<lambda>_. None) 200 200
      (Io_Data (octets (Mac 2 0 0 0 0 2) @ octets (Mac 2 0 0 0 0 1) @ [8, 0])) s =
    Inl Undefined_Behaviour"
proof -
  obtain s where s: "server_run pad_evp s" "mac_inv (srv_table s)"
    "mac_query (Mac 2 0 0 0 0 2) (srv_table s) = Some (Udp_Port 0)"
    "mac_stamp (Mac 2 0 0 0 0 2) (srv_table s) = Some 100"
    by (rule demo_server_learns)
  have "server_read_tap pad_evp (\<lambda>_ _. 3) (\<lambda>_. None) 200 200
      (Io_Data (octets (Mac 2 0 0 0 0 2) @ octets (Mac 2 0 0 0 0 1) @ [8, 0])) s =
    Inl Undefined_Behaviour"
    by (rule server_tap_to_udp_undefined [OF s(1), where k = 0 and t = 100])
       (simp_all add: s ether_dhost_def ether_shost_def broad_cast_address_def)
  with s(1) show ?thesis by blast
qed

end
