(* ===== verification/Tunnel_Session.thy ===== *)
theory Tunnel_Session
  imports Eth_Tunnel
begin

text \<open>
  Whole sessions of the tunnel: any number of iterations of the client's loops at one end and of the
  server's at the other, with any datagrams, frames and random numbers. No step changes a key or the
  size of a field, so after every history both ends still understand each other; and what the server's tap
  has taught the bridge holds while other traffic goes on.
\<close>

definition rnd_ok :: "block option \<Rightarrow> bool" where
  "rnd_ok rnd \<longleftrightarrow> pred_option (\<lambda>r. length r = AES_BLOCK_SIZE) rnd"

inductive client_session :: "evp \<Rightarrow> client_env \<Rightarrow> client_env \<Rightarrow> bool" for e env0 where
  client_start: "client_session e env0 env0"
| client_tap: "client_session e env0 env \<Longrightarrow> rnd_ok rnd \<Longrightarrow> client_read_tap e g rnd rd env = Inr (env', xs) \<Longrightarrow>
    client_session e env0 env'"
| client_udp: "client_session e env0 env \<Longrightarrow> client_read_udp e g rd env = Inr (env', xs) \<Longrightarrow>
    client_session e env0 env'"

inductive server_session :: "evp \<Rightarrow> server \<Rightarrow> server \<Rightarrow> bool" for e s0 where
  session_start: "server_session e s0 s0"
| session_tap: "server_session e s0 s \<Longrightarrow> (\<And>i. rnd_ok (rnd i)) \<Longrightarrow>
    server_read_tap e g rnd now now' rd s = Inr (s', xs) \<Longrightarrow> server_session e s0 s'"
| session_udp: "server_session e s0 s \<Longrightarrow> (\<And>i. rnd_ok (rnd i)) \<Longrightarrow>
    server_read_udp e g rnd now now' sender rd s = Inr (s', xs) \<Longrightarrow> server_session e s0 s'"

section \<open>Keys and field sizes under each step\<close>

definition aes_same :: "aes \<Rightarrow> aes \<Rightarrow> bool" where
  "aes_same a a' \<longleftrightarrow> aes_key a' = aes_key a \<and> (aes_wf a \<longrightarrow> aes_wf a')"

lemma aes_same_refl [simp, intro]: "aes_same a a"
  by (simp add: aes_same_def)

lemma aes_same_trans: "aes_same a b \<Longrightarrow> aes_same b c \<Longrightarrow> aes_same a c"
  by (simp add: aes_same_def)

lemma encrypt_same: "rnd_ok rnd \<Longrightarrow> AES_encrypt e g rnd a p = Inr (a', c) \<Longrightarrow> aes_same a a'"
  by (auto simp: AES_encrypt_def Let_def and_then_Inr_iff aes_same_def aes_wf_def rnd_ok_def split: option.splits)

lemma decrypt_same: "AES_decrypt e g a c = Inr (a', p) \<Longrightarrow> aes_same a a'"
  by (auto simp: AES_decrypt_def Let_def and_then_Inr_iff aes_same_def aes_wf_def cipher_iv_def
      dest: mem_load_length)

lemma run_handlers_same:
  assumes "\<And>i. rnd_ok (rnd i)"
  shows "run_handlers e g rnd i b hs s = Inr (s', xs) \<Longrightarrow> aes_same (srv_aes s) (srv_aes s')"
proof (induction hs arbitrary: i s xs)
  case (Cons h hs)
  from Cons.prems obtain s1 x ys where h: "run_handler e g (rnd i) b h s = Inr (s1, x)"
    and hs: "run_handlers e g rnd (Suc i) b hs s1 = Inr (s', ys)"
    by (auto simp: and_then_Inr_iff)
  from h have "aes_same (srv_aes s) (srv_aes s1)"
    by (cases h) (auto simp: run_handler_def and_then_Inr_iff split: if_splits port.splits dest: encrypt_same [OF assms])
  with Cons.IH [OF hs] show ?case by (rule aes_same_trans [rotated])
qed simp

lemma bridge_same:
  assumes "\<And>i. rnd_ok (rnd i)" "bridge_forward e g rnd now now' b h s = Inr (s', xs)"
  shows "aes_same (srv_aes s) (srv_aes s')"
  using assms(2) run_handlers_same [OF assms(1)] by (fastforce simp: bridge_forward_def and_then_Inr_iff)

lemma client_session_same:
  "client_session e env0 env \<Longrightarrow> aes_same (env_aes env0) (env_aes env) \<and> env_addr env = env_addr env0"
proof (induction rule: client_session.induct)
  case (client_tap env rnd g rd env' xs)
  then show ?case
    by (auto simp: client_read_tap_def and_then_Inr_iff split: io_result.splits
        dest!: encrypt_same elim: aes_same_trans)
next
  case (client_udp env g rd env' xs)
  then show ?case
    by (auto simp: client_read_udp_def and_then_Inr_iff split: io_result.splits
        dest!: decrypt_same elim: aes_same_trans)
qed simp

lemma server_session_same: "server_session e s0 s \<Longrightarrow> aes_same (srv_aes s0) (srv_aes s)"
proof (induction rule: server_session.induct)
  case (session_tap s rnd g now now' rd s' xs)
  then have "aes_same (srv_aes s) (srv_aes s')"
    by (auto simp: server_read_tap_def and_then_Inr_iff split: io_result.splits dest!: bridge_same [rotated])
  with session_tap.IH show ?case by (rule aes_same_trans)
next
  case (session_udp s rnd g now now' sender rd s' xs)
  from session_udp.hyps(3) obtain aes b b' s1 where d: "AES_decrypt e g (srv_aes s) b = Inr (aes, b')"
    and f: "bridge_forward e g rnd now now' b' (Udp_Port (srv_iter s)) (s\<lparr>srv_aes := aes, srv_addr := sender\<rparr>) = Inr (s1, xs)"
    and s': "s' = s1\<lparr>srv_iter := Suc (srv_iter s1), srv_addr := address_default\<rparr>"
    by (auto simp: server_read_udp_def and_then_Inr_iff)
  have "aes_same (srv_aes s) aes" "aes_same aes (srv_aes s')"
    using decrypt_same [OF d] bridge_same [OF session_udp.hyps(2) f] s' by simp_all
  with session_udp.IH show ?case by (blast intro: aes_same_trans)
qed simp

definition server_initial :: "aes \<Rightarrow> server" where
  "server_initial a = \<lparr>srv_table = [], srv_aes = a, srv_iter = 0, srv_addr = address_default\<rparr>"

lemma server_session_run: "server_session e (server_initial a) s \<Longrightarrow> server_run e s"
proof (induction rule: server_session.induct)
  case session_start
  show ?case unfolding server_initial_def by (rule server_run.server_start)
qed (auto intro: server_run.intros)

text \<open>A frame read from the server's tap teaches it the sender.\<close>

lemma server_tap_learns:
  assumes "server_read_tap e g rnd now now' (Io_Data d) s = Inr (s', xs)" "mac_inv (srv_table s)"
    and "ETHER_HEADER \<le> length d" "length d \<le> BRIDGE_MTU"
  shows "mac_query (ether_shost d) (srv_table s') = Some Tap_Port"
    "mac_stamp (ether_shost d) (srv_table s') = Some now'"
proof -
  define b where "b = \<lparr>buf_ptr = Some (d @ drop (length d) (new_array (g 4) BRIDGE_MTU)), buf_size = length d\<rparr>"
  have b: "buf_wf b" "frame_src b = Some (ether_shost d)" "frame_dst b = Some (ether_dhost d)"
    using assms(3,4) by (simp_all add: b_def buf_wf_def frame_src_def frame_dst_def buf_bytes_def)
  have "bridge_forward e g rnd now now' b Tap_Port s = Inr (s', xs)"
    using assms(1,4) by (simp add: server_read_tap_def tunnel_simps b_def)
  then obtain hs t where "forward now now' b Tap_Port (srv_table s) = Inr (t, hs)" "srv_table s' = t"
    using run_handlers_frame by (fastforce simp: bridge_forward_def and_then_Inr_iff)
  with b have "srv_table s' = mac_update now' (ether_shost d) Tap_Port (mac_check_timeout now (srv_table s))"
    by (simp add: forward_frame Let_def)
  then show "mac_query (ether_shost d) (srv_table s') = Some Tap_Port"
    "mac_stamp (ether_shost d) (srv_table s') = Some now'"
    using assms(2) by (simp_all add: tbl.query_learn tbl.stamp_learn)
qed

section \<open>Traffic while a station is known\<close>

text \<open>What the server makes of a datagram before it hands it to the bridge.\<close>

definition opened :: "evp \<Rightarrow> (nat \<Rightarrow> nat \<Rightarrow> u8) \<Rightarrow> block \<Rightarrow> server \<Rightarrow> byte_buffer outcome" where
  "opened e g d s =
     and_then (receive_buffer g d) (\<lambda>buffer.
     and_then (buf_xor_mess buffer) (\<lambda>buffer.
     and_then (AES_decrypt e g (srv_aes s) buffer) (\<lambda>(aes, plain). Inr plain)))"

text \<open>The station \<open>a\<close> was heard on the tap at \<open>t\<close>. Any traffic goes on for up to 600 seconds: frames from the
  tap, from \<open>a\<close> again or from others, and datagrams of any senders, except that no datagram carries a frame
  that claims to come from \<open>a\<close>; such a frame would move \<open>a\<close> to the datagram's port.\<close>

inductive heard_session :: "evp \<Rightarrow> ethernet_address \<Rightarrow> int \<Rightarrow> server \<Rightarrow> server \<Rightarrow> bool" for e a t s0 where
  heard_start: "heard_session e a t s0 s0"
| heard_tap: "heard_session e a t s0 s \<Longrightarrow> (\<And>i. rnd_ok (rnd i)) \<Longrightarrow> now \<le> t + 600 \<Longrightarrow> t \<le> now' \<Longrightarrow>
    server_read_tap e g rnd now now' rd s = Inr (s', xs) \<Longrightarrow> heard_session e a t s0 s'"
| heard_udp: "heard_session e a t s0 s \<Longrightarrow> (\<And>i. rnd_ok (rnd i)) \<Longrightarrow> now \<le> t + 600 \<Longrightarrow>
    opened e g d s = Inr plain \<Longrightarrow> frame_src plain \<noteq> Some a \<Longrightarrow>
    server_read_udp e g rnd now now' sender (Io_Data d) s = Inr (s', xs) \<Longrightarrow> heard_session e a t s0 s'"

lemma forward_learns:
  assumes "forward now now' b h t = Inr (t', calls)"
  shows "t' = (case frame_src b of None \<Rightarrow> mac_check_timeout now t
       | Some src \<Rightarrow> mac_update now' src h (mac_check_timeout now t))"
proof (cases "frame_src b")
  case None
  with assms show ?thesis by (simp add: forward_short)
next
  case (Some src)
  then have n: "ETHER_HEADER \<le> buf_size b" "src = ether_shost (buf_block b)"
    by (simp_all add: frame_src_def buf_bytes_def ether_host_take split: if_splits)
  from assms n(1) obtain head where head: "mem_load (buf_block b) 0 ETHER_HEADER = Inr head"
    "t' = mac_update now' (ether_shost head) h (mac_check_timeout now t)"
    by (auto simp: forward_def clean_up_def Let_def and_then_Inr_iff split: if_splits option.splits)
  then have "head = take ETHER_HEADER (buf_block b)" by (auto simp: mem_load_def split: if_splits)
  with head(2) n(2) Some show ?thesis by (simp add: ether_host_take)
qed

lemma bridge_learns:
  assumes "bridge_forward e g rnd now now' b h s = Inr (s', xs)"
  shows "srv_table s' = (case frame_src b of None \<Rightarrow> mac_check_timeout now (srv_table s)
       | Some src \<Rightarrow> mac_update now' src h (mac_check_timeout now (srv_table s)))"
proof -
  obtain t hs where t: "forward now now' b h (srv_table s) = Inr (t, hs)" "srv_table s' = t"
    using assms run_handlers_frame by (fastforce simp: bridge_forward_def and_then_Inr_iff)
  from forward_learns [OF t(1)] t(2) show ?thesis by simp
qed

text \<open>The station stays on the tap.\<close>

definition on_tap :: "ethernet_address \<Rightarrow> int \<Rightarrow> server \<Rightarrow> bool" where
  "on_tap a t s \<longleftrightarrow> mac_query a (srv_table s) = Some Tap_Port \<and> (\<exists>u \<ge> t. mac_stamp a (srv_table s) = Some u)"

lemma on_tap_step:
  assumes "on_tap a t s" "mac_inv (srv_table s)" "now \<le> t + 600"
    and "srv_table s' = (case src of None \<Rightarrow> mac_check_timeout now (srv_table s)
       | Some b \<Rightarrow> mac_update now' b h (mac_check_timeout now (srv_table s)))"
    and "src = Some a \<Longrightarrow> h = Tap_Port \<and> t \<le> now'"
  shows "on_tap a t s'"
  using assms
  by (auto simp: on_tap_def tbl.query_learn tbl.stamp_learn tbl.query_expire tbl.stamp_expire split: option.splits)

lemma heard_session_on_tap:
  assumes "heard_session e a t s1 s" "server_session e s0 s1" "s0 = server_initial aes" "on_tap a t s1"
  shows "server_session e s0 s \<and> on_tap a t s"
  using assms
proof (induction rule: heard_session.induct)
  case (heard_tap s rnd now now' g rd s' xs)
  then have s: "server_session e s0 s" "on_tap a t s" by auto
  have inv: "mac_inv (srv_table s)"
    using server_run_inv [OF server_session_run [OF s(1) [unfolded assms(3)]]] by (simp add: server_inv_def)
  from heard_tap.hyps(5) obtain b where "bridge_forward e g rnd now now' b Tap_Port s = Inr (s', xs)"
    by (auto simp: server_read_tap_def and_then_Inr_iff split: io_result.splits)
  from bridge_learns [OF this] have t: "srv_table s' = (case frame_src b of None \<Rightarrow> mac_check_timeout now (srv_table s)
       | Some src \<Rightarrow> mac_update now' src Tap_Port (mac_check_timeout now (srv_table s)))" .
  have "on_tap a t s'" by (rule on_tap_step [OF s(2) inv heard_tap.hyps(3) t]) (use heard_tap.hyps(4) in simp)
  with session_tap [OF s(1) heard_tap.hyps(2,5)] show ?case by simp
next
  case (heard_udp s rnd now g d plain now' sender s' xs)
  then have s: "server_session e s0 s" "on_tap a t s" by auto
  have inv: "mac_inv (srv_table s)"
    using server_run_inv [OF server_session_run [OF s(1) [unfolded assms(3)]]] by (simp add: server_inv_def)
  from heard_udp.hyps(4,6) obtain aes s2 where
    f: "bridge_forward e g rnd now now' plain (Udp_Port (srv_iter s)) (s\<lparr>srv_aes := aes, srv_addr := sender\<rparr>) = Inr (s2, xs)"
    and s2: "srv_table s' = srv_table s2"
    by (auto simp: server_read_udp_def opened_def and_then_Inr_iff)
  from bridge_learns [OF f] s2 have t: "srv_table s' = (case frame_src plain of None \<Rightarrow> mac_check_timeout now (srv_table s)
       | Some src \<Rightarrow> mac_update now' src (Udp_Port (srv_iter s)) (mac_check_timeout now (srv_table s)))" by (simp split: option.splits)
  have "on_tap a t s'" by (rule on_tap_step [OF s(2) inv heard_udp.hyps(3) t]) (use heard_udp.hyps(5) in simp)
  with session_udp [OF s(1) heard_udp.hyps(2,6)] show ?case by simp
qed simp

text \<open>A frame from the tap for a station that is not known.\<close>

lemma tap_unknown:
  assumes "ETHER_HEADER \<le> length d" "length d \<le> BRIDGE_MTU" "mac_inv (srv_table s)"
    and "ether_dhost d \<noteq> broad_cast_address" "ether_dhost d \<noteq> ether_shost d" "mac_query (ether_dhost d) (srv_table s) = None"
  shows "server_read_tap e g rnd now now' (Io_Data d) s = Inr (s\<lparr>srv_table :=
    mac_update now' (ether_shost d) Tap_Port (mac_check_timeout now (srv_table s))\<rparr>, [])"
proof -
  define b where "b = \<lparr>buf_ptr = Some (d @ drop (length d) (new_array (g 4) BRIDGE_MTU)), buf_size = length d\<rparr>"
  have b: "buf_wf b" "frame_src b = Some (ether_shost d)" "frame_dst b = Some (ether_dhost d)"
    using assms(1,2) by (simp_all add: b_def buf_wf_def frame_src_def frame_dst_def buf_bytes_def)
  have "mac_stamp (ether_dhost d) (srv_table s) = None" using assms(3,6) tbl.stamp_query by blast
  with b assms(3-6) have "bridge_forward e g rnd now now' b Tap_Port s = Inr (s\<lparr>srv_table :=
      mac_update now' (ether_shost d) Tap_Port (mac_check_timeout now (srv_table s))\<rparr>, [])"
    by (simp add: bridge_forward_def forward_frame Let_def tbl.query_learn)
  then show ?thesis using assms(2) by (simp add: server_read_tap_def tunnel_simps b_def)
qed

section \<open>Properties\<close>

text \<open>A small session: two stations are heard on the server's tap, then the client reads a frame for the
  first of them.\<close>

definition hello :: "nat \<Rightarrow> block" where
  "hello n = octets (Mac 2 0 0 0 0 2) @ octets (Mac 2 0 0 0 0 (of_nat n)) @ [8, 0]"

lemma hello_simps [simp]:
  "ether_dhost (hello n) = Mac 2 0 0 0 0 2" "ether_shost (hello n) = Mac 2 0 0 0 0 (of_nat n)" "length (hello n) = 14"
  by (simp_all add: hello_def ether_dhost_def ether_shost_def)

lemma hellos_heard:
  obtains s1 s2 where "server_read_tap pad_evp (\<lambda>_ _. 0) (\<lambda>_. None) 10 10 (Io_Data (hello 1)) (server_initial demo_aes) = Inr (s1, [])"
    "server_read_tap pad_evp (\<lambda>_ _. 0) (\<lambda>_. None) 20 20 (Io_Data (hello 3)) s1 = Inr (s2, [])"
    "mac_inv (srv_table s2)" "on_tap (Mac 2 0 0 0 0 1) 10 s2" "srv_aes s2 = demo_aes"
proof -
  let ?s0 = "server_initial demo_aes"
  have inv: "mac_inv (srv_table ?s0)" "mac_query a (srv_table ?s0) = None" "mac_stamp a (srv_table ?s0) = None" for a
    by (simp_all add: server_initial_def mac_query_def mac_stamp_def)
  define s1 where "s1 = ?s0\<lparr>srv_table := mac_update 10 (Mac 2 0 0 0 0 1) Tap_Port (mac_check_timeout 10 (srv_table ?s0))\<rparr>"
  define s2 where "s2 = s1\<lparr>srv_table := mac_update 20 (Mac 2 0 0 0 0 3) Tap_Port (mac_check_timeout 20 (srv_table s1))\<rparr>"
  have t1: "mac_inv (srv_table s1)"
    "mac_query a (srv_table s1) = (if a = Mac 2 0 0 0 0 1 then Some Tap_Port else None)"
    "mac_stamp a (srv_table s1) = (if a = Mac 2 0 0 0 0 1 then Some 10 else None)" for a
    using inv by (simp_all add: s1_def tbl.query_learn tbl.stamp_learn tbl.inv_learn)
  have r: "server_read_tap pad_evp (\<lambda>_ _. 0) (\<lambda>_. None) 10 10 (Io_Data (hello 1)) ?s0 = Inr (s1, [])"
    "server_read_tap pad_evp (\<lambda>_ _. 0) (\<lambda>_. None) 20 20 (Io_Data (hello 3)) s1 = Inr (s2, [])"
    using tap_unknown [of "hello 1" ?s0 pad_evp "\<lambda>_ _. 0" "\<lambda>_. None" 10 10] inv
      tap_unknown [of "hello 3" s1 pad_evp "\<lambda>_ _. 0" "\<lambda>_. None" 20 20] t1
    by (simp_all add: s1_def [symmetric] s2_def [symmetric] broad_cast_address_def)
  have "mac_inv (srv_table s2)" "on_tap (Mac 2 0 0 0 0 1) 10 s2"
    using t1 by (simp_all add: s2_def on_tap_def tbl.query_learn tbl.stamp_learn tbl.inv_learn)
  moreover have "srv_aes s2 = demo_aes" by (simp add: s1_def s2_def server_initial_def)
  ultimately show thesis using that r by blast
qed

text \<open>C16: whatever happens in a session, with any datagrams and any failures of the cipher, the keys of
  both ends stay those they were started with, the cipher's fields keep their sizes, the client keeps
  sending to the same address, and the server's table stays ordered and consistent.\<close>

theorem session_typed:
  assumes "client_session e env0 env" "aes_wf (env_aes env0)"
    and "server_session e (server_initial a) s" "aes_wf a"
  shows "aes_wf (env_aes env) \<and> aes_key (env_aes env) = aes_key (env_aes env0) \<and> env_addr env = env_addr env0
    \<and> aes_wf (srv_aes s) \<and> aes_key (srv_aes s) = aes_key a \<and> server_inv s"
  using client_session_same [OF assms(1)] server_session_same [OF assms(3)] assms(2,4)
    server_run_inv [OF server_session_run [OF assms(3)]]
  by (simp add: aes_same_def server_initial_def)

theorem session_typed_witness:
  "\<exists>s1 s2 env out s3.
    server_read_tap pad_evp (\<lambda>_ _. 0) (\<lambda>_. None) 10 10 (Io_Data (hello 1)) (server_initial demo_aes) = Inr (s1, [])
    \<and> server_read_tap pad_evp (\<lambda>_ _. 0) (\<lambda>_. None) 20 20 (Io_Data (hello 3)) s1 = Inr (s2, [])
    \<and> client_read_tap pad_evp (\<lambda>_ _. 1) (Some (replicate 16 9)) (Io_Data demo_bytes) demo_env =
        Inr (env, [Send_To (env_addr demo_env) out])
    \<and> server_read_udp pad_evp (\<lambda>_ _. 2) (\<lambda>_. None) 500 500 address_default (Io_Data out) s2 =
        Inr (s3, [Tap_Write demo_bytes])
    \<and> aes_wf (env_aes env) \<and> aes_key (env_aes env) = aes_key demo_aes \<and> env_addr env = env_addr demo_env
    \<and> aes_wf (srv_aes s3) \<and> aes_key (srv_aes s3) = aes_key demo_aes \<and> server_inv s3"
proof -
  obtain s1 s2 where tap: "server_read_tap pad_evp (\<lambda>_ _. 0) (\<lambda>_. None) 10 10 (Io_Data (hello 1)) (server_initial demo_aes) = Inr (s1, [])"
    "server_read_tap pad_evp (\<lambda>_ _. 0) (\<lambda>_. None) 20 20 (Io_Data (hello 3)) s1 = Inr (s2, [])"
    and s2: "mac_inv (srv_table s2)" "on_tap (Mac 2 0 0 0 0 1) 10 s2" "srv_aes s2 = demo_aes" by (rule hellos_heard)
  from s2(2) obtain t where t: "mac_query (Mac 2 0 0 0 0 1) (srv_table s2) = Some Tap_Port"
    "mac_stamp (Mac 2 0 0 0 0 1) (srv_table s2) = Some t" "10 \<le> t" by (auto simp: on_tap_def)
  have ae: "env_aes demo_env = demo_aes" by (simp add: demo_env_def)
  from frame_carried [of pad_evp demo_env s2 "Some (replicate 16 9)" demo_bytes t 500 "\<lambda>_ _. 1" "\<lambda>_ _. 2" "\<lambda>_. None" 500 address_default]
    evp_cbc_ok_pad_evp demo_aes_wf s2 t
  obtain env out s3 where sent: "client_read_tap pad_evp (\<lambda>_ _. 1) (Some (replicate 16 9)) (Io_Data demo_bytes) demo_env =
        Inr (env, [Send_To (env_addr demo_env) out])"
    "server_read_udp pad_evp (\<lambda>_ _. 2) (\<lambda>_. None) 500 500 address_default (Io_Data out) s2 = Inr (s3, [Tap_Write demo_bytes])"
    by (auto simp: ae demo_bytes_simps broad_cast_address_def)
  have ok: "rnd_ok None" "rnd_ok (Some (replicate 16 9))" by (simp_all add: rnd_ok_def)
  have c: "client_session pad_evp demo_env env" by (rule client_tap [OF client_start ok(2) sent(1)])
  have "server_session pad_evp (server_initial demo_aes) s2"
    by (rule session_tap [OF session_tap [OF session_start ok(1) tap(1)] ok(1) tap(2)])
  then have "server_session pad_evp (server_initial demo_aes) s3" by (rule session_udp [OF _ ok(1) sent(2)])
  from session_typed [OF c _ this demo_aes_wf] ae demo_aes_wf tap sent show ?thesis by auto
qed

text \<open>C3: after any session of a client and a server started with the same key string, once a station behind
  the server has been heard on its tap, a frame of at most 1471 bytes that the client reads for that station
  reaches it unchanged at any time in the next 600 seconds, whatever other traffic the server handles in
  between, as long as no datagram carries a frame with that station's address as its source.\<close>

theorem session_delivers:
  assumes "evp_cbc_ok e"
    and "client_session e env0 env" "env_aes env0 = aes_new ga (AES_key key)"
    and "server_session e (server_initial (aes_new gb (AES_key key))) s"
    and "\<forall>i. rnd_ok (rs0 i)" "server_read_tap e g0 rs0 now0 now0' (Io_Data d0) s = Inr (s1, xs)"
    and "ETHER_HEADER \<le> length d0" "length d0 \<le> BRIDGE_MTU"
    and "heard_session e (ether_shost d0) now0' s1 s2"
    and "rnd_ok rnd" "ETHER_HEADER \<le> length d" "length d \<le> 1471"
    and "ether_dhost d = ether_shost d0" "ether_dhost d \<noteq> broad_cast_address" "ether_dhost d \<noteq> ether_shost d"
    and "now - now0' \<le> 600"
  shows "\<exists>env' out s3. client_read_tap e g rnd (Io_Data d) env = Inr (env', [Send_To (env_addr env0) out])
    \<and> length out \<le> BRIDGE_MTU \<and> server_read_udp e h rs now now' sender (Io_Data out) s2 = Inr (s3, [Tap_Write d])"
proof -
  have wf: "aes_wf (aes_new g' (AES_key key))" for g'
    by (simp add: aes_wf_def aes_new_def AES_key_def key_fill_append)
  have s1: "server_session e (server_initial (aes_new gb (AES_key key))) s1"
    using assms(5) by (intro session_tap [OF assms(4) _ assms(6)]) simp
  have "mac_inv (srv_table s)"
    using server_run_inv [OF server_session_run [OF assms(4)]] by (simp add: server_inv_def)
  from server_tap_learns [OF assms(6) this assms(7,8)] have "on_tap (ether_shost d0) now0' s1" by (simp add: on_tap_def)
  from heard_session_on_tap [OF assms(9) s1 refl this] obtain t where
    s2: "server_session e (server_initial (aes_new gb (AES_key key))) s2"
    "mac_query (ether_dhost d) (srv_table s2) = Some Tap_Port" "mac_stamp (ether_dhost d) (srv_table s2) = Some t" "now0' \<le> t"
    using assms(13) by (auto simp: on_tap_def)
  have inv: "mac_inv (srv_table s2)"
    using server_run_inv [OF server_session_run [OF s2(1)]] by (simp add: server_inv_def)
  have keys: "aes_wf (env_aes env)" "aes_key (srv_aes s2) = aes_key (env_aes env)" "env_addr env = env_addr env0"
    using client_session_same [OF assms(2)] server_session_same [OF s2(1)] wf assms(3)
    by (simp_all add: aes_same_def server_initial_def aes_new_def)
  have rnd: "\<forall>r. rnd = Some r \<longrightarrow> length r = AES_BLOCK_SIZE" using assms(10) by (auto simp: rnd_ok_def)
  have "now - t \<le> 600" using assms(16) s2(4) by simp
  from frame_carried [OF assms(1) keys(1,2) rnd assms(11,12) inv assms(14,15) s2(2,3) this, of g h rs now' sender] keys(3)
  show ?thesis by auto
qed

theorem session_delivers_witness:
  "\<exists>s1 s2 env' out s3.
    server_read_tap pad_evp (\<lambda>_ _. 0) (\<lambda>_. None) 10 10 (Io_Data (hello 1)) (server_initial demo_aes) = Inr (s1, [])
    \<and> server_read_tap pad_evp (\<lambda>_ _. 0) (\<lambda>_. None) 20 20 (Io_Data (hello 3)) s1 = Inr (s2, [])
    \<and> client_read_tap pad_evp (\<lambda>_ _. 1) None (Io_Data demo_bytes) demo_env =
        Inr (env', [Send_To (env_addr demo_env) out])
    \<and> server_read_udp pad_evp (\<lambda>_ _. 2) (\<lambda>_. None) 500 500 address_default (Io_Data out) s2 =
        Inr (s3, [Tap_Write demo_bytes])"
proof -
  have aes: "demo_aes = aes_new (\<lambda>_. 0) (AES_key [107, 101, 121])"
    by (simp add: demo_aes_def aes_new_def new_array_def map_replicate_const)
  obtain s1 s2 where tap: "server_read_tap pad_evp (\<lambda>_ _. 0) (\<lambda>_. None) 10 10 (Io_Data (hello 1)) (server_initial demo_aes) = Inr (s1, [])"
    "server_read_tap pad_evp (\<lambda>_ _. 0) (\<lambda>_. None) 20 20 (Io_Data (hello 3)) s1 = Inr (s2, [])" by (rule hellos_heard)
  have "heard_session pad_evp (ether_shost (hello 1)) 10 s1 s2"
    by (rule heard_tap [OF heard_start _ _ _ tap(2)]) (simp_all add: rnd_ok_def)
  note delivers = session_delivers [OF evp_cbc_ok_pad_evp client_start _ _ _ tap(1) _ _ this]
  have "\<exists>env' out s3. client_read_tap pad_evp (\<lambda>_ _. 1) None (Io_Data demo_bytes) demo_env =
      Inr (env', [Send_To (env_addr demo_env) out]) \<and> length out \<le> BRIDGE_MTU
    \<and> server_read_udp pad_evp (\<lambda>_ _. 2) (\<lambda>_. None) 500 500 address_default (Io_Data out) s2 =
        Inr (s3, [Tap_Write demo_bytes])"
  proof (rule delivers)
    show "env_aes demo_env = aes_new (\<lambda>_. 0) (AES_key [107, 101, 121])" by (simp add: demo_env_def aes)
    show "server_session pad_evp (server_initial (aes_new (\<lambda>_. 0) (AES_key [107, 101, 121]))) (server_initial demo_aes)"
      unfolding aes [symmetric] by (rule session_start)
  qed (simp_all add: demo_bytes_simps rnd_ok_def broad_cast_address_def)
  with tap show ?thesis by blast
qed

end
