(* ===== verification/Co_Scheduler.thy ===== *)
theory Co_Scheduler
  imports Net_Prelude
begin

text \<open>
  \<open>coroutine/src/scheduler.hpp\<close>: the abstract \<open>scheduler<T>\<close> is the locale \<open>ready_queue\<close>, the
  \<open>round_robin_scheduler<T>\<close> a \<open>std::list\<close> used as a queue. Taking from an empty queue calls
  \<open>front\<close> and \<open>pop_front\<close> on an empty list, which is undefined.
\<close>

section \<open>The round-robin queue\<close>

definition rr_new :: "'a list" where
  "rr_new = []"

definition rr_enqueue :: "'a \<Rightarrow> 'a list \<Rightarrow> 'a list" where
  "rr_enqueue t q = q @ [t]"

definition rr_dequeue :: "'a list \<Rightarrow> ('a \<times> 'a list) outcome" where
  "rr_dequeue q = (case q of [] \<Rightarrow> Inl Undefined_Behaviour | t # q' \<Rightarrow> Inr (t, q'))"

definition rr_num :: "'a list \<Rightarrow> nat" where
  "rr_num q = length q"

section \<open>What the coroutine library relies on\<close>

fun dequeue_n :: "('q \<Rightarrow> ('a \<times> 'q) outcome) \<Rightarrow> nat \<Rightarrow> 'q \<Rightarrow> ('a list \<times> 'q) outcome" where
  "dequeue_n deq 0 q = Inr ([], q)"
| "dequeue_n deq (Suc n) q =
     and_then (deq q) (\<lambda>(t, q). and_then (dequeue_n deq n q) (\<lambda>(ts, q). Inr (t # ts, q)))"

locale ready_queue =
  fixes new :: 'q
    and enqueue :: "'a \<Rightarrow> 'q \<Rightarrow> 'q"
    and dequeue :: "'q \<Rightarrow> ('a \<times> 'q) outcome"
    and num :: "'q \<Rightarrow> nat"
    and waiting :: "'q \<Rightarrow> 'a list"
  assumes waiting_new: "waiting new = []"
    and waiting_enqueue: "waiting (enqueue t q) = waiting q @ [t]"
    and dequeue_Cons: "waiting q = t # ts \<Longrightarrow> \<exists>q'. dequeue q = Inr (t, q') \<and> waiting q' = ts"
    and dequeue_empty: "waiting q = [] \<Longrightarrow> dequeue q = Inl Undefined_Behaviour"
    and num_waiting: "num q = length (waiting q)"
begin

lemma dequeue_Inr:
  "dequeue q = Inr (t, q') \<Longrightarrow> waiting q = t # waiting q'"
  using dequeue_Cons [of q] dequeue_empty [of q] by (cases "waiting q") fastforce+

lemma dequeue_total: "0 < num q \<longleftrightarrow> (\<exists>t q'. dequeue q = Inr (t, q'))"
  using dequeue_Cons [of q] dequeue_empty [of q] by (cases "waiting q") (auto simp: num_waiting)

lemma enqueue_foldl: "waiting (foldl (\<lambda>q t. enqueue t q) q ts) = waiting q @ ts"
  by (induction ts arbitrary: q) (simp_all add: waiting_enqueue)

lemma dequeue_n_waiting:
  "n \<le> num q \<Longrightarrow> \<exists>q'. dequeue_n dequeue n q = Inr (take n (waiting q), q') \<and> waiting q' = drop n (waiting q)"
proof (induction n arbitrary: q)
  case (Suc n)
  then obtain t ts where w: "waiting q = t # ts" by (cases "waiting q") (auto simp: num_waiting)
  then obtain q1 where q1: "dequeue q = Inr (t, q1)" "waiting q1 = ts" using dequeue_Cons by blast
  then show ?case using Suc.IH [of q1] Suc.prems w by (auto simp: num_waiting)
qed simp

text \<open>First in, first out: what was waiting comes out before what is enqueued now, each in order.\<close>

lemma fifo:
  assumes "waiting q = old"
  shows "\<exists>q'. dequeue_n dequeue (length old + length ts) (foldl (\<lambda>q t. enqueue t q) q ts) =
    Inr (old @ ts, q') \<and> num q' = 0"
  using dequeue_n_waiting [of "length old + length ts" "foldl (\<lambda>q t. enqueue t q) q ts"] assms
  by (auto simp: num_waiting enqueue_foldl)

end

interpretation rr: ready_queue rr_new rr_enqueue rr_dequeue rr_num "\<lambda>q. q"
  by unfold_locales (auto simp: rr_new_def rr_enqueue_def rr_dequeue_def rr_num_def)

section \<open>Properties\<close>

text \<open>The scheduler is first in, first out: coroutines enqueued one after the other behind those
  already waiting are dequeued in exactly that order, after which the queue is empty and a further
  dequeue is undefined.\<close>

theorem rr_fifo:
  "\<exists>q'. dequeue_n rr_dequeue (length q + length ts) (foldl (\<lambda>q t. rr_enqueue t q) q ts) =
    Inr (q @ ts, q') \<and> rr_num q' = 0 \<and> rr_dequeue q' = Inl Undefined_Behaviour"
  using rr.fifo [of q q ts] rr.dequeue_empty by (auto simp: rr.num_waiting)

end
