(* ===== verification/Coroutine.thy ===== *)
theory Coroutine
  imports Co_Scheduler
begin

text \<open>
  \<open>coroutine/src/coroutine.{h,cpp}\<close>, \<open>ctx.h\<close> and the routines of \<open>asm/swapper.s\<close> they call.
  The state is the whole library: the coroutines and stacks on the heap, the globals
  (\<open>current\<close>, \<open>sched\<close>, the pool of shared stacks) and the registers of the processor. A pointer
  to a coroutine or stack is an identifier that is never reused (\<open>None\<close> is null), a stack is its
  address and the bytes of its block, and the bytes of a stack change only when the coroutine
  that runs on it runs. A switch is modelled up to the instruction that continues the next
  coroutine; the private stack the handlers of \<open>save_context\<close> run on holds nothing between
  switches. Memory from \<open>malloc\<close> that the code gives to \<open>delete\<close> is taken to be freed.
\<close>

named_theorems co_simps \<open>the coroutine library, one equation per branch\<close>

section \<open>State\<close>

record co_context =
  RBX :: u64
  RBP :: u64
  R12 :: u64
  R13 :: u64
  R14 :: u64
  R15 :: u64
  RSP :: nat
  RIP :: u64
  mxcsr :: u32
  x87_cw :: u32

definition mxcsr_MASK :: u32 where
  "mxcsr_MASK = push_bit 7 1 OR push_bit 8 1 OR push_bit 9 1 OR push_bit 10 1 OR push_bit 11 1
     OR push_bit 12 1"

definition x87_cw_mask :: u32 where
  "x87_cw_mask = 0x37f"

text \<open>Addresses the linker fixes: the code labels, and the end of the static array \<open>stack\<close>.\<close>

record image =
  at_co_launch :: u64
  at_retaddr :: u64
  at_co_exit :: u64
  at_static_stack :: nat

record co_stack =
  stack_bottom :: nat
  stack_mem :: block
  used_by :: "nat option"
  stk_shared :: bool

definition stack_top :: "co_stack \<Rightarrow> nat" where
  "stack_top st = stack_bottom st + length (stack_mem st)"

record coroutine =
  saved_ctx :: co_context
  routine :: u64
  param :: u64
  co_stack_ptr :: "nat option"
  shared_stack :: bool
  stack_copy :: "block option"
  stack_copy_size :: nat

record world =
  cos :: "nat \<Rightarrow> coroutine option"
  stks :: "nat \<Rightarrow> co_stack option"
  fresh :: nat
  current :: "nat option"
  sched :: "nat option list option"
  shared_stack_pool :: "nat list"
  shared_stack_alloc_count :: nat
  cpu :: co_context

definition deref :: "(nat \<Rightarrow> 'a option) \<Rightarrow> nat option \<Rightarrow> 'a outcome" where
  "deref h p =
     (case p of None \<Rightarrow> Inl Undefined_Behaviour
      | Some i \<Rightarrow> (case h i of None \<Rightarrow> Inl Undefined_Behaviour | Some x \<Rightarrow> Inr x))"

definition set_co :: "nat \<Rightarrow> coroutine \<Rightarrow> world \<Rightarrow> world" where
  "set_co i c w = w\<lparr>cos := (cos w)(i := Some c)\<rparr>"

definition set_stk :: "nat \<Rightarrow> co_stack \<Rightarrow> world \<Rightarrow> world" where
  "set_stk s st w = w\<lparr>stks := (stks w)(s := Some st)\<rparr>"

section \<open>Stacks\<close>

text \<open>\<open>co_stack(size, share)\<close>: \<open>addr\<close> is the address \<open>malloc\<close> returned, \<open>g\<close> the block's contents.\<close>

definition co_stack_new :: "nat \<Rightarrow> (nat \<Rightarrow> u8) \<Rightarrow> nat \<Rightarrow> bool \<Rightarrow> co_stack" where
  "co_stack_new addr g n share =
     \<lparr>stack_bottom = addr, stack_mem = new_array g n, used_by = None, stk_shared = share\<rparr>"

definition co_stack_default :: co_stack where
  "co_stack_default = \<lparr>stack_bottom = 0, stack_mem = [], used_by = None, stk_shared = False\<rparr>"

definition set_exit_guard :: "image \<Rightarrow> co_stack \<Rightarrow> co_stack outcome" where
  "set_exit_guard im st =
     and_then (mem_store (stack_mem st) (size_sub (length (stack_mem st)) 8) (le64_put (at_co_exit im)))
       (\<lambda>m. Inr (st\<lparr>stack_mem := m\<rparr>))"

section \<open>Coroutines\<close>

definition zero_ctx :: co_context where
  "zero_ctx = \<lparr>RBX = 0, RBP = 0, R12 = 0, R13 = 0, R14 = 0, R15 = 0, RSP = 0, RIP = 0,
     mxcsr = 0, x87_cw = 0\<rparr>"

definition coroutine_new :: "image \<Rightarrow> u64 \<Rightarrow> u64 \<Rightarrow> bool \<Rightarrow> coroutine" where
  "coroutine_new im rout par sh =
     \<lparr>saved_ctx = zero_ctx\<lparr>RIP := at_co_launch im, mxcsr := mxcsr_MASK, x87_cw := x87_cw_mask\<rparr>,
      routine = rout, param = par, co_stack_ptr = None, shared_stack = sh,
      stack_copy = (if sh then Some (le64_put (at_co_exit im)) else None),
      stack_copy_size = (if sh then 8 else 0)\<rparr>"

text \<open>\<open>delete co\<close>: the destructor, then the object is gone.\<close>

definition coroutine_delete :: "nat option \<Rightarrow> world \<Rightarrow> world outcome" where
  "coroutine_delete p w =
     and_then (deref (cos w) p) (\<lambda>c.
     and_then (if \<not> shared_stack c
       then (case co_stack_ptr c of None \<Rightarrow> Inr w
             | Some s \<Rightarrow> and_then (deref (stks w) (Some s)) (\<lambda>_. Inr (w\<lparr>stks := (stks w)(s := None)\<rparr>)))
       else (case co_stack_ptr c of None \<Rightarrow> Inr w
             | Some s \<Rightarrow> and_then (deref (stks w) (Some s)) (\<lambda>st.
                 Inr (if used_by st = p then set_stk s (st\<lparr>used_by := None\<rparr>) w else w)))) (\<lambda>w.
     Inr (w\<lparr>cos := (cos w)(the p := None)\<rparr>)))"

definition set_stack :: "image \<Rightarrow> nat \<Rightarrow> nat option \<Rightarrow> world \<Rightarrow> world outcome" where
  "set_stack im i new_stack w =
     and_then (deref (cos w) (Some i)) (\<lambda>c.
     and_then (deref (stks w) new_stack) (\<lambda>st.
     if shared_stack c \<and> \<not> stk_shared st then Inl Aborted
     else and_then (if shared_stack c then Inr st else set_exit_guard im st) (\<lambda>st.
       let c = c\<lparr>co_stack_ptr := new_stack,
                 saved_ctx := (saved_ctx c)\<lparr>RSP := size_sub (stack_top st) 8\<rparr>\<rparr>
       in Inr (set_stk (the new_stack) st (set_co i c w)))))"

definition in_stack :: "nat \<Rightarrow> world \<Rightarrow> bool outcome" where
  "in_stack i w =
     and_then (deref (cos w) (Some i)) (\<lambda>c.
     if \<not> shared_stack c then Inr True
     else case co_stack_ptr c of None \<Rightarrow> Inr False
       | Some s \<Rightarrow> and_then (deref (stks w) (Some s)) (\<lambda>st. Inr (used_by st = Some i)))"

text \<open>\<open>save_stack\<close> copies \<open>stack_top - RSP\<close> bytes from \<open>RSP\<close> on; \<open>restore_stack\<close> copies them back to
  the end of the stack and takes the stack.\<close>

definition save_stack :: "nat \<Rightarrow> world \<Rightarrow> world outcome" where
  "save_stack i w =
     and_then (deref (cos w) (Some i)) (\<lambda>c.
     and_then (deref (stks w) (co_stack_ptr c)) (\<lambda>st.
     let size = size_sub (stack_top st) (RSP (saved_ctx c))
     in if RSP (saved_ctx c) < stack_bottom st then Inl Undefined_Behaviour
        else and_then (mem_load (stack_mem st) (RSP (saved_ctx c) - stack_bottom st) size) (\<lambda>bs.
          Inr (set_co i (c\<lparr>stack_copy_size := size, stack_copy := Some bs\<rparr>) w))))"

definition restore_stack :: "nat \<Rightarrow> world \<Rightarrow> world outcome" where
  "restore_stack i w =
     and_then (deref (cos w) (Some i)) (\<lambda>c.
     and_then (deref (stks w) (co_stack_ptr c)) (\<lambda>st.
     and_then (mem_load (case stack_copy c of None \<Rightarrow> [] | Some b \<Rightarrow> b) 0 (stack_copy_size c)) (\<lambda>bs.
     if length (stack_mem st) < stack_copy_size c then Inl Undefined_Behaviour
     else and_then (mem_store (stack_mem st) (length (stack_mem st) - stack_copy_size c) bs) (\<lambda>m.
       Inr (set_stk (the (co_stack_ptr c)) (st\<lparr>stack_mem := m, used_by := Some i\<rparr>)
             (set_co i (c\<lparr>stack_copy := None\<rparr>) w))))))"

section \<open>The library's functions\<close>

text \<open>\<open>new co_stack(\<dots>)\<close> and \<open>new coroutine(\<dots>)\<close>: a fresh identifier.\<close>

definition new_stk :: "co_stack \<Rightarrow> world \<Rightarrow> nat \<times> world" where
  "new_stk st w = (fresh w, set_stk (fresh w) st (w\<lparr>fresh := Suc (fresh w)\<rparr>))"

definition new_co :: "coroutine \<Rightarrow> world \<Rightarrow> nat \<times> world" where
  "new_co c w = (fresh w, set_co (fresh w) c (w\<lparr>fresh := Suc (fresh w)\<rparr>))"

abbreviation (input) SHARED_STACK_POOL_SIZE :: nat where "SHARED_STACK_POOL_SIZE \<equiv> 1"

definition co_alloc_shared_stack :: "world \<Rightarrow> (nat \<times> world) outcome" where
  "co_alloc_shared_stack w =
     (let n = shared_stack_alloc_count w; k = n mod SHARED_STACK_POOL_SIZE
      in if k < length (shared_stack_pool w)
         then Inr (shared_stack_pool w ! k, w\<lparr>shared_stack_alloc_count := (n + 1) mod size_max\<rparr>)
         else Inl Undefined_Behaviour)"

definition co_create ::
    "image \<Rightarrow> nat \<Rightarrow> (nat \<Rightarrow> u8) \<Rightarrow> nat \<Rightarrow> u64 \<Rightarrow> u64 \<Rightarrow> world \<Rightarrow> (nat \<times> world) outcome" where
  "co_create im addr g stack_size rout par w =
     (let (co, w) = new_co (coroutine_new im rout par False) w;
          (stack, w) = new_stk (co_stack_new addr g stack_size False) w
      in and_then (set_stack im co (Some stack) w) (\<lambda>w. Inr (co, w)))"

definition co_create_shared :: "image \<Rightarrow> u64 \<Rightarrow> u64 \<Rightarrow> world \<Rightarrow> (nat \<times> world) outcome" where
  "co_create_shared im rout par w =
     (let (co, w) = new_co (coroutine_new im rout par True) w
      in and_then (co_alloc_shared_stack w) (\<lambda>(stack, w).
         and_then (set_stack im co (Some stack) w) (\<lambda>w. Inr (co, w))))"

text \<open>\<open>co_create_cxx(func)\<close>: \<open>launch\<close> is \<open>&co_launch_cxx<FUNC>\<close>, \<open>func\<close> the address of the copy of
  the functor made for it.\<close>

definition co_create_cxx ::
    "image \<Rightarrow> nat \<Rightarrow> (nat \<Rightarrow> u8) \<Rightarrow> nat \<Rightarrow> u64 \<Rightarrow> u64 \<Rightarrow> world \<Rightarrow> (nat \<times> world) outcome" where
  "co_create_cxx im addr g stack_size launch func w = co_create im addr g stack_size launch func w"

definition co_create_cxx_shared :: "image \<Rightarrow> u64 \<Rightarrow> u64 \<Rightarrow> world \<Rightarrow> (nat \<times> world) outcome" where
  "co_create_cxx_shared im launch func w = co_create_shared im launch func w"

definition co_destroy :: "nat option \<Rightarrow> world \<Rightarrow> world outcome" where
  "co_destroy co w = coroutine_delete co w"

text \<open>\<open>co_init\<close>: \<open>addr\<close> and \<open>g\<close> are the block of the one pooled stack.\<close>

definition co_init :: "image \<Rightarrow> nat \<Rightarrow> (nat \<Rightarrow> u8) \<Rightarrow> world \<Rightarrow> world" where
  "co_init im addr g w =
     (let w = (case current w of Some _ \<Rightarrow> w
               | None \<Rightarrow>
                   let (co, w) = new_co (coroutine_new im 0 0 False) w;
                       (stack, w) = new_stk (co_stack_default\<lparr>used_by := Some co\<rparr>) w
                   in set_co co ((coroutine_new im 0 0 False)\<lparr>co_stack_ptr := Some stack\<rparr>)
                        (w\<lparr>current := Some co\<rparr>));
          w = (case sched w of Some _ \<Rightarrow> w | None \<Rightarrow> w\<lparr>sched := Some rr_new\<rparr>);
          (pooled, w) = new_stk (co_stack_new addr g (1024 * 1024) True) w
      in w\<lparr>shared_stack_pool := [pooled]\<rparr>)"

definition co_post :: "nat option \<Rightarrow> world \<Rightarrow> world outcome" where
  "co_post co w =
     (case sched w of None \<Rightarrow> Inl Undefined_Behaviour
      | Some q \<Rightarrow> Inr (w\<lparr>sched := Some (rr_enqueue co q)\<rparr>))"

definition co_num_ready :: "world \<Rightarrow> nat outcome" where
  "co_num_ready w =
     (case sched w of None \<Rightarrow> Inl Undefined_Behaviour | Some q \<Rightarrow> Inr (rr_num q))"

text \<open>\<open>save_context(&current->saved_ctx, &stack[STACK_SIZE], handler)\<close> up to the jump to the
  handler, and \<open>load_context\<close> up to the jump to the saved instruction.\<close>

definition save_context :: "image \<Rightarrow> world \<Rightarrow> world outcome" where
  "save_context im w =
     and_then (deref (cos w) (current w)) (\<lambda>c.
     Inr ((set_co (the (current w)) (c\<lparr>saved_ctx := (cpu w)\<lparr>RIP := at_retaddr im\<rparr>\<rparr>) w)
            \<lparr>cpu := (cpu w)\<lparr>RSP := at_static_stack im\<rparr>\<rparr>))"

definition load_context :: "world \<Rightarrow> world outcome" where
  "load_context w =
     and_then (deref (cos w) (current w)) (\<lambda>c. Inr (w\<lparr>cpu := saved_ctx c\<rparr>))"

definition co_swap_in :: "nat \<Rightarrow> world \<Rightarrow> world outcome" where
  "co_swap_in co w =
     and_then (in_stack co w) (\<lambda>b.
     if b then Inr w
     else and_then (deref (cos w) (Some co)) (\<lambda>c.
          and_then (deref (stks w) (co_stack_ptr c)) (\<lambda>st.
          and_then (case used_by st of None \<Rightarrow> Inr w | Some u \<Rightarrow> save_stack u w) (\<lambda>w.
          restore_stack co w))))"

definition co_sched :: "world \<Rightarrow> world outcome" where
  "co_sched w =
     (case sched w of None \<Rightarrow> Inl Undefined_Behaviour
      | Some q \<Rightarrow>
          and_then (rr_dequeue q) (\<lambda>(next, q).
          let w = w\<lparr>sched := Some q\<rparr>
          in case next of None \<Rightarrow> Inl Aborted
             | Some co \<Rightarrow>
                 let w = w\<lparr>current := Some co\<rparr>
                 in and_then (deref (cos w) (Some co)) (\<lambda>c.
                    and_then (if shared_stack c then co_swap_in co w else Inr w) (\<lambda>w.
                    load_context w))))"

definition co_exit :: "image \<Rightarrow> world \<Rightarrow> world outcome" where
  "co_exit im w =
     (let w = w\<lparr>cpu := (cpu w)\<lparr>RSP := at_static_stack im\<rparr>\<rparr>
      in and_then (co_destroy (current w) w) (\<lambda>w. co_sched w))"

definition co_resched :: "image \<Rightarrow> world \<Rightarrow> world outcome" where
  "co_resched im w =
     and_then (save_context im w) (\<lambda>w.
     and_then (co_post (current w) w) (\<lambda>w. co_sched w))"

text \<open>\<open>co_yield(&p)\<close>: the pointer stored in \<open>p\<close>, and the world in which another coroutine runs.\<close>

definition co_yield :: "image \<Rightarrow> world \<Rightarrow> (nat option \<times> world) outcome" where
  "co_yield im w =
     (let co = current w
      in and_then (save_context im w) (\<lambda>w. and_then (co_sched w) (\<lambda>w. Inr (co, w))))"

definition co_dispath :: "image \<Rightarrow> nat option \<Rightarrow> world \<Rightarrow> world outcome" where
  "co_dispath im co w =
     and_then (co_post (current w) w) (\<lambda>w.
     and_then (save_context im (w\<lparr>current := co\<rparr>)) (\<lambda>w. load_context w))"

text \<open>\<open>co_launch\<close>, where a new coroutine starts: the routine it calls and the argument. When the
  routine returns, \<open>co_launch\<close> returns to the address on top of the stack, the exit guard.\<close>

definition co_launch :: "world \<Rightarrow> (u64 \<times> u64) outcome" where
  "co_launch w = and_then (deref (cos w) (current w)) (\<lambda>c. Inr (routine c, param c))"

definition co_stack_init :: "co_stack \<Rightarrow> u64 \<Rightarrow> co_context \<Rightarrow> co_context" where
  "co_stack_init st rout ctx =
     ctx\<lparr>RSP := stack_top st, RIP := rout, mxcsr := mxcsr_MASK, x87_cw := x87_cw_mask\<rparr>"

section \<open>What a program does with the library\<close>

text \<open>Between two calls the running coroutine changes the registers and the bytes of its own
  stack (\<open>Run\<close>); the other actions are the library's functions.\<close>

datatype co_action =
    Run co_context block
  | Resched
  | Yield
  | Exit
  | Post nat
  | Destroy nat
  | Create nat "nat \<Rightarrow> u8" nat u64 u64
  | Create_Shared u64 u64

definition co_run :: "co_context \<Rightarrow> block \<Rightarrow> world \<Rightarrow> world outcome" where
  "co_run ctx m w =
     and_then (deref (cos w) (current w)) (\<lambda>c.
     and_then (deref (stks w) (co_stack_ptr c)) (\<lambda>st.
     Inr (set_stk (the (co_stack_ptr c)) (st\<lparr>stack_mem := m\<rparr>) (w\<lparr>cpu := ctx\<rparr>))))"

fun co_do :: "image \<Rightarrow> co_action \<Rightarrow> world \<Rightarrow> world outcome" where
  "co_do im (Run ctx m) w = co_run ctx m w"
| "co_do im Resched w = co_resched im w"
| "co_do im Yield w = and_then (co_yield im w) (\<lambda>(co, w). Inr w)"
| "co_do im Exit w = co_exit im w"
| "co_do im (Post i) w = co_post (Some i) w"
| "co_do im (Destroy i) w = co_destroy (Some i) w"
| "co_do im (Create addr g n rout par) w =
     and_then (co_create im addr g n rout par w) (\<lambda>(co, w). Inr w)"
| "co_do im (Create_Shared rout par) w =
     and_then (co_create_shared im rout par w) (\<lambda>(co, w). Inr w)"

section \<open>The invariant\<close>

text \<open>The bytes a coroutine will find from its saved stack pointer to the top of its stack.\<close>

definition stack_image :: "world \<Rightarrow> nat \<Rightarrow> block" where
  "stack_image w i =
     (case cos w i of None \<Rightarrow> []
      | Some c \<Rightarrow> (case co_stack_ptr c of None \<Rightarrow> []
        | Some s \<Rightarrow> (case stks w s of None \<Rightarrow> []
          | Some st \<Rightarrow>
              if shared_stack c \<and> used_by st \<noteq> Some i
              then (case stack_copy c of None \<Rightarrow> [] | Some b \<Rightarrow> b)
              else drop (RSP (saved_ctx c) - stack_bottom st) (stack_mem st))))"

definition saved_registers :: "world \<Rightarrow> nat \<Rightarrow> co_context option" where
  "saved_registers w i = map_option saved_ctx (cos w i)"

definition stk_ok :: "co_stack \<Rightarrow> bool" where
  "stk_ok st \<longleftrightarrow> stack_top st < size_max \<and> (stk_shared st \<longrightarrow> 8 \<le> length (stack_mem st))"

definition rsp_inside :: "co_stack \<Rightarrow> nat \<Rightarrow> bool" where
  "rsp_inside st r \<longleftrightarrow> stack_bottom st \<le> r \<and> r \<le> stack_top st"

text \<open>A coroutine on a shared stack either occupies it, or holds a copy of its part of it.\<close>

definition image_ok :: "nat option \<Rightarrow> co_stack \<Rightarrow> nat \<Rightarrow> coroutine \<Rightarrow> bool" where
  "image_ok run st i c \<longleftrightarrow>
     (if used_by st = Some i
      then stack_copy c = None \<and> (run \<noteq> Some i \<longrightarrow> rsp_inside st (RSP (saved_ctx c)))
      else (\<exists>b. stack_copy c = Some b \<and> length b = stack_copy_size c
              \<and> stack_copy_size c \<le> length (stack_mem st)
              \<and> RSP (saved_ctx c) = stack_top st - stack_copy_size c))"

definition cos_ok :: "nat option \<Rightarrow> world \<Rightarrow> bool" where
  "cos_ok run w \<longleftrightarrow>
     (\<forall>i c. cos w i = Some c \<longrightarrow> i < fresh w \<and>
       (\<exists>s st. co_stack_ptr c = Some s \<and> stks w s = Some st \<and> stk_shared st = shared_stack c
          \<and> (shared_stack c \<longrightarrow> image_ok run st i c)))"

definition stks_ok :: "world \<Rightarrow> bool" where
  "stks_ok w \<longleftrightarrow>
     (\<forall>s st. stks w s = Some st \<longrightarrow> s < fresh w \<and> stk_ok st \<and>
       (\<forall>u. stk_shared st \<and> used_by st = Some u \<longrightarrow>
         (\<exists>c. cos w u = Some c \<and> co_stack_ptr c = Some s \<and> shared_stack c)))"

definition owned_ok :: "world \<Rightarrow> bool" where
  "owned_ok w \<longleftrightarrow>
     (\<forall>i j c d. cos w i = Some c \<and> cos w j = Some d \<and> i \<noteq> j \<and> \<not> shared_stack c \<longrightarrow>
       co_stack_ptr c \<noteq> co_stack_ptr d)"

definition pool_ok :: "world \<Rightarrow> bool" where
  "pool_ok w \<longleftrightarrow>
     (\<exists>p st. shared_stack_pool w = [p] \<and> stks w p = Some st \<and> stk_shared st)"

definition co_base :: "nat option \<Rightarrow> world \<Rightarrow> bool" where
  "co_base run w \<longleftrightarrow> cos_ok run w \<and> stks_ok w \<and> owned_ok w \<and> pool_ok w"

definition queue_ok :: "nat \<Rightarrow> world \<Rightarrow> bool" where
  "queue_ok m w \<longleftrightarrow>
     (\<exists>q. sched w = Some q \<and> distinct q \<and> set q \<subseteq> Some ` dom (cos w) \<and> current w \<notin> set q
        \<and> (\<exists>c. cos w m = Some c \<and> \<not> shared_stack c) \<and> (current w = Some m \<or> Some m \<in> set q))"

definition cur_ok :: "world \<Rightarrow> bool" where
  "cur_ok w \<longleftrightarrow>
     (\<exists>i c s st. current w = Some i \<and> cos w i = Some c \<and> co_stack_ptr c = Some s \<and> stks w s = Some st
        \<and> (shared_stack c \<longrightarrow> used_by st = Some i \<and> rsp_inside st (RSP (cpu w))))"

text \<open>\<open>m\<close> is the coroutine of the main program, which only ever reschedules.\<close>

definition co_inv :: "nat \<Rightarrow> world \<Rightarrow> bool" where
  "co_inv m w \<longleftrightarrow> co_base (current w) w \<and> queue_ok m w \<and> cur_ok w"

text \<open>The discipline the header's comments ask of the callers: a coroutine is posted when it is
  suspended and not yet posted, destroyed when it is not running, the main program neither
  yields nor exits, and code stays within its stack.\<close>

definition queued :: "nat \<Rightarrow> world \<Rightarrow> bool" where
  "queued i w \<longleftrightarrow> (case sched w of None \<Rightarrow> False | Some q \<Rightarrow> Some i \<in> set q)"

definition parked :: "nat \<Rightarrow> world \<Rightarrow> bool" where
  "parked i w \<longleftrightarrow> i \<in> dom (cos w) \<and> current w \<noteq> Some i \<and> \<not> queued i w"

definition run_allowed :: "co_context \<Rightarrow> block \<Rightarrow> world \<Rightarrow> bool" where
  "run_allowed ctx mem w \<longleftrightarrow>
     (\<forall>c st. deref (cos w) (current w) = Inr c \<and> deref (stks w) (co_stack_ptr c) = Inr st \<longrightarrow>
       length mem = length (stack_mem st) \<and> (shared_stack c \<longrightarrow> rsp_inside st (RSP ctx)))"

fun co_allowed :: "nat \<Rightarrow> co_action \<Rightarrow> world \<Rightarrow> bool" where
  "co_allowed m (Run ctx mem) w = run_allowed ctx mem w"
| "co_allowed m Resched w = True"
| "co_allowed m Yield w = (current w \<noteq> Some m)"
| "co_allowed m Exit w = (current w \<noteq> Some m)"
| "co_allowed m (Post i) w = parked i w"
| "co_allowed m (Destroy i) w = (parked i w \<and> i \<noteq> m)"
| "co_allowed m (Create addr g n rout par) w = (8 \<le> n \<and> addr + n < size_max)"
| "co_allowed m (Create_Shared rout par) w = True"

end
