(* ===== verification/Co_Switch.thy ===== *)
theory Co_Switch
  imports Coroutine
begin

text \<open>
  What a switch between coroutines does to the stacks: copying the occupant of a shared stack out
  and the next coroutine in keeps every coroutine's saved registers and stack image (\<open>kept\<close>), and
  a change to one coroutine and its stack leaves everyone else's alone (\<open>change_base\<close>,
  \<open>change_others\<close>). From these, \<open>co_sched\<close>, \<open>co_resched\<close> and the code that runs between two
  calls keep the invariant.
\<close>

lemma deref_simps [simp]:
  "deref h None = Inl Undefined_Behaviour"
  "h i = Some x \<Longrightarrow> deref h (Some i) = Inr x"
  "h i = None \<Longrightarrow> deref h (Some i) = Inl Undefined_Behaviour"
  by (simp_all add: deref_def)

lemma deref_Inr: "deref h p = Inr x \<longleftrightarrow> (\<exists>i. p = Some i \<and> h i = Some x)"
  by (auto simp: deref_def split: option.splits)

lemma co_baseD:
  assumes "co_base run w" "cos w i = Some c"
  obtains s st where "co_stack_ptr c = Some s" "stks w s = Some st" "stk_shared st = shared_stack c"
    "shared_stack c \<Longrightarrow> image_ok run st i c" "stk_ok st" "i < fresh w" "s < fresh w"
  using assms unfolding co_base_def cos_ok_def stks_ok_def by blast

lemma occupant:
  assumes "co_base run w" "stks w s = Some st" "stk_shared st" "used_by st = Some u"
  obtains c where "cos w u = Some c" "co_stack_ptr c = Some s" "shared_stack c"
  using assms unfolding co_base_def stks_ok_def by blast

lemma save_stack_Inr:
  assumes "cos w i = Some c" "co_stack_ptr c = Some s" "stks w s = Some st"
    and "rsp_inside st (RSP (saved_ctx c))" "stk_ok st"
  shows "save_stack i w = Inr (set_co i (c\<lparr>
      stack_copy_size := stack_top st - RSP (saved_ctx c),
      stack_copy := Some (drop (RSP (saved_ctx c) - stack_bottom st) (stack_mem st))\<rparr>) w)"
  using assms by (auto simp: save_stack_def rsp_inside_def stk_ok_def stack_top_def mem_simps Let_def)

lemma restore_stack_Inr:
  assumes "cos w i = Some c" "co_stack_ptr c = Some s" "stks w s = Some st" "stack_copy c = Some b"
    and "length b = stack_copy_size c" "stack_copy_size c \<le> length (stack_mem st)"
  shows "restore_stack i w = Inr (set_stk s (st\<lparr>
      stack_mem := take (length (stack_mem st) - stack_copy_size c) (stack_mem st) @ b,
      used_by := Some i\<rparr>) (set_co i (c\<lparr>stack_copy := None\<rparr>) w))"
  using assms by (simp add: restore_stack_def mem_simps)

lemma image_ok_other:
  assumes "image_ok run st j c" "stack_bottom st' = stack_bottom st"
    "length (stack_mem st') = length (stack_mem st)"
    "used_by st \<noteq> Some j" "used_by st' \<noteq> Some j"
  shows "image_ok run' st' j c"
  using assms by (auto simp: image_ok_def stack_top_def)

lemma image_ok_run:
  "image_ok run st j c \<Longrightarrow> run \<noteq> Some j \<Longrightarrow> image_ok run' st j c"
  by (auto simp: image_ok_def)

text \<open>One coroutine and its stack change; everyone else is untouched.\<close>

definition co_change :: "world \<Rightarrow> nat \<Rightarrow> coroutine \<Rightarrow> nat \<Rightarrow> co_stack \<Rightarrow> coroutine \<Rightarrow> co_stack \<Rightarrow> bool" where
  "co_change w i c s st c' st' \<longleftrightarrow>
     cos w i = Some c \<and> co_stack_ptr c = Some s \<and> stks w s = Some st
     \<and> co_stack_ptr c' = Some s \<and> shared_stack c' = shared_stack c
     \<and> stack_bottom st' = stack_bottom st \<and> length (stack_mem st') = length (stack_mem st)
     \<and> stk_shared st' = stk_shared st
     \<and> (shared_stack c \<longrightarrow> used_by st \<in> {None, Some i} \<and> used_by st' \<in> {None, Some i})"

definition changed :: "nat \<Rightarrow> nat \<Rightarrow> coroutine \<Rightarrow> co_stack \<Rightarrow> world \<Rightarrow> world" where
  "changed i s c' st' w = set_stk s st' (set_co i c' w)"

lemma changed_sel [simp]:
  "cos (changed i s c' st' w) = (cos w)(i := Some c')"
  "stks (changed i s c' st' w) = (stks w)(s := Some st')"
  "fresh (changed i s c' st' w) = fresh w" "sched (changed i s c' st' w) = sched w"
  "current (changed i s c' st' w) = current w" "cpu (changed i s c' st' w) = cpu w"
  "shared_stack_pool (changed i s c' st' w) = shared_stack_pool w"
  by (simp_all add: changed_def set_stk_def set_co_def)

lemma co_changeD:
  assumes "co_change w i c s st c' st'" "co_base run w"
  shows "cos w i = Some c" "co_stack_ptr c = Some s" "stks w s = Some st"
    "stk_shared st = shared_stack c" "stk_ok st" "i < fresh w" "s < fresh w"
    "co_stack_ptr c' = Some s" "shared_stack c' = shared_stack c" "stk_shared st' = shared_stack c"
    "stack_top st' = stack_top st" "stk_ok st'"
proof -
  show c: "cos w i = Some c" "co_stack_ptr c = Some s" "stks w s = Some st" "co_stack_ptr c' = Some s"
    "shared_stack c' = shared_stack c"
    using assms(1) by (simp_all add: co_change_def)
  from assms(2) c obtain "stk_shared st = shared_stack c" "stk_ok st" "i < fresh w" "s < fresh w"
    by (elim co_baseD) auto
  moreover show "stack_top st' = stack_top st"
    using assms(1) by (simp add: co_change_def stack_top_def)
  ultimately show "stk_shared st = shared_stack c" "stk_ok st" "i < fresh w" "s < fresh w"
    "stk_shared st' = shared_stack c" "stk_ok st'"
    using assms(1) by (simp_all add: co_change_def stk_ok_def)
qed

lemma same_stack_shared:
  assumes "co_base run w" "cos w i = Some c" "cos w j = Some d" "i \<noteq> j"
    and "co_stack_ptr c = co_stack_ptr d"
  shows "shared_stack c" "shared_stack d"
  using assms unfolding co_base_def owned_ok_def by metis+

lemma change_cos_ok:
  assumes ch: "co_change w i c s st c' st'"
    and b: "co_base run w" "run \<in> {None, Some i}" "run' \<in> {None, Some i}"
    and im: "shared_stack c \<Longrightarrow> image_ok run' st' i c'"
  shows "cos_ok run' (changed i s c' st' w)"
  unfolding cos_ok_def
proof (intro allI impI)
  fix j d assume j: "cos (changed i s c' st' w) j = Some d"
  from ch have co: "cos w i = Some c" by (simp add: co_change_def)
  show "j < fresh (changed i s c' st' w) \<and> (\<exists>t tt. co_stack_ptr d = Some t
    \<and> stks (changed i s c' st' w) t = Some tt
    \<and> stk_shared tt = shared_stack d \<and> (shared_stack d \<longrightarrow> image_ok run' tt j d))"
  proof (cases "j = i")
    case True
    with j im co_changeD [OF ch b(1)] show ?thesis by simp
  next
    case False
    with j have d: "cos w j = Some d" by simp
    with b(1) obtain t tt where t: "co_stack_ptr d = Some t" "stks w t = Some tt"
      "stk_shared tt = shared_stack d" "shared_stack d \<Longrightarrow> image_ok run tt j d" "j < fresh w"
      by (elim co_baseD) auto
    have r: "run \<noteq> Some j" "run' \<noteq> Some j" using b False by auto
    show ?thesis
    proof (cases "t = s")
      case True
      then have tt: "tt = st" using t co_changeD [OF ch b(1)] by simp
      then have "shared_stack d \<Longrightarrow> image_ok run' st' j d"
        using t False ch True co_changeD(4) [OF ch b(1)] by (auto simp: co_change_def intro: image_ok_other)
      then show ?thesis using t True tt co_changeD [OF ch b(1)] False by simp
    next
      case False
      with t r show ?thesis by (auto intro: image_ok_run)
    qed
  qed
qed

lemma change_stks_ok:
  assumes ch: "co_change w i c s st c' st'" and b: "co_base run w"
  shows "stks_ok (changed i s c' st' w)"
  unfolding stks_ok_def
proof (intro allI impI)
  fix t tt assume t: "stks (changed i s c' st' w) t = Some tt"
  from ch have co: "cos w i = Some c" by (simp add: co_change_def)
  show "t < fresh (changed i s c' st' w) \<and> stk_ok tt \<and>
       (\<forall>u. stk_shared tt \<and> used_by tt = Some u \<longrightarrow>
         (\<exists>d. cos (changed i s c' st' w) u = Some d \<and> co_stack_ptr d = Some t \<and> shared_stack d))"
  proof (cases "t = s")
    case True
    with t ch co_changeD [OF ch b] show ?thesis by (auto simp: co_change_def)
  next
    case False
    with t b have o: "t < fresh w" "stk_ok tt" "\<And>u. stk_shared tt \<and> used_by tt = Some u \<Longrightarrow>
         (\<exists>d. cos w u = Some d \<and> co_stack_ptr d = Some t \<and> shared_stack d)"
      by (simp_all add: co_base_def stks_ok_def)
    with o(1,2) o(3) o(3) [of i] co_changeD [OF ch b] show ?thesis by simp
  qed
qed

lemma change_base:
  assumes ch: "co_change w i c s st c' st'"
    and b: "co_base run w" "run \<in> {None, Some i}" "run' \<in> {None, Some i}"
    and im: "shared_stack c \<Longrightarrow> image_ok run' st' i c'"
  shows "co_base run' (changed i s c' st' w)"
proof -
  have "owned_ok (changed i s c' st' w)"
    using co_changeD [OF ch b(1)] same_stack_shared [OF b(1)] unfolding owned_ok_def
    by (simp split: if_splits) metis
  moreover have "pool_ok (changed i s c' st' w)"
    using b(1) ch unfolding co_base_def pool_ok_def co_change_def by auto
  ultimately show ?thesis using change_cos_ok [OF ch b im] change_stks_ok [OF ch b(1)]
    by (simp add: co_base_def)
qed

definition image_of :: "nat \<Rightarrow> coroutine \<Rightarrow> co_stack \<Rightarrow> block" where
  "image_of i c st = (if shared_stack c \<and> used_by st \<noteq> Some i
     then (case stack_copy c of None \<Rightarrow> [] | Some b \<Rightarrow> b)
     else drop (RSP (saved_ctx c) - stack_bottom st) (stack_mem st))"

lemma stack_image_of:
  "cos w i = Some c \<Longrightarrow> co_stack_ptr c = Some s \<Longrightarrow> stks w s = Some st \<Longrightarrow>
   stack_image w i = image_of i c st"
  by (simp add: stack_image_def image_of_def)

lemma change_others:
  assumes ch: "co_change w i c s st c' st'" and b: "co_base run w" and j: "j \<noteq> i"
  shows "stack_image (changed i s c' st' w) j = stack_image w j"
    "saved_registers (changed i s c' st' w) j = saved_registers w j"
proof -
  from ch have co: "cos w i = Some c" "stks w s = Some st" "co_stack_ptr c = Some s" by (simp_all add: co_change_def)
  show "stack_image (changed i s c' st' w) j = stack_image w j"
  proof (cases "cos w j")
    case None
    then show ?thesis using j by (simp add: stack_image_def)
  next
    case (Some d)
    with b obtain t tt where t: "co_stack_ptr d = Some t" "stks w t = Some tt"
      "stk_shared tt = shared_stack d" by (elim co_baseD) auto
    show ?thesis
    proof (cases "t = s")
      case False
      with Some t j show ?thesis by (simp add: stack_image_of [where st = tt])
    next
      case True
      then have "tt = st" using t co by simp
      moreover have "shared_stack d" "shared_stack c"
        using same_stack_shared [OF b Some co(1) j] t co True by simp_all
      ultimately show ?thesis using Some t j True ch
        by (auto simp: stack_image_of [where st = tt] stack_image_of [where st = st'] image_of_def co_change_def)
    qed
  qed
qed (use j in \<open>simp add: saved_registers_def\<close>)


definition kept :: "nat \<Rightarrow> world \<Rightarrow> world \<Rightarrow> bool" where
  "kept i w w' \<longleftrightarrow> saved_registers w' i = saved_registers w i \<and> stack_image w' i = stack_image w i
     \<and> map_option shared_stack (cos w' i) = map_option shared_stack (cos w i)"

definition same_images :: "world \<Rightarrow> world \<Rightarrow> bool" where
  "same_images w w' \<longleftrightarrow> (\<forall>i. kept i w w')
     \<and> sched w' = sched w \<and> current w' = current w \<and> fresh w' = fresh w"

lemma kept_refl [simp]: "kept i w w"
  by (simp add: kept_def)

lemma kept_trans: "kept i u v \<Longrightarrow> kept i v w \<Longrightarrow> kept i u w"
  by (simp add: kept_def)

lemma kept_dom: "kept i w w' \<Longrightarrow> i \<in> dom (cos w') \<longleftrightarrow> i \<in> dom (cos w)"
  unfolding kept_def saved_registers_def by (cases "cos w i"; cases "cos w' i") auto

lemma same_images_trans: "same_images u v \<Longrightarrow> same_images v w \<Longrightarrow> same_images u w"
  by (auto simp: same_images_def intro: kept_trans)

lemma change_same_images:
  assumes ch: "co_change w i c s st c' st'" and b: "co_base run w"
    and "image_of i c' st' = image_of i c st" "saved_ctx c' = saved_ctx c"
  shows "same_images w (changed i s c' st' w)"
  unfolding same_images_def kept_def
proof (intro conjI allI)
  note D = co_changeD [OF ch b]
  fix j
  show "stack_image (changed i s c' st' w) j = stack_image w j"
    "saved_registers (changed i s c' st' w) j = saved_registers w j"
    using change_others [OF ch b, of j] D assms(3,4)
    by (cases "j = i"; simp add: stack_image_of [where st = st] stack_image_of [where st = st']
      saved_registers_def)+
  show "map_option shared_stack (cos (changed i s c' st' w) j) = map_option shared_stack (cos w j)"
    using D by simp
qed (use co_changeD [OF ch b] in \<open>auto\<close>)

text \<open>The two halves of a switch: the occupant is copied out, the next coroutine copied in.\<close>

definition evicted :: "nat \<Rightarrow> coroutine \<Rightarrow> nat \<Rightarrow> co_stack \<Rightarrow> world \<Rightarrow> world" where
  "evicted u c s st w = changed u s
     (c\<lparr>stack_copy_size := stack_top st - RSP (saved_ctx c),
        stack_copy := Some (drop (RSP (saved_ctx c) - stack_bottom st) (stack_mem st))\<rparr>)
     (st\<lparr>used_by := None\<rparr>) w"

definition restored :: "nat \<Rightarrow> coroutine \<Rightarrow> nat \<Rightarrow> co_stack \<Rightarrow> world \<Rightarrow> world" where
  "restored i c s st w = changed i s (c\<lparr>stack_copy := None\<rparr>)
     (st\<lparr>stack_mem := take (length (stack_mem st) - stack_copy_size c) (stack_mem st)
           @ (case stack_copy c of None \<Rightarrow> [] | Some b \<Rightarrow> b), used_by := Some i\<rparr>) w"

lemma restore_ok:
  assumes b: "co_base None w" and co: "cos w i = Some c" "shared_stack c" "co_stack_ptr c = Some s"
    "stks w s = Some st" "used_by st = None"
  shows "co_base None (restored i c s st w) \<and> same_images w (restored i c s st w)"
proof -
  from b co have "image_ok None st i c" "stk_ok st" by (auto elim!: co_baseD)
  with co obtain m where m: "stack_copy c = Some m" "length m = stack_copy_size c"
    "stack_copy_size c \<le> length (stack_mem st)" "RSP (saved_ctx c) = stack_top st - stack_copy_size c"
    by (auto simp: image_ok_def)
  let ?c = "c\<lparr>stack_copy := None\<rparr>"
  let ?st = "st\<lparr>stack_mem := take (length (stack_mem st) - stack_copy_size c) (stack_mem st) @ m,
    used_by := Some i\<rparr>"
  have ch: "co_change w i c s st ?c ?st" using co m by (simp add: co_change_def)
  have "image_ok None ?st i ?c"
    using m by (auto simp: image_ok_def rsp_inside_def stack_top_def)
  moreover have "image_of i ?c ?st = image_of i c st"
    using m co by (simp add: image_of_def stack_top_def)
  ultimately show ?thesis
    using change_base [OF ch b] change_same_images [OF ch b] m by (simp add: restored_def)
qed

lemma evict_ok:
  assumes b: "co_base None w" and co: "cos w u = Some c" "shared_stack c" "co_stack_ptr c = Some s"
    "stks w s = Some st" "used_by st = Some u"
  shows "co_base None (evicted u c s st w) \<and> same_images w (evicted u c s st w)"
proof -
  from b co have im: "image_ok None st u c" "stk_ok st" by (auto elim!: co_baseD)
  with co have r: "rsp_inside st (RSP (saved_ctx c))" by (simp add: image_ok_def)
  let ?c = "c\<lparr>stack_copy_size := stack_top st - RSP (saved_ctx c),
        stack_copy := Some (drop (RSP (saved_ctx c) - stack_bottom st) (stack_mem st))\<rparr>"
  let ?st = "st\<lparr>used_by := None\<rparr>"
  have ch: "co_change w u c s st ?c ?st" using co by (simp add: co_change_def)
  have "image_ok None ?st u ?c"
    using r by (auto simp: image_ok_def rsp_inside_def stack_top_def)
  moreover have "image_of u ?c ?st = image_of u c st"
    using co by (simp add: image_of_def)
  ultimately show ?thesis
    using change_base [OF ch b] change_same_images [OF ch b] by (simp add: evicted_def)
qed

lemma co_base_upd [simp]:
  "co_base run (w\<lparr>sched := q\<rparr>) = co_base run w"
  "co_base run (w\<lparr>current := p\<rparr>) = co_base run w"
  "co_base run (w\<lparr>cpu := x\<rparr>) = co_base run w"
  "co_base run (w\<lparr>shared_stack_alloc_count := n\<rparr>) = co_base run w"
  by (simp_all add: co_base_def cos_ok_def stks_ok_def owned_ok_def pool_ok_def)

lemma image_upd [simp]:
  "stack_image (w\<lparr>sched := q\<rparr>) = stack_image w" "saved_registers (w\<lparr>sched := q\<rparr>) = saved_registers w"
  "stack_image (w\<lparr>current := p\<rparr>) = stack_image w" "saved_registers (w\<lparr>current := p\<rparr>) = saved_registers w"
  "stack_image (w\<lparr>cpu := x\<rparr>) = stack_image w" "saved_registers (w\<lparr>cpu := x\<rparr>) = saved_registers w"
  "stack_image (w\<lparr>shared_stack_alloc_count := n\<rparr>) = stack_image w"
  "saved_registers (w\<lparr>shared_stack_alloc_count := n\<rparr>) = saved_registers w"
  by (simp_all add: stack_image_def saved_registers_def fun_eq_iff cong: option.case_cong)

lemma co_base_run:
  "co_base None w \<Longrightarrow> co_base run w"
  unfolding co_base_def cos_ok_def by (auto simp: image_ok_def) fastforce

definition occupies :: "nat \<Rightarrow> world \<Rightarrow> bool" where
  "occupies i w \<longleftrightarrow> (\<exists>c s st. cos w i = Some c \<and> co_stack_ptr c = Some s \<and> stks w s = Some st
     \<and> (shared_stack c \<longrightarrow> used_by st = Some i))"

lemma swap_evict:
  assumes "cos w i = Some c" "cos w u = Some d" "i \<noteq> u" "co_stack_ptr c = Some s"
    "co_stack_ptr d = Some s" "stks w s = Some st" "rsp_inside st (RSP (saved_ctx d))" "stk_ok st"
    "stack_copy c = Some b" "length b = stack_copy_size c" "stack_copy_size c \<le> length (stack_mem st)"
  shows "and_then (save_stack u w) (restore_stack i) =
    Inr (restored i c s (st\<lparr>used_by := None\<rparr>) (evicted u d s st w))"
  using assms
  by (simp add: save_stack_Inr restore_stack_Inr restored_def evicted_def changed_def set_co_def set_stk_def
      fun_upd_twist)

lemma swap_ok:
  assumes b: "co_base None w" and co: "cos w i = Some c" "shared_stack c"
  shows "\<exists>w'. co_swap_in i w = Inr w' \<and> co_base None w' \<and> same_images w w' \<and> occupies i w'"
proof -
  from b co obtain s st where s: "co_stack_ptr c = Some s" "stks w s = Some st" "stk_shared st"
    "image_ok None st i c" "stk_ok st" by (elim co_baseD) auto
  have swap: "co_swap_in i w = (if used_by st = Some i then Inr w
     else and_then (case used_by st of None \<Rightarrow> Inr w | Some u \<Rightarrow> save_stack u w) (restore_stack i))"
    using co s by (auto simp: co_swap_in_def in_stack_def split: option.splits)
  consider "used_by st = Some i" | "used_by st = None" | u where "used_by st = Some u" "u \<noteq> i"
    by (cases "used_by st") auto
  then show ?thesis
  proof cases
    case 1
    with b co s swap show ?thesis by (auto simp: occupies_def same_images_def)
  next
    case 2
    with s(4) obtain m where "stack_copy c = Some m" "length m = stack_copy_size c"
      "stack_copy_size c \<le> length (stack_mem st)" by (auto simp: image_ok_def)
    with 2 co s swap have "co_swap_in i w = Inr (restored i c s st w)"
      by (simp add: restore_stack_Inr restored_def changed_def)
    with restore_ok [OF b co s(1,2) 2] show ?thesis
      using s(1) co by (auto simp: occupies_def restored_def)
  next
    case 3
    obtain d where d: "cos w u = Some d" "co_stack_ptr d = Some s" "shared_stack d"
      using occupant [OF b s(2,3) 3(1)] by blast
    with b s 3 have "rsp_inside st (RSP (saved_ctx d))"
      by (auto simp: image_ok_def elim!: co_baseD)
    moreover from 3 s(4) obtain m where "stack_copy c = Some m" "length m = stack_copy_size c"
      "stack_copy_size c \<le> length (stack_mem st)" by (auto simp: image_ok_def)
    ultimately have eq: "co_swap_in i w =
        Inr (restored i c s (st\<lparr>used_by := None\<rparr>) (evicted u d s st w))"
      using swap 3 swap_evict [of w i c u d s st] co d s by simp
    let ?v = "evicted u d s st w"
    have v: "co_base None ?v" "same_images w ?v" using evict_ok [OF b d(1,3,2) s(2) 3(1)] by simp_all
    have "cos ?v i = Some c" "stks ?v s = Some (st\<lparr>used_by := None\<rparr>)"
      using 3 co by (simp_all add: evicted_def)
    from restore_ok [OF v(1) this(1) co(2) s(1) this(2)] v(2) eq show ?thesis
      using s(1) co by (auto simp: occupies_def restored_def intro: same_images_trans)
  qed
qed


lemma kept_upd [simp]:
  "kept i w (w'\<lparr>sched := q\<rparr>) = kept i w w'" "kept i (w\<lparr>sched := q\<rparr>) w' = kept i w w'"
  "kept i w (w'\<lparr>current := p\<rparr>) = kept i w w'" "kept i (w\<lparr>current := p\<rparr>) w' = kept i w w'"
  "kept i w (w'\<lparr>cpu := x\<rparr>) = kept i w w'" "kept i (w\<lparr>cpu := x\<rparr>) w' = kept i w w'"
  "kept i w (w'\<lparr>shared_stack_alloc_count := n\<rparr>) = kept i w w'"
  by (simp_all add: kept_def)

lemma co_sched_ok:
  assumes b: "co_base None w" and q: "sched w = Some (Some i # q)" and i: "i \<in> dom (cos w)"
  shows "\<exists>w'. co_sched w = Inr w' \<and> co_base (Some i) w' \<and> (\<forall>j. kept j w w') \<and> cur_ok w'
    \<and> current w' = Some i \<and> sched w' = Some q \<and> fresh w' = fresh w
    \<and> saved_registers w i = Some (cpu w')"
proof -
  from i obtain c where c: "cos w i = Some c" by blast
  let ?w = "w\<lparr>sched := Some q, current := Some i\<rparr>"
  have b': "co_base None ?w" using b by simp
  obtain v where v: "(if shared_stack c then co_swap_in i ?w else Inr ?w) = Inr v"
    "co_base None v" "same_images ?w v" "occupies i v"
  proof (cases "shared_stack c")
    case True
    with swap_ok [OF b', of i c] c that show ?thesis by auto
  next
    case False
    with b' c that [of ?w] show ?thesis
      by (auto simp: same_images_def occupies_def elim!: co_baseD)
  qed
  from v(4) obtain d s st where d: "cos v i = Some d" "co_stack_ptr d = Some s" "stks v s = Some st"
    "shared_stack d \<Longrightarrow> used_by st = Some i" by (auto simp: occupies_def)
  let ?v = "v\<lparr>cpu := saved_ctx d\<rparr>"
  have run: "co_sched w = Inr ?v"
    using q c v d by (simp add: co_sched_def rr_dequeue_def Let_def load_context_def same_images_def)
  have "kept i w v" using v(3) by (simp add: same_images_def)
  then have regs: "saved_registers w i = Some (saved_ctx d)"
    using d by (simp add: kept_def saved_registers_def)
  have "shared_stack d \<Longrightarrow> rsp_inside st (RSP (saved_ctx d))"
    using v(2) d by (auto simp: image_ok_def elim!: co_baseD)
  with d v(3) have "cur_ok ?v"
    by (auto simp: cur_ok_def same_images_def)
  with run regs v(2,3) co_base_run show ?thesis
    by (auto simp: same_images_def)
qed

lemma co_invD:
  assumes "co_inv m w"
  obtains i c s st q where "current w = Some i" "cos w i = Some c" "co_stack_ptr c = Some s"
    "stks w s = Some st" "co_base (Some i) w"
    "shared_stack c \<Longrightarrow> used_by st = Some i \<and> rsp_inside st (RSP (cpu w))"
    "sched w = Some q" "distinct q" "set q \<subseteq> Some ` dom (cos w)" "Some i \<notin> set q"
    "m = i \<or> Some m \<in> set q" "\<exists>d. cos w m = Some d \<and> \<not> shared_stack d"
  using assms unfolding co_inv_def cur_ok_def queue_ok_def
  by (smt (verit) option.inject)

lemma save_ok:
  assumes "co_inv m w" and "current w = Some i"
  shows "\<exists>w'. save_context im w = Inr w' \<and> co_base None w' \<and> (\<forall>j. j \<noteq> i \<longrightarrow> kept j w w')
    \<and> dom (cos w') = dom (cos w) \<and> current w' = current w \<and> sched w' = sched w \<and> fresh w' = fresh w
    \<and> saved_registers w' i = Some ((cpu w)\<lparr>RIP := at_retaddr im\<rparr>)
    \<and> map_option shared_stack (cos w' i) = map_option shared_stack (cos w i)
    \<and> map_option co_stack_ptr (cos w' i) = map_option co_stack_ptr (cos w i) \<and> stks w' = stks w"
  using assms(1)
proof (rule co_invD)
  fix i' c s st q
  assume D: "current w = Some i'" "cos w i' = Some c" "co_stack_ptr c = Some s" "stks w s = Some st"
    and b: "co_base (Some i') w"
    and r: "shared_stack c \<Longrightarrow> used_by st = Some i' \<and> rsp_inside st (RSP (cpu w))"
  with assms have [simp]: "i' = i" by simp
  let ?c = "c\<lparr>saved_ctx := (cpu w)\<lparr>RIP := at_retaddr im\<rparr>\<rparr>"
  have ch: "co_change w i c s st ?c st" using D r by (auto simp: co_change_def)
  have upd: "set_co i ?c w = changed i s ?c st w"
    using D by (simp add: changed_def set_stk_def set_co_def fun_upd_idem)
  have "image_ok None st i ?c" if "shared_stack c"
    using r that b D by (auto simp: image_ok_def elim!: co_baseD)
  from change_base [OF ch b _ _ this] have "co_base None (changed i s ?c st w)" by simp
  moreover have "kept j w (changed i s ?c st w)" if "j \<noteq> i" for j
    using change_others [OF ch b that] that by (simp add: kept_def)
  ultimately show ?thesis
    using D upd by (auto simp: save_context_def saved_registers_def)
qed

definition resumed :: "world \<Rightarrow> bool" where
  "resumed w \<longleftrightarrow> (\<forall>i. current w = Some i \<longrightarrow> saved_registers w i = Some (cpu w))"

lemma resume_ok:
  assumes b: "co_base None w" and q: "sched w = Some q" "distinct q" "set q \<subseteq> Some ` dom (cos w)"
    and m: "Some m \<in> set q" "map_option shared_stack (cos w m) = Some False"
  shows "\<exists>i w'. hd q = Some i \<and> co_sched w = Inr w' \<and> co_inv m w' \<and> (\<forall>j. kept j w w') \<and> fresh w' = fresh w
    \<and> current w' = Some i \<and> sched w' = Some (tl q) \<and> resumed w'"
proof -
  from m q obtain i q' where iq: "q = Some i # q'" "i \<in> dom (cos w)" by (cases q) auto
  from co_sched_ok [OF b _ this(2)] q iq obtain w' where w': "co_sched w = Inr w'"
    "co_base (Some i) w'" "\<forall>j. kept j w w'" "cur_ok w'" "current w' = Some i" "sched w' = Some q'"
    "fresh w' = fresh w" "saved_registers w i = Some (cpu w')"
    by auto
  have d: "dom (cos w') = dom (cos w)" using w'(3) kept_dom by blast
  have "map_option shared_stack (cos w' m) = Some False" using w'(3) m by (simp add: kept_def)
  then have "\<exists>c. cos w' m = Some c \<and> \<not> shared_stack c" by auto
  with w' q m iq d have "queue_ok m w'" by (auto simp: queue_ok_def)
  moreover have "resumed w'" using w' by (simp add: resumed_def kept_def)
  ultimately show ?thesis using w' iq by (auto simp: co_inv_def)
qed

definition without_stack :: "nat \<Rightarrow> coroutine \<Rightarrow> nat \<Rightarrow> co_stack \<Rightarrow> world \<Rightarrow> nat \<Rightarrow> co_stack option" where
  "without_stack i c s st w =
     (if \<not> shared_stack c then (stks w)(s := None)
      else if used_by st = Some i then (stks w)(s := Some (st\<lparr>used_by := None\<rparr>)) else stks w)"

lemma coroutine_delete_Inr:
  "cos w i = Some c \<Longrightarrow> co_stack_ptr c = Some s \<Longrightarrow> stks w s = Some st \<Longrightarrow>
   coroutine_delete (Some i) w =
     Inr (w\<lparr>stks := without_stack i c s st w, cos := (cos w)(i := None)\<rparr>)"
  by (simp add: coroutine_delete_def without_stack_def set_stk_def)

lemma without_stack_other:
  assumes b: "co_base run w" and i: "cos w i = Some c" "co_stack_ptr c = Some s" "stks w s = Some st"
    and j: "cos w j = Some d" "j \<noteq> i" "co_stack_ptr d = Some t" "stks w t = Some tt"
  shows "without_stack i c s st w t = Some (if shared_stack c \<and> t = s \<and> used_by tt = Some i
    then tt\<lparr>used_by := None\<rparr> else tt)"
proof (cases "t = s")
  case True
  then have "shared_stack c" using same_stack_shared [OF b i(1) j(1)] i j by simp
  with True i j show ?thesis by (simp add: without_stack_def)
next
  case False
  with j show ?thesis by (simp add: without_stack_def)
qed

lemma without_stack_stks:
  assumes b: "co_base run w" and i: "cos w i = Some c" "co_stack_ptr c = Some s" "stks w s = Some st"
    and t: "without_stack i c s st w t = Some tt"
  shows "t < fresh w" "stk_ok tt" "stk_shared tt \<Longrightarrow> used_by tt = Some u \<Longrightarrow>
    u \<noteq> i \<and> (\<exists>d. cos w u = Some d \<and> co_stack_ptr d = Some t \<and> shared_stack d)"
proof -
  have sok: "stks w t = Some x \<Longrightarrow> t < fresh w \<and> stk_ok x" for t x
    using b by (simp add: co_base_def stks_ok_def)
  have top: "stk_ok (st\<lparr>used_by := None\<rparr>) = stk_ok st"
    by (simp add: stk_ok_def stack_top_def)
  show "t < fresh w" "stk_ok tt"
    using t sok i top by (auto simp: without_stack_def split: if_splits)
  assume "stk_shared tt" "used_by tt = Some u"
  with t have tt: "stks w t = Some tt"
    by (auto simp: without_stack_def split: if_splits)
  from occupant [OF b this \<open>stk_shared tt\<close> \<open>used_by tt = Some u\<close>]
  obtain d where d: "cos w u = Some d" "co_stack_ptr d = Some t" "shared_stack d" .
  have "u \<noteq> i"
  proof
    assume "u = i"
    with d i tt have "c = d" "t = s" "st = tt" by auto
    with t d \<open>u = i\<close> \<open>used_by tt = Some u\<close> have "used_by (tt\<lparr>used_by := None\<rparr>) = Some i"
      by (auto simp: without_stack_def)
    then show False by simp
  qed
  with d show "u \<noteq> i \<and> (\<exists>d. cos w u = Some d \<and> co_stack_ptr d = Some t \<and> shared_stack d)" by blast
qed

lemma delete_base:
  assumes b: "co_base run w" "run \<noteq> Some i \<longrightarrow> run = run'" and i: "cos w i = Some c" "co_stack_ptr c = Some s" "stks w s = Some st"
    and p: "w' = w\<lparr>stks := without_stack i c s st w, cos := (cos w)(i := None)\<rparr>"
  shows "co_base run' w'" "j \<noteq> i \<Longrightarrow> kept j w w'"
    "cur_ok w \<Longrightarrow> current w \<noteq> Some i \<Longrightarrow> cur_ok w'"
proof -
  have other: "\<exists>t tt tt'. co_stack_ptr d = Some t \<and> stks w t = Some tt \<and> stks w' t = Some tt'
     \<and> tt' = (if shared_stack c \<and> t = s \<and> used_by tt = Some i then tt\<lparr>used_by := None\<rparr> else tt)
     \<and> stk_shared tt = shared_stack d \<and> j < fresh w \<and> (shared_stack d \<longrightarrow> image_ok run tt j d)"
    if "cos w j = Some d" "j \<noteq> i" for j d
    using b(1) that(1)
  proof (rule co_baseD)
    fix t tt assume "co_stack_ptr d = Some t" "stks w t = Some tt" "stk_shared tt = shared_stack d"
      "j < fresh w" "shared_stack d \<Longrightarrow> image_ok run tt j d"
    with without_stack_other [OF b(1) i that, of t tt] p show ?thesis by simp
  qed
  show kept: "kept j w w'" if "j \<noteq> i" for j
  proof (cases "cos w j")
    case None
    with that p show ?thesis by (simp add: kept_def stack_image_def saved_registers_def)
  next
    case (Some d)
    from other [OF this that] obtain t tt tt' where t: "co_stack_ptr d = Some t" "stks w t = Some tt"
      "stks w' t = Some tt'" and tt': "tt' = (if shared_stack c \<and> t = s \<and> used_by tt = Some i
        then tt\<lparr>used_by := None\<rparr> else tt)" by blast
    from tt' that have "image_of j d tt' = image_of j d tt"
      by (auto simp: image_of_def)
    moreover have "cos w' j = Some d" using Some that p by simp
    ultimately show ?thesis
      using Some by (simp add: kept_def saved_registers_def stack_image_of [OF _ t(1,2)] stack_image_of [OF _ t(1,3)])
  qed
  have "cos_ok run' w'"
    unfolding cos_ok_def
  proof (intro allI impI)
    fix j d assume j: "cos w' j = Some d"
    with p have "cos w j = Some d" "j \<noteq> i" by (auto split: if_splits)
    from other [OF this] obtain t tt tt' where t: "co_stack_ptr d = Some t" "stks w' t = Some tt'"
      and tt': "tt' = (if shared_stack c \<and> t = s \<and> used_by tt = Some i
        then tt\<lparr>used_by := None\<rparr> else tt)"
      and im: "stk_shared tt = shared_stack d" "j < fresh w" "shared_stack d \<longrightarrow> image_ok run tt j d" by blast
    have "image_ok run' tt' j d" if "shared_stack d"
      using im(3) that b(2) \<open>j \<noteq> i\<close> tt' by (auto simp: image_ok_def stack_top_def)
    with t tt' im p show "j < fresh w' \<and> (\<exists>s st. co_stack_ptr d = Some s \<and> stks w' s = Some st
      \<and> stk_shared st = shared_stack d \<and> (shared_stack d \<longrightarrow> image_ok run' st j d))" by simp
  qed
  moreover have "stks_ok w'"
    unfolding stks_ok_def
  proof (intro allI impI)
    fix t tt assume "stks w' t = Some tt"
    then have t: "without_stack i c s st w t = Some tt" by (simp add: p)
    show "t < fresh w' \<and> stk_ok tt \<and> (\<forall>u. stk_shared tt \<and> used_by tt = Some u \<longrightarrow>
      (\<exists>c. cos w' u = Some c \<and> co_stack_ptr c = Some t \<and> shared_stack c))"
      using without_stack_stks [OF b(1) i t] by (simp add: p)
  qed
  moreover have "owned_ok w'"
    using same_stack_shared [OF b(1)] unfolding owned_ok_def p by (simp split: if_splits) metis
  moreover have "pool_ok w'"
  proof -
    have "stk_shared st = shared_stack c" using b(1) i by (auto elim!: co_baseD)
    moreover from b(1) obtain k tt where "shared_stack_pool w = [k]" "stks w k = Some tt" "stk_shared tt"
      by (auto simp: co_base_def pool_ok_def)
    ultimately show ?thesis using i by (auto simp: pool_ok_def p without_stack_def)
  qed
  ultimately show "co_base run' w'" by (simp add: co_base_def)
  assume cur: "cur_ok w" "current w \<noteq> Some i"
  then obtain j d t tt where j: "current w = Some j" "cos w j = Some d" "co_stack_ptr d = Some t"
    "stks w t = Some tt" "shared_stack d \<longrightarrow> used_by tt = Some j \<and> rsp_inside tt (RSP (cpu w))"
    by (auto simp: cur_ok_def)
  moreover have "j \<noteq> i" using cur j by simp
  ultimately show "cur_ok w'"
    using without_stack_other [OF b(1) i j(2) _ j(3,4)] by (auto simp: cur_ok_def p)
qed

lemma Run_ok:
  assumes inv: "co_inv m w" and al: "run_allowed ctx mem w"
  shows "\<exists>w'. co_run ctx mem w = Inr w' \<and> co_inv m w' \<and> (\<forall>j. current w \<noteq> Some j \<longrightarrow> kept j w w')
    \<and> current w' = current w \<and> fresh w' = fresh w"
  using inv
proof (rule co_invD)
  fix i c s st q
  assume D: "current w = Some i" "cos w i = Some c" "co_stack_ptr c = Some s" "stks w s = Some st"
    and b: "co_base (Some i) w"
    and r: "shared_stack c \<Longrightarrow> used_by st = Some i \<and> rsp_inside st (RSP (cpu w))"
  from al D have al: "length mem = length (stack_mem st)" "shared_stack c \<Longrightarrow> rsp_inside st (RSP ctx)"
    by (auto simp: run_allowed_def)
  let ?st = "st\<lparr>stack_mem := mem\<rparr>"
  have ch: "co_change w i c s st c ?st" using D r al by (auto simp: co_change_def)
  have upd: "set_stk s ?st (w\<lparr>cpu := ctx\<rparr>) = (changed i s c ?st w)\<lparr>cpu := ctx\<rparr>"
    using D by (simp add: changed_def set_stk_def set_co_def fun_upd_idem)
  have "image_ok (Some i) ?st i c" if "shared_stack c"
    using r that b D by (auto simp: image_ok_def elim!: co_baseD)
  from change_base [OF ch b _ _ this] have "co_base (Some i) (changed i s c ?st w)" by simp
  moreover have "kept j w (changed i s c ?st w)" if "j \<noteq> i" for j
    using change_others [OF ch b that] that by (simp add: kept_def)
  moreover have "cur_ok ((changed i s c ?st w)\<lparr>cpu := ctx\<rparr>)"
    using D r al by (auto simp: cur_ok_def rsp_inside_def stack_top_def)
  moreover have "cos (changed i s c ?st w) = cos w" using D by (simp add: fun_upd_idem)
  then have "queue_ok m ((changed i s c ?st w)\<lparr>cpu := ctx\<rparr>)"
    using inv by (simp add: co_inv_def queue_ok_def)
  ultimately show ?thesis
    using D upd by (auto simp: co_run_def co_inv_def)
qed

definition live_stack :: "world \<Rightarrow> block" where
  "live_stack w = (case deref (cos w) (current w) of Inl _ \<Rightarrow> []
     | Inr c \<Rightarrow> (case deref (stks w) (co_stack_ptr c) of Inl _ \<Rightarrow> []
       | Inr st \<Rightarrow> drop (RSP (cpu w) - stack_bottom st) (stack_mem st)))"

lemma live_resumed:
  assumes "cur_ok w" "resumed w" "current w = Some i"
  shows "live_stack w = stack_image w i"
  using assms by (auto simp: live_stack_def cur_ok_def stack_image_of image_of_def resumed_def saved_registers_def)

lemma live_saved:
  assumes inv: "co_inv m w" and cur: "current w = Some i" and sv: "save_context im w = Inr w'"
  shows "stack_image w' i = live_stack w"
  using inv
proof (rule co_invD)
  fix j c s st q
  assume D: "current w = Some j" "cos w j = Some c" "co_stack_ptr c = Some s" "stks w s = Some st"
    "shared_stack c \<Longrightarrow> used_by st = Some j \<and> rsp_inside st (RSP (cpu w))"
  have "w' = (set_co j (c\<lparr>saved_ctx := (cpu w)\<lparr>RIP := at_retaddr im\<rparr>\<rparr>) w)\<lparr>cpu := (cpu w)\<lparr>RSP := at_static_stack im\<rparr>\<rparr>"
    using sv D by (simp add: save_context_def)
  with D cur show ?thesis by (auto simp: stack_image_def live_stack_def set_co_def)
qed

definition suspended ::
    "image \<Rightarrow> nat \<Rightarrow> world \<Rightarrow> nat \<Rightarrow> nat option list \<Rightarrow> world \<Rightarrow> bool" where
  "suspended im m w i q w' \<longleftrightarrow> current w = Some i \<and> save_context im w = Inr w' \<and> co_base None w'
    \<and> sched w' = Some q \<and> sched w = Some q
    \<and> distinct q \<and> set q \<subseteq> Some ` dom (cos w') \<and> Some i \<notin> set q \<and> (i = m \<or> Some m \<in> set q)
    \<and> map_option shared_stack (cos w' m) = Some False \<and> i \<in> dom (cos w')
    \<and> (\<forall>j. j \<noteq> i \<longrightarrow> kept j w w') \<and> dom (cos w') = dom (cos w) \<and> current w' = Some i
    \<and> fresh w' = fresh w \<and> saved_registers w' i = Some ((cpu w)\<lparr>RIP := at_retaddr im\<rparr>)"

lemma suspend_ok:
  assumes inv: "co_inv m w" 
  shows "\<exists>i q w'. suspended im m w i q w'"
  using inv
proof (rule co_invD)
  fix i c s st q
  assume D: "current w = Some i" "cos w i = Some c" "sched w = Some q" "distinct q"
    "set q \<subseteq> Some ` dom (cos w)" "Some i \<notin> set q" "m = i \<or> Some m \<in> set q"
    "\<exists>d. cos w m = Some d \<and> \<not> shared_stack d"
  from save_ok [OF inv D(1)] obtain v where v: "save_context im w = Inr v" "co_base None v"
    "\<forall>j. j \<noteq> i \<longrightarrow> kept j w v" "dom (cos v) = dom (cos w)" "current v = current w" "sched v = sched w"
    "fresh v = fresh w" "saved_registers v i = Some ((cpu w)\<lparr>RIP := at_retaddr im\<rparr>)"
    "map_option shared_stack (cos v i) = map_option shared_stack (cos w i)" by blast
  have "map_option shared_stack (cos v m) = Some False"
    using v(3,9) D(8) by (cases "m = i") (auto simp: kept_def)
  with v D show ?thesis by (auto simp: suspended_def)
qed

lemma Resched_ok:
  assumes inv: "co_inv m w"
  shows "\<exists>w'. co_resched im w = Inr w' \<and> co_inv m w' \<and> (\<forall>j. current w \<noteq> Some j \<longrightarrow> kept j w w')
    \<and> fresh w' = fresh w \<and> resumed w' \<and> current w' # the (sched w') = the (sched w) @ [current w]"
proof -
  obtain i q v where "suspended im m w i q v" using suspend_ok [OF inv] by blast
  note v = this [unfolded suspended_def]
  from v have a: "set q \<subseteq> Some ` dom (cos v)" "i \<in> dom (cos v)" "distinct q" "Some i \<notin> set q"
    "i = m \<or> Some m \<in> set q" "map_option shared_stack (cos v m) = Some False" "co_base None v" by blast+
  then have r: "set (q @ [Some i]) \<subseteq> Some ` dom (cos v)" "distinct (q @ [Some i])"
    "Some m \<in> set (q @ [Some i])" by auto
  let ?v = "v\<lparr>sched := Some (q @ [Some i])\<rparr>"
  have "\<exists>j w'. hd (q @ [Some i]) = Some j \<and> co_sched ?v = Inr w' \<and> co_inv m w' \<and> (\<forall>j. kept j ?v w')
    \<and> fresh w' = fresh ?v \<and> current w' = Some j \<and> sched w' = Some (tl (q @ [Some i]))
    \<and> resumed w'"
    by (rule resume_ok) (use r a in simp_all)
  then obtain j w' where w': "hd (q @ [Some i]) = Some j" "co_sched ?v = Inr w'" "co_inv m w'"
    "\<forall>j. kept j v w'" "fresh w' = fresh v" "current w' = Some j" "resumed w'"
    "sched w' = Some (tl (q @ [Some i]))" by auto
  with w' v have "current w' # the (sched w') = the (sched w) @ [current w]"
    by (metis hd_Cons_tl option.sel snoc_eq_iff_butlast)
  moreover have "co_resched im w = Inr w'"
    using v w' by (simp add: co_resched_def co_post_def rr_enqueue_def)
  ultimately show ?thesis using v w' by (auto intro: kept_trans)
qed

end
