(* ===== verification/Co_Library.thy ===== *)
theory Co_Library
  imports Co_Switch
begin

text \<open>
  The coroutine library as its callers see it: each function of \<open>coroutine.cpp\<close> succeeds and keeps
  the invariant when the callers keep the discipline of \<open>co_allowed\<close>, a coroutine that yields finds
  its registers and stack again when it is resumed, and what happens when the discipline is broken.
\<close>

lemma Yield_ok:
  assumes inv: "co_inv m w" and cur: "current w = Some i" "i \<noteq> m"
  shows "\<exists>w'. co_yield im w = Inr (Some i, w') \<and> co_inv m w'
    \<and> (\<forall>j. current w \<noteq> Some j \<longrightarrow> kept j w w') \<and> fresh w' = fresh w \<and> parked i w' \<and> resumed w' \<and> stack_image w' i = live_stack w
    \<and> saved_registers w' i = Some ((cpu w)\<lparr>RIP := at_retaddr im\<rparr>)"
proof -
  obtain q v where "suspended im m w i q v"
    using suspend_ok [OF inv] cur unfolding suspended_def by force
  with cur have v: "save_context im w = Inr v"
    "co_base None v" "sched v = Some q" "distinct q" "set q \<subseteq> Some ` dom (cos v)" "Some i \<notin> set q"
    "Some m \<in> set q" "map_option shared_stack (cos v m) = Some False" "i \<in> dom (cos v)"
    "\<forall>j. j \<noteq> i \<longrightarrow> kept j w v" "fresh v = fresh w"
    "saved_registers v i = Some ((cpu w)\<lparr>RIP := at_retaddr im\<rparr>)"
    by (auto simp: suspended_def)
  from resume_ok [OF v(2-5,7,8)] obtain j w' where w': "hd q = Some j" "co_sched v = Inr w'"
    "co_inv m w'" "\<forall>j. kept j v w'" "fresh w' = fresh v" "current w' = Some j" "sched w' = Some (tl q)"
    "resumed w'"
    by blast
  have "stack_image w' i = live_stack w"
    using live_saved [OF inv cur(1) v(1)] w'(4) by (simp add: kept_def)
  have "q \<noteq> []" using v by auto
  with w' v have "Some i \<noteq> Some j" "Some i \<notin> set (tl q)" by (cases q; auto)+
  moreover have "i \<in> dom (cos w')" using w'(4) v(9) kept_dom by blast
  ultimately have "parked i w'" using w' by (simp add: parked_def queued_def)
  moreover have "saved_registers w' i = saved_registers v i" using w'(4) by (simp add: kept_def)
  ultimately show ?thesis using v w' cur \<open>stack_image w' i = live_stack w\<close>
    by (auto simp: co_yield_def intro: kept_trans)
qed

lemma Exit_ok:
  assumes inv: "co_inv m w" and cur: "current w \<noteq> Some m"
  shows "\<exists>w'. co_exit im w = Inr w' \<and> co_inv m w' \<and> (\<forall>j. current w \<noteq> Some j \<longrightarrow> kept j w w')
    \<and> fresh w' = fresh w \<and> resumed w'"
  using inv
proof (rule co_invD)
  fix i c s st q
  assume D: "current w = Some i" "cos w i = Some c" "co_stack_ptr c = Some s" "stks w s = Some st"
    and b: "co_base (Some i) w" and q: "sched w = Some q" "distinct q"
    "set q \<subseteq> Some ` dom (cos w)" "Some i \<notin> set q" "m = i \<or> Some m \<in> set q"
    "\<exists>d. cos w m = Some d \<and> \<not> shared_stack d"
  let ?u = "w\<lparr>cpu := (cpu w)\<lparr>RSP := at_static_stack im\<rparr>\<rparr>"
  let ?v = "?u\<lparr>stks := without_stack i c s st ?u, cos := (cos w)(i := None)\<rparr>"
  have del: "co_destroy (current ?u) ?u = Inr ?v"
    using D by (simp add: co_destroy_def coroutine_delete_Inr)
  have b': "co_base (Some i) ?u" using b by simp
  have bv: "co_base None ?v" and kv: "j \<noteq> i \<Longrightarrow> kept j ?u ?v" for j
    using delete_base(1,2) [OF b', where i = i and c = c and s = s and st = st] D by simp_all
  have "map_option shared_stack (cos ?v m) = Some False" using q cur D by auto
  moreover have "set q \<subseteq> Some ` dom (cos ?v)" using q by auto
  ultimately obtain w' where w': "co_sched ?v = Inr w'" "co_inv m w'" "\<forall>j. kept j ?v w'"
    "fresh w' = fresh ?v" "resumed w'"
    using resume_ok [OF bv, of q m] q cur D by auto
  then have "co_exit im w = Inr w'" using del by (simp add: co_exit_def Let_def)
  moreover have "kept j w w'" if "j \<noteq> i" for j
    using kv [OF that] w'(3) kept_trans [of j w ?v w'] by simp
  ultimately show ?thesis using w' D by auto
qed

lemma Post_ok:
  assumes inv: "co_inv m w" and "parked i w"
  shows "\<exists>w'. co_post (Some i) w = Inr w' \<and> co_inv m w' \<and> (\<forall>j. kept j w w') \<and> fresh w' = fresh w
    \<and> current w' = current w"
proof -
  from inv obtain q where q: "sched w = Some q" "distinct q" "set q \<subseteq> Some ` dom (cos w)"
    "current w \<notin> set q" "\<exists>c. cos w m = Some c \<and> \<not> shared_stack c" "current w = Some m \<or> Some m \<in> set q"
    by (auto simp: co_inv_def queue_ok_def)
  let ?w = "w\<lparr>sched := Some (q @ [Some i])\<rparr>"
  have "queue_ok m ?w"
    using q assms(2) by (auto simp: queue_ok_def parked_def queued_def)
  moreover have "cur_ok ?w" using inv by (simp add: co_inv_def cur_ok_def)
  ultimately show ?thesis using inv q by (auto simp: co_post_def rr_enqueue_def co_inv_def)
qed

lemma queue_without: "set q \<subseteq> Some ` D \<Longrightarrow> Some i \<notin> set q \<Longrightarrow> set q \<subseteq> Some ` (D - {i})"
  by auto

lemma Destroy_ok:
  assumes inv: "co_inv m w" and i: "parked i w" "i \<noteq> m"
  shows "\<exists>w'. co_destroy (Some i) w = Inr w' \<and> co_inv m w' \<and> (\<forall>j. j \<noteq> i \<longrightarrow> kept j w w')
    \<and> i \<notin> dom (cos w') \<and> fresh w' = fresh w \<and> current w' = current w"
proof -
  from i obtain c where c: "cos w i = Some c" by (auto simp: parked_def)
  from inv have b: "co_base (current w) w" by (simp add: co_inv_def)
  with c obtain s st where s: "co_stack_ptr c = Some s" "stks w s = Some st" by (elim co_baseD) auto
  let ?w = "w\<lparr>stks := without_stack i c s st w, cos := (cos w)(i := None)\<rparr>"
  have run: "current w \<noteq> Some i \<longrightarrow> current w = current w" by simp
  note del = delete_base [OF b run c s refl]
  have "queue_ok m ?w"
    using inv i queue_without [of _ "dom (cos w)" i]
    by (auto simp: co_inv_def queue_ok_def parked_def queued_def)
  moreover have "cur_ok ?w" using del(3) inv i by (simp add: co_inv_def parked_def)
  ultimately have "co_inv m ?w" using del(1) by (simp add: co_inv_def)
  then show ?thesis using del(2) c s by (auto simp: co_destroy_def coroutine_delete_Inr)
qed

lemma fresh_notin: "co_base run w \<Longrightarrow> cos w (fresh w) = None"
  unfolding co_base_def cos_ok_def by (metis less_irrefl option.exhaust)

lemma fresh_stk_notin: "co_base run w \<Longrightarrow> fresh w \<le> s \<Longrightarrow> stks w s = None"
  unfolding co_base_def stks_ok_def by (metis leD option.exhaust)

text \<open>A new coroutine, on a stack of its own or on a shared one.\<close>

lemma create_private:
  assumes b: "co_base run w" and k: "k = fresh w" "s = Suc k"
    and c: "\<not> shared_stack c" "co_stack_ptr c = Some s" and st: "stk_ok st" "\<not> stk_shared st"
    and w': "w' = w\<lparr>fresh := Suc s, cos := (cos w)(k := Some c), stks := (stks w)(s := Some st)\<rparr>"
  shows "co_base run w'" "j \<noteq> k \<Longrightarrow> kept j w w'" "cur_ok w \<Longrightarrow> cur_ok w'"
proof -
  have n: "cos w k = None" "stks w s = None" using b k fresh_notin fresh_stk_notin by simp_all
  have other: "t \<noteq> s" if "cos w j = Some d" "co_stack_ptr d = Some t" for j d t
    using b that n by (auto elim!: co_baseD)
  have "cos_ok run w'"
    unfolding cos_ok_def
  proof (intro allI impI)
    fix j d assume j: "cos w' j = Some d"
    show "j < fresh w' \<and> (\<exists>s st. co_stack_ptr d = Some s \<and> stks w' s = Some st
      \<and> stk_shared st = shared_stack d \<and> (shared_stack d \<longrightarrow> image_ok run st j d))"
    proof (cases "j = k")
      case True
      with j w' c st k show ?thesis by simp
    next
      case False
      with j w' have d: "cos w j = Some d" by simp
      from b this obtain t tt where "co_stack_ptr d = Some t" "stks w t = Some tt"
        "stk_shared tt = shared_stack d" "shared_stack d \<Longrightarrow> image_ok run tt j d" "j < fresh w"
        by (elim co_baseD) auto
      with other [OF d] w' k show ?thesis by simp
    qed
  qed
  moreover have "stks_ok w'"
    unfolding stks_ok_def
  proof (intro allI impI)
    fix t tt assume t: "stks w' t = Some tt"
    show "t < fresh w' \<and> stk_ok tt \<and> (\<forall>u. stk_shared tt \<and> used_by tt = Some u \<longrightarrow>
      (\<exists>c. cos w' u = Some c \<and> co_stack_ptr c = Some t \<and> shared_stack c))"
    proof (cases "t = s")
      case True
      with t w' st show ?thesis by simp
    next
      case False
      with t w' have t: "stks w t = Some tt" by simp
      with b have "t < fresh w" "stk_ok tt" by (simp_all add: co_base_def stks_ok_def)
      with occupant [OF b t] w' n k show ?thesis by fastforce
    qed
  qed
  moreover have "owned_ok w'"
    using same_stack_shared [OF b] other c(2) unfolding owned_ok_def w' by simp metis
  moreover have "pool_ok w'"
    using b n by (auto simp: co_base_def pool_ok_def w')
  ultimately show "co_base run w'" by (simp add: co_base_def)
  show "kept j w w'" if "j \<noteq> k"
  proof (cases "cos w j")
    case None
    with that w' show ?thesis by (simp add: kept_def stack_image_def saved_registers_def)
  next
    case (Some d)
    from b this obtain t tt where t: "co_stack_ptr d = Some t" "stks w t = Some tt"
      by (elim co_baseD) auto
    have "cos w' j = Some d" "stks w' t = Some tt" using Some t that other [OF Some] w' by auto
    with Some t show ?thesis
      by (simp add: kept_def saved_registers_def stack_image_of [of _ _ d t])
  qed
  show "cur_ok w'" if "cur_ok w"
    using that n by (force simp: cur_ok_def w')
qed

lemma create_on_shared:
  assumes b: "co_base run w" and k: "k = fresh w" "run \<noteq> Some k"
    and c: "shared_stack c" "co_stack_ptr c = Some s" and st: "stks w s = Some st" "stk_shared st"
    and im: "stack_copy c = Some g" "length g = stack_copy_size c" "stack_copy_size c \<le> length (stack_mem st)"
      "RSP (saved_ctx c) = stack_top st - stack_copy_size c"
    and w': "w' = w\<lparr>fresh := Suc k, cos := (cos w)(k := Some c)\<rparr>"
  shows "co_base run w'" "j \<noteq> k \<Longrightarrow> kept j w w'" "cur_ok w \<Longrightarrow> cur_ok w'"
proof -
  have n: "cos w k = None" using b k fresh_notin by simp
  have "used_by st \<noteq> Some k" using occupant [OF b st, of k] n by auto
  then have image: "image_ok run st k c" using im by (simp add: image_ok_def)
  have "cos_ok run w'"
    unfolding cos_ok_def
  proof (intro allI impI)
    fix j d assume j: "cos w' j = Some d"
    show "j < fresh w' \<and> (\<exists>s st. co_stack_ptr d = Some s \<and> stks w' s = Some st
      \<and> stk_shared st = shared_stack d \<and> (shared_stack d \<longrightarrow> image_ok run st j d))"
    proof (cases "j = k")
      case True
      with j w' c st k image show ?thesis by simp
    next
      case False
      with j w' have d: "cos w j = Some d" by simp
      from b this obtain t tt where "co_stack_ptr d = Some t" "stks w t = Some tt"
        "stk_shared tt = shared_stack d" "shared_stack d \<Longrightarrow> image_ok run tt j d" "j < fresh w"
        by (elim co_baseD) auto
      with w' k show ?thesis by simp
    qed
  qed
  moreover have "stks_ok w'"
    unfolding stks_ok_def
  proof (intro allI impI)
    fix t tt assume "stks w' t = Some tt"
    then have t: "stks w t = Some tt" by (simp add: w')
    with b have "t < fresh w" "stk_ok tt" by (simp_all add: co_base_def stks_ok_def)
    with occupant [OF b t] w' n k show "t < fresh w' \<and> stk_ok tt \<and>
      (\<forall>u. stk_shared tt \<and> used_by tt = Some u \<longrightarrow>
        (\<exists>c. cos w' u = Some c \<and> co_stack_ptr c = Some t \<and> shared_stack c))" by fastforce
  qed
  moreover have "owned_ok w'"
  proof -
    have "shared_stack d" if "cos w j = Some d" "co_stack_ptr d = Some s" for j d
      using b that st by (auto elim!: co_baseD)
    then show ?thesis
      using same_stack_shared [OF b] c unfolding owned_ok_def w' by simp metis
  qed
  moreover have "pool_ok w'" using b by (simp add: co_base_def pool_ok_def w')
  ultimately show "co_base run w'" by (simp add: co_base_def)
  show "kept j w w'" if "j \<noteq> k"
    using that by (simp add: kept_def stack_image_def saved_registers_def w' cong: option.case_cong)
  show "cur_ok w'" if "cur_ok w"
    using that n by (force simp: cur_ok_def w')
qed

text \<open>What a new coroutine starts with: the registers of the constructor, the instruction
  \<open>co_launch\<close>, and the address of \<open>co_exit\<close> as the return address at the top of its stack.\<close>

definition launchable :: "image \<Rightarrow> u64 \<Rightarrow> u64 \<Rightarrow> nat \<Rightarrow> world \<Rightarrow> bool" where
  "launchable im rout par i w \<longleftrightarrow>
     stack_image w i = le64_put (at_co_exit im)
     \<and> (\<exists>c. cos w i = Some c \<and> routine c = rout \<and> param c = par \<and> RIP (saved_ctx c) = at_co_launch im
          \<and> mxcsr (saved_ctx c) = mxcsr_MASK \<and> x87_cw (saved_ctx c) = x87_cw_mask)"

lemma queue_ok_add:
  assumes "queue_ok m w" "cos w k = None" "sched w' = sched w" "current w' = current w"
    "cos w' = (cos w)(k := c)"
  shows "queue_ok m w'"
proof -
  from assms(1) obtain q d where q: "sched w = Some q" "distinct q" "set q \<subseteq> Some ` dom (cos w)"
    "current w \<notin> set q" "cos w m = Some d" "\<not> shared_stack d" "current w = Some m \<or> Some m \<in> set q"
    by (auto simp: queue_ok_def)
  have "m \<noteq> k" using q assms(2) by auto
  moreover have "dom (cos w) \<subseteq> dom (cos w')" using assms(2,5) by auto
  ultimately show ?thesis using q assms(3-5) unfolding queue_ok_def
    by (metis (no_types, lifting) fun_upd_other image_mono order_trans)
qed

lemma not_queued_fresh:
  assumes inv: "co_inv m w" shows "\<not> queued (fresh w) w" "current w \<noteq> Some (fresh w)"
  using inv fresh_notin [of "current w" w]
  by (auto simp: co_inv_def queue_ok_def queued_def cur_ok_def)

lemma Create_ok:
  assumes inv: "co_inv m w" and n: "8 \<le> n" "addr + n < size_max"
  shows "\<exists>w'. co_create im addr g n rout par w = Inr (fresh w, w') \<and> co_inv m w'
    \<and> (\<forall>j. j \<noteq> fresh w \<longrightarrow> kept j w w') \<and> parked (fresh w) w' \<and> launchable im rout par (fresh w) w'
    \<and> current w' = current w"
proof -
  from inv have b: "co_base (current w) w" and q: "queue_ok m w" and cur: "cur_ok w"
    by (simp_all add: co_inv_def)
  let ?k = "fresh w"
  let ?m = "take (n - 8) (new_array g n) @ le64_put (at_co_exit im)"
  let ?st = "\<lparr>stack_bottom = addr, stack_mem = ?m, used_by = None, stk_shared = False\<rparr>"
  let ?c = "(coroutine_new im rout par False)\<lparr>co_stack_ptr := Some (Suc ?k),
    saved_ctx := (saved_ctx (coroutine_new im rout par False))\<lparr>RSP := addr + n - 8\<rparr>\<rparr>"
  let ?w = "w\<lparr>fresh := Suc (Suc ?k), cos := (cos w)(?k := Some ?c), stks := (stks w)(Suc ?k := Some ?st)\<rparr>"
  have run: "co_create im addr g n rout par w = Inr (?k, ?w)"
    using n by (simp add: co_create_def new_co_def new_stk_def set_stack_def set_exit_guard_def
        co_stack_new_def set_co_def set_stk_def coroutine_new_def stack_top_def mem_simps codec_simps
        le64.length_put Let_def)
  have st: "stk_ok ?st" using n by (simp add: stk_ok_def stack_top_def le64.length_put)
  have c: "\<not> shared_stack ?c" by (simp add: coroutine_new_def)
  note add = create_private [OF b refl refl c _ st, of ?w]
  have "queue_ok m ?w" using queue_ok_add [OF q fresh_notin [OF b], of ?w] by simp
  then have "co_inv m ?w" using add(1,3) cur by (simp add: co_inv_def)
  moreover have "parked ?k ?w" using not_queued_fresh [OF inv] by (simp add: parked_def queued_def)
  moreover have "launchable im rout par ?k ?w"
    using n by (simp add: launchable_def stack_image_def coroutine_new_def)
  ultimately show ?thesis using run add(2) by auto
qed

lemma Create_Shared_ok:
  assumes inv: "co_inv m w"
  shows "\<exists>w'. co_create_shared im rout par w = Inr (fresh w, w') \<and> co_inv m w'
    \<and> (\<forall>j. j \<noteq> fresh w \<longrightarrow> kept j w w') \<and> parked (fresh w) w' \<and> launchable im rout par (fresh w) w'
    \<and> current w' = current w"
proof -
  from inv have b: "co_base (current w) w" and q: "queue_ok m w" and cur: "cur_ok w"
    by (simp_all add: co_inv_def)
  let ?k = "fresh w"
  from b obtain s st where s: "shared_stack_pool w = [s]" "stks w s = Some st" "stk_shared st" "stk_ok st"
    by (auto simp: co_base_def pool_ok_def stks_ok_def)
  let ?c = "(coroutine_new im rout par True)\<lparr>co_stack_ptr := Some s,
    saved_ctx := (saved_ctx (coroutine_new im rout par True))\<lparr>RSP := stack_top st - 8\<rparr>\<rparr>"
  let ?v = "w\<lparr>fresh := Suc ?k, cos := (cos w)(?k := Some ?c)\<rparr>"
  let ?w = "?v\<lparr>shared_stack_alloc_count := (shared_stack_alloc_count w + 1) mod size_max\<rparr>"
  have top: "8 \<le> stack_top st" using s by (simp add: stk_ok_def stack_top_def)
  have run: "co_create_shared im rout par w = Inr (?k, ?w)"
    using s top by (simp add: co_create_shared_def new_co_def co_alloc_shared_stack_def set_stack_def
        set_co_def set_stk_def coroutine_new_def Let_def fun_upd_idem)
  have c: "shared_stack ?c" "stack_copy ?c = Some (le64_put (at_co_exit im))"
    "length (le64_put (at_co_exit im)) = stack_copy_size ?c" "stack_copy_size ?c \<le> length (stack_mem st)"
    "RSP (saved_ctx ?c) = stack_top st - stack_copy_size ?c"
    using s by (simp_all add: coroutine_new_def le64.length_put stk_ok_def)
  have ptr: "co_stack_ptr ?c = Some s" by simp
  note add = create_on_shared [OF b refl not_queued_fresh(2) [OF inv] c(1) ptr s(2,3) c(2-5), of ?v]
  have "queue_ok m ?w" using queue_ok_add [OF q fresh_notin [OF b], of ?w] by simp
  moreover have "cur_ok ?w" using add(3) cur by (simp add: cur_ok_def)
  ultimately have "co_inv m ?w" using add(1) by (simp add: co_inv_def)
  moreover have "parked ?k ?w" using not_queued_fresh [OF inv] by (simp add: parked_def queued_def)
  moreover have "launchable im rout par ?k ?w"
  proof -
    have "used_by st \<noteq> Some ?k" using occupant [OF b s(2,3), of ?k] fresh_notin [OF b] by auto
    then show ?thesis using s by (simp add: launchable_def stack_image_def coroutine_new_def)
  qed
  ultimately show ?thesis using run add(2) by auto
qed

text \<open>What creating and posting a coroutine leaves as it was.\<close>

lemma co_create_frame:
  "co_create im addr g n rout par w = Inr (k, w') \<Longrightarrow>
   sched w' = sched w \<and> (\<forall>j. j \<noteq> fresh w \<longrightarrow> cos w' j = cos w j)"
  by (auto simp: co_create_def new_co_def new_stk_def set_stack_def set_co_def set_stk_def Let_def
      and_then_Inr_iff split: if_splits)

lemma co_create_shared_frame:
  "co_create_shared im rout par w = Inr (k, w') \<Longrightarrow>
   sched w' = sched w \<and> (\<forall>j. j \<noteq> fresh w \<longrightarrow> cos w' j = cos w j)"
  by (auto simp: co_create_shared_def co_alloc_shared_stack_def new_co_def set_stack_def set_co_def
      set_stk_def Let_def and_then_Inr_iff split: if_splits)

lemma co_post_frame:
  "co_post p w = Inr w' \<Longrightarrow> cos w' = cos w \<and> sched w' = Some (the (sched w) @ [p])"
  by (auto simp: co_post_def rr_enqueue_def split: option.splits)

definition co_boot :: "co_context \<Rightarrow> world" where
  "co_boot ctx = \<lparr>cos = Map.empty, stks = Map.empty, fresh = 0, current = None, sched = None,
     shared_stack_pool = [], shared_stack_alloc_count = 0, cpu = ctx\<rparr>"

lemma co_init_boot:
  "co_init im addr g (co_boot ctx) =
     \<lparr>cos = [0 \<mapsto> (coroutine_new im 0 0 False)\<lparr>co_stack_ptr := Some 1\<rparr>],
      stks = [1 \<mapsto> co_stack_default\<lparr>used_by := Some 0\<rparr>, 2 \<mapsto> co_stack_new addr g (1024 * 1024) True],
      fresh = 3, current = Some 0, sched = Some [], shared_stack_pool = [2],
      shared_stack_alloc_count = 0, cpu = ctx\<rparr>"
  by (simp add: co_init_def co_boot_def new_co_def new_stk_def set_co_def set_stk_def rr_new_def Let_def
      numeral_2_eq_2 numeral_3_eq_3)

lemma co_init_ok:
  assumes "addr + 1024 * 1024 < size_max"
  shows "co_inv 0 (co_init im addr g (co_boot ctx))"
  unfolding co_init_boot co_inv_def co_base_def
proof (intro conjI)
qed (use assms in \<open>auto simp: cos_ok_def stks_ok_def owned_ok_def pool_ok_def queue_ok_def cur_ok_def
  coroutine_new_def co_stack_default_def co_stack_new_def stk_ok_def stack_top_def split: if_splits\<close>)

text \<open>The reachable worlds of a program that keeps the discipline.\<close>

inductive co_reach :: "image \<Rightarrow> nat \<Rightarrow> world \<Rightarrow> world \<Rightarrow> bool" for im m where
  co_start: "co_reach im m w w"
| co_step: "co_reach im m u v \<Longrightarrow> co_allowed m a v \<Longrightarrow> co_do im a v = Inr w \<Longrightarrow> co_reach im m u w"

lemma co_do_ok:
  assumes inv: "co_inv m w" and al: "co_allowed m a w"
  shows "\<exists>w'. co_do im a w = Inr w' \<and> co_inv m w' \<and> (current w' \<noteq> current w \<longrightarrow> resumed w')
    \<and> (\<forall>j. j \<in> dom (cos w) \<and> j \<in> dom (cos w') \<and> current w \<noteq> Some j \<longrightarrow> kept j w w')"
proof (cases a)
  case (Run ctx mem)
  with Run_ok [OF inv, of ctx mem] al show ?thesis by auto
next
  case Resched
  with Resched_ok [OF inv, of im] show ?thesis by auto
next
  case Yield
  obtain i where "current w = Some i" using inv by (auto simp: co_inv_def cur_ok_def)
  with Yield Yield_ok [OF inv this, of im] al show ?thesis by auto
next
  case Exit
  with Exit_ok [OF inv, of im] al show ?thesis by auto
next
  case (Post i)
  with Post_ok [OF inv, of i] al show ?thesis by auto
next
  case (Destroy i)
  with al obtain w' where "co_destroy (Some i) w = Inr w'" "co_inv m w'" "\<forall>j. j \<noteq> i \<longrightarrow> kept j w w'"
    "i \<notin> dom (cos w')" "current w' = current w"
    using Destroy_ok [OF inv, of i] by auto
  with Destroy show ?thesis by (metis co_do.simps(6))
next
  case (Create addr g n rout par)
  moreover have "fresh w \<notin> dom (cos w)" using inv fresh_notin by (auto simp: co_inv_def)
  moreover obtain w' where "co_create im addr g n rout par w = Inr (fresh w, w')" "co_inv m w'"
    "\<forall>j. j \<noteq> fresh w \<longrightarrow> kept j w w'" "current w' = current w"
    using Create_ok [OF inv, of n addr im g rout par] al Create by auto
  ultimately show ?thesis by (metis and_then_simps(2) case_prod_conv co_do.simps(7))
next
  case (Create_Shared rout par)
  moreover have "fresh w \<notin> dom (cos w)" using inv fresh_notin by (auto simp: co_inv_def)
  moreover obtain w' where "co_create_shared im rout par w = Inr (fresh w, w')" "co_inv m w'"
    "\<forall>j. j \<noteq> fresh w \<longrightarrow> kept j w w'" "current w' = current w"
    using Create_Shared_ok [OF inv, of im rout par] by auto
  ultimately show ?thesis by (metis and_then_simps(2) case_prod_conv co_do.simps(8))
qed

lemma co_reach_inv:
  "co_reach im m u w \<Longrightarrow> co_inv m u \<Longrightarrow> co_inv m w"
proof (induction rule: co_reach.induct)
  case (co_step u v a w)
  then show ?case using co_do_ok [of m v a im] by auto
qed

text \<open>A run in which coroutine \<open>i\<close> neither runs nor is destroyed.\<close>

inductive co_away :: "image \<Rightarrow> nat \<Rightarrow> nat \<Rightarrow> world \<Rightarrow> world \<Rightarrow> bool" for im m i where
  away_start: "current w \<noteq> Some i \<Longrightarrow> i \<in> dom (cos w) \<Longrightarrow> co_away im m i w w"
| away_step: "co_away im m i u v \<Longrightarrow> co_allowed m a v \<Longrightarrow> co_do im a v = Inr w \<Longrightarrow>
    current w \<noteq> Some i \<Longrightarrow> i \<in> dom (cos w) \<Longrightarrow> co_away im m i u w"

lemma co_away_kept:
  "co_away im m i u w \<Longrightarrow> co_inv m u \<Longrightarrow>
   co_inv m w \<and> kept i u w \<and> current w \<noteq> Some i \<and> i \<in> dom (cos w)"
proof (induction rule: co_away.induct)
  case (away_step u v a w)
  then show ?case using co_do_ok [of m v a im] by (metis kept_trans sum.inject(2))
qed simp

fun resched_n :: "image \<Rightarrow> nat \<Rightarrow> world \<Rightarrow> world outcome" where
  "resched_n im 0 w = Inr w"
| "resched_n im (Suc n) w = and_then (co_resched im w) (resched_n im n)"

section \<open>A small world for the witnesses\<close>

text \<open>The main coroutine 0, and coroutines 1 and 2 on one shared stack of 16 bytes at address 256:
  1 runs with 12 bytes of stack in use, 2 has never run.\<close>

definition demo_image :: image where
  "demo_image = \<lparr>at_co_launch = 0x1000, at_retaddr = 0x2000, at_co_exit = 0x3000, at_static_stack = 8192\<rparr>"

definition demo_world :: world where
  "demo_world =
     \<lparr>cos = [0 \<mapsto> (coroutine_new demo_image 0 0 False)\<lparr>co_stack_ptr := Some 3\<rparr>,
             1 \<mapsto> (coroutine_new demo_image 7 0 True)\<lparr>co_stack_ptr := Some 4, stack_copy := None\<rparr>,
             2 \<mapsto> (coroutine_new demo_image 8 0 True)\<lparr>co_stack_ptr := Some 4,
                saved_ctx := zero_ctx\<lparr>RSP := 264, RIP := 0x1000\<rparr>\<rparr>],
      stks = [3 \<mapsto> co_stack_default\<lparr>used_by := Some 0\<rparr>,
              4 \<mapsto> \<lparr>stack_bottom = 256, stack_mem = map of_nat [0..<16], used_by = Some 1, stk_shared = True\<rparr>],
      fresh = 5, current = Some 1, sched = Some [Some 2, Some 0], shared_stack_pool = [4],
      shared_stack_alloc_count = 2, cpu = zero_ctx\<lparr>RBX := 9, RSP := 260, RIP := 0x4000\<rparr>\<rparr>"

lemma demo_inv: "co_inv 0 demo_world"
  unfolding co_inv_def co_base_def
proof (intro conjI)
  show "cos_ok (current demo_world) demo_world"
    by (auto simp: demo_world_def cos_ok_def coroutine_new_def image_ok_def stack_top_def zero_ctx_def
      demo_image_def co_stack_default_def le64.length_put split: if_splits)
  show "stks_ok demo_world"
    by (auto simp: demo_world_def stks_ok_def coroutine_new_def stk_ok_def stack_top_def
      co_stack_default_def split: if_splits)
  show "owned_ok demo_world"
    by (auto simp: demo_world_def owned_ok_def coroutine_new_def split: if_splits)
  show "pool_ok demo_world" by (simp add: demo_world_def pool_ok_def)
  show "queue_ok 0 demo_world"
    by (auto simp: demo_world_def queue_ok_def coroutine_new_def)
  show "cur_ok demo_world"
    by (auto simp: demo_world_def cur_ok_def coroutine_new_def rsp_inside_def stack_top_def zero_ctx_def)
qed

section \<open>Properties\<close>

text \<open>C6: from initialisation on, in every order of calls that keeps the discipline, each function
  of the library succeeds (no switch finds the ready queue empty, no stack is read or written out
  of bounds) and keeps the invariant of stacks, copies and queue.\<close>

theorem co_library_safe:
  assumes "addr + 1024 * 1024 < size_max"
    and "co_reach im 0 (co_init im addr g (co_boot ctx)) w" and "co_allowed 0 a w"
  shows "\<exists>w'. co_do im a w = Inr w' \<and> co_inv 0 w'"
  using co_do_ok [OF co_reach_inv [OF assms(2) co_init_ok [OF assms(1)]] assms(3)] by blast

theorem co_library_safe_witness:
  "\<exists>w'. co_do demo_image Resched (co_init demo_image 65536 (\<lambda>_. 0) (co_boot zero_ctx)) = Inr w'
    \<and> co_inv 0 w'"
  by (rule co_library_safe [OF _ co_start]) simp_all

text \<open>C5: a coroutine that yields and is later resumed, whatever the others did meanwhile on the
  same shared stack, continues with exactly the registers of its call and the bytes of its stack.\<close>

theorem co_yield_resumes:
  assumes "co_inv m w" "current w = Some i" "i \<noteq> m" "co_yield im w = Inr (p, u)"
    and "co_away im m i u v" "co_allowed m a v" "co_do im a v = Inr x" "current x = Some i"
  shows "p = Some i \<and> cpu x = (cpu w)\<lparr>RIP := at_retaddr im\<rparr> \<and> live_stack x = live_stack w"
proof -
  from Yield_ok [OF assms(1-3), of im] assms(4) have u: "p = Some i" "co_inv m u" "resumed u"
    "stack_image u i = live_stack w" "saved_registers u i = Some ((cpu w)\<lparr>RIP := at_retaddr im\<rparr>)"
    by auto
  from co_away_kept [OF assms(5) u(2)] have v: "co_inv m v" "kept i u v" "current v \<noteq> Some i" "i \<in> dom (cos v)"
    by auto
  from co_do_ok [OF v(1) assms(6), of im] assms(7,8) v(3) have x: "co_inv m x" "resumed x"
    "i \<in> dom (cos x) \<longrightarrow> kept i v x" using v(4) by auto
  have "cur_ok x" using x(1) by (simp add: co_inv_def)
  then have "i \<in> dom (cos x)" using assms(8) by (auto simp: cur_ok_def)
  with x v have k: "kept i u x" by (blast intro: kept_trans)
  have "saved_registers x i = Some (cpu x)" using x(2) assms(8) by (simp add: resumed_def)
  with k u have "cpu x = (cpu w)\<lparr>RIP := at_retaddr im\<rparr>" by (simp add: kept_def)
  moreover have "live_stack x = live_stack w"
    using live_resumed [OF \<open>cur_ok x\<close> x(2) assms(8)] k u(4) by (simp add: kept_def)
  ultimately show ?thesis using u(1) by simp
qed

text \<open>C29: each \<open>co_resched\<close> runs the head of the ready queue and puts the caller at its end, so \<open>n\<close>
  reschedules rotate the running coroutine and the queue by \<open>n\<close> and every ready coroutine gets its
  turn.\<close>

theorem co_resched_rotates:
  assumes "co_inv m w"
  shows "\<exists>w'. resched_n im n w = Inr w' \<and> co_inv m w'
    \<and> current w' # the (sched w') = rotate n (current w # the (sched w))"
  using assms
proof (induction n arbitrary: w)
  case (Suc n)
  from Resched_ok [OF Suc.prems, of im] obtain v where v: "co_resched im w = Inr v" "co_inv m v"
    "current v # the (sched v) = the (sched w) @ [current w]" by blast
  from Suc.IH [OF v(2)] v show ?case by (auto simp: rotate1_rotate_swap)
qed simp

theorem co_resched_rotates_witness:
  "\<exists>w'. resched_n demo_image 2 demo_world = Inr w' \<and> co_inv 0 w'
    \<and> current w' # the (sched w') = [Some 0, Some 1, Some 2]"
  using co_resched_rotates [OF demo_inv, of demo_image 2]
  by (simp add: demo_world_def eval_nat_numeral)

text \<open>A coroutine created on a stack of its own or on the shared stack starts in \<open>co_launch\<close>
  with its routine and argument, the default floating-point control words, and the address of
  \<open>co_exit\<close> as the only word of its stack.\<close>

theorem co_create_launches:
  assumes "co_inv m w" and "8 \<le> n" "addr + n < size_max"
  shows "\<exists>u v. co_create_cxx im addr g n launch func w = Inr (fresh w, u)
     \<and> co_create_cxx_shared im launch func w = Inr (fresh w, v)
     \<and> (\<forall>x. x = u \<or> x = v \<longrightarrow> co_inv m x \<and> parked (fresh w) x \<and> launchable im launch func (fresh w) x
        \<and> co_launch (x\<lparr>current := Some (fresh w)\<rparr>) = Inr (launch, func))"
  using Create_ok [OF assms, of im g launch func] Create_Shared_ok [OF assms(1), of im launch func]
  by (auto simp: co_create_cxx_def co_create_cxx_shared_def co_launch_def launchable_def)

theorem co_create_launches_witness:
  "\<exists>u v. co_create_cxx demo_image 4096 (\<lambda>_. 0) 32 11 12 demo_world = Inr (fresh demo_world, u)
     \<and> co_create_cxx_shared demo_image 11 12 demo_world = Inr (fresh demo_world, v)
     \<and> launchable demo_image 11 12 (fresh demo_world) u \<and> launchable demo_image 11 12 (fresh demo_world) v"
  using co_create_launches [OF demo_inv, of 32 4096 demo_image "\<lambda>_. 0" 11 12] by auto

text \<open>\<open>co_dispath\<close> does not switch: it makes the target \<open>current\<close> first and then saves the
  caller's registers into the target, so the caller goes on as the target, the target's saved
  registers are lost, and the caller is enqueued with registers that were never saved.\<close>

theorem co_dispath_keeps_caller:
  assumes "current w = Some i" "cos w j = Some d" "sched w = Some q"
  shows "\<exists>w'. co_dispath im (Some j) w = Inr w' \<and> current w' = Some j
    \<and> cpu w' = (cpu w)\<lparr>RIP := at_retaddr im\<rparr>
    \<and> cos w' j = Some (d\<lparr>saved_ctx := (cpu w)\<lparr>RIP := at_retaddr im\<rparr>\<rparr>)
    \<and> (if j = i then True else cos w' i = cos w i) \<and> sched w' = Some (q @ [Some i])"
  using assms by (simp add: co_dispath_def co_post_def rr_enqueue_def save_context_def load_context_def set_co_def)

theorem co_dispath_keeps_caller_witness:
  "\<exists>w'. co_dispath demo_image (Some 2) demo_world = Inr w' \<and> current w' = Some 2
    \<and> cpu w' = (cpu demo_world)\<lparr>RIP := 0x2000\<rparr>"
  using co_dispath_keeps_caller [of demo_world 1 2 _ "[Some 2, Some 0]" demo_image]
  by (auto simp: demo_world_def demo_image_def)

text \<open>Destroying a posted coroutine leaves its pointer in the ready queue, and the switch
  that dequeues it uses a deleted object.\<close>

theorem co_destroy_queued_undefined:
  assumes "cos w i = Some c" "co_stack_ptr c = Some s" "stks w s = Some st" "sched w = Some (Some i # q)"
  shows "\<exists>v. co_destroy (Some i) w = Inr v \<and> sched v = sched w \<and> co_sched v = Inl Undefined_Behaviour"
  using assms by (simp add: co_destroy_def coroutine_delete_Inr co_sched_def rr_dequeue_def Let_def)

theorem co_destroy_queued_undefined_witness:
  "\<exists>v. co_destroy (Some 2) demo_world = Inr v \<and> sched v = Some [Some 2, Some 0]
    \<and> co_sched v = Inl Undefined_Behaviour"
proof -
  have "cos demo_world 2 \<noteq> None" "stks demo_world 4 \<noteq> None"
    "map_option co_stack_ptr (cos demo_world 2) = Some (Some 4)" "sched demo_world = Some [Some 2, Some 0]"
    by (simp_all add: demo_world_def coroutine_new_def)
  then show ?thesis using co_destroy_queued_undefined [of demo_world 2 _ 4 _ "[Some 0]"] by auto
qed

text \<open>Coroutine 1 yields, 2 runs on the same stack, posts 1 and yields, the main program
  reschedules, and 1 runs again.\<close>

fun co_script :: "image \<Rightarrow> co_action list \<Rightarrow> world \<Rightarrow> world outcome" where
  "co_script im [] w = Inr w"
| "co_script im (a # as) w = and_then (co_do im a w) (co_script im as)"

lemma demo_script:
  "map (\<lambda>n. case co_script demo_image (take n [Yield, Post 1, Yield, Resched]) demo_world of
      Inl _ \<Rightarrow> None | Inr w \<Rightarrow> current w) [0..<5] = [Some 1, Some 2, Some 2, Some 0, Some 1]"
  by code_simp

lemma demo_run:
  "\<exists>u v x. co_yield demo_image demo_world = Inr (Some 1, u) \<and> co_away demo_image 0 1 u v
    \<and> co_do demo_image Resched v = Inr x \<and> current x = Some 1"
proof -
  have cur: "current demo_world = Some 1" by (simp add: demo_world_def)
  from Yield_ok [OF demo_inv cur, of demo_image] obtain u where
    u: "co_yield demo_image demo_world = Inr (Some 1, u)" "co_inv 0 u" "parked 1 u" by auto
  have cu: "current u = Some 2" using demo_script u(1) by (simp add: eval_nat_numeral)
  have d: "1 \<in> dom (cos u)" using u(3) by (simp add: parked_def)
  from Post_ok [OF u(2,3)] obtain v1 where v1: "co_do demo_image (Post 1) u = Inr v1" "co_inv 0 v1"
    "current v1 = Some 2" "kept 1 u v1" using cu by auto
  have d1: "1 \<in> dom (cos v1)" using v1(4) d kept_dom by blast
  from Yield_ok [OF v1(2,3), of demo_image] obtain v2 where
    v2: "co_do demo_image Yield v1 = Inr v2" "co_inv 0 v2" "kept 1 v1 v2" using v1(3) by auto
  have d2: "1 \<in> dom (cos v2)" using v2(3) d1 kept_dom by blast
  have c2: "current v2 = Some 0" using demo_script u(1) v1(1) v2(1) by (simp add: eval_nat_numeral)
  from Resched_ok [OF v2(2), of demo_image] obtain x where x: "co_do demo_image Resched v2 = Inr x" by auto
  have "current x = Some 1" using demo_script u(1) v1(1) v2(1) x by (simp add: eval_nat_numeral)
  moreover have "co_away demo_image 0 1 u u" by (rule away_start) (use cu d in simp_all)
  then have "co_away demo_image 0 1 u v1" by (rule away_step [where a = "Post 1"]) (use u v1 d1 in simp_all)
  then have "co_away demo_image 0 1 u v2" by (rule away_step [where a = Yield]) (use v1 v2 c2 d2 in simp_all)
  ultimately show ?thesis using u(1) x by blast
qed

theorem co_yield_resumes_witness:
  "\<exists>u v x. co_yield demo_image demo_world = Inr (Some 1, u) \<and> co_do demo_image Resched v = Inr x
    \<and> cpu x = (cpu demo_world)\<lparr>RIP := 0x2000\<rparr> \<and> live_stack x = map of_nat [4..<16]"
proof -
  from demo_run obtain u v x where r: "co_yield demo_image demo_world = Inr (Some 1, u)"
    "co_away demo_image 0 1 u v" "co_do demo_image Resched v = Inr x" "current x = Some 1" by blast
  have "current demo_world = Some 1" by (simp add: demo_world_def)
  moreover have "live_stack demo_world = map of_nat [4..<16]" "at_retaddr demo_image = 0x2000" by code_simp+
  ultimately show ?thesis
    using co_yield_resumes [OF demo_inv _ _ r(1,2) _ r(3,4)] r by (metis co_allowed.simps(2) zero_neq_one)
qed

end
