(* ===== verification/Async_Io.thy ===== *)
theory Async_Io
  imports Net_Prelude
begin

text \<open>
  \<open>async_file_event\<close> of \<open>network/epoll/epoll.hpp\<close>: the object a coroutine reads and writes a
  descriptor through. Its state is the events seen and waited for, as bit masks, and the coroutines
  that wait. Each \<open>read\<close> or \<open>write\<close> system call takes the next answer of a script; a call whose
  loop has not ended when the script is used up has not returned (\<open>None\<close>). A coroutine that waits
  leaves \<open>begin_wait\<close> in the object and continues with \<open>end_wait\<close>.
\<close>

named_theorems wait_simps \<open>the bit masks of what is waited for\<close>

section \<open>State\<close>

abbreviation (input) CAN_READ :: u32 where "CAN_READ \<equiv> 1"
abbreviation (input) CAN_WRITE :: u32 where "CAN_WRITE \<equiv> 2"
abbreviation (input) CAN_ERROR :: u32 where "CAN_ERROR \<equiv> 4"

record async_file_event =
  ev_fd :: int
  ev_event :: u32
  ev_waited :: u32
  ev_waited_mask :: u32
  co_read :: "nat option"
  co_write :: "nat option"
  co_wait :: "nat option"

definition async_event_new :: "int \<Rightarrow> async_file_event" where
  "async_event_new fd =
     \<lparr>ev_fd = fd, ev_event = 0, ev_waited = 0, ev_waited_mask = 0,
      co_read = None, co_write = None, co_wait = None\<rparr>"

text \<open>The move constructor copies the pool and the handle only; the other members of the new object
  are indeterminate, here those of \<open>junk\<close>.\<close>

definition async_event_move :: "async_file_event \<Rightarrow> async_file_event \<Rightarrow> async_file_event" where
  "async_event_move junk ev = junk\<lparr>ev_fd := ev_fd ev\<rparr>"

text \<open>\<open>fcntl(fd, F_SETFL, O_NONBLOCK)\<close> returned \<open>ret\<close>.\<close>

definition set_non_block :: "int \<Rightarrow> int" where
  "set_non_block ret = (if ret < 0 then ret else 0)"

section \<open>Waking and waiting\<close>

text \<open>\<open>trigger\<close>: the object after the event and the coroutines handed to \<open>co_post\<close>, in order.\<close>

definition trigger :: "u32 \<Rightarrow> async_file_event \<Rightarrow> async_file_event \<times> nat option list" where
  "trigger event ev =
     (let ev = ev\<lparr>ev_event := ev_event ev OR event\<rparr>
      in (ev,
          (if ev_waited ev AND ev_event ev AND CAN_WRITE \<noteq> 0 then [co_write ev] else [])
          @ (if ev_waited ev AND ev_event ev AND CAN_READ \<noteq> 0 then [co_read ev] else [])
          @ (if ev_waited_mask ev AND ev_event ev \<noteq> 0 then [co_wait ev] else [])))"

definition begin_wait_read :: "nat \<Rightarrow> async_file_event \<Rightarrow> async_file_event" where
  "begin_wait_read i ev = ev\<lparr>ev_waited := ev_waited ev OR CAN_READ, co_read := Some i\<rparr>"

definition end_wait_read :: "async_file_event \<Rightarrow> async_file_event" where
  "end_wait_read ev = ev\<lparr>co_read := None, ev_waited := ev_waited ev AND NOT CAN_READ\<rparr>"

definition begin_wait_write :: "nat \<Rightarrow> async_file_event \<Rightarrow> async_file_event" where
  "begin_wait_write i ev = ev\<lparr>ev_waited := ev_waited ev OR CAN_WRITE, co_write := Some i\<rparr>"

definition end_wait_write :: "async_file_event \<Rightarrow> async_file_event" where
  "end_wait_write ev = ev\<lparr>co_write := None, ev_waited := ev_waited ev AND NOT CAN_WRITE\<rparr>"

text \<open>\<open>async_wait(event)\<close>: \<open>Inr r\<close> when it returns \<open>r\<close> at once, \<open>Inl ev\<close> when it waits; when it is
  resumed it returns \<open>event_\<close>.\<close>

definition async_wait_start :: "nat \<Rightarrow> u32 \<Rightarrow> async_file_event \<Rightarrow> async_file_event + u32" where
  "async_wait_start i event ev =
     (if ev_event ev AND event \<noteq> 0 then Inr 0
      else Inl (ev\<lparr>ev_waited_mask := event, co_wait := Some i\<rparr>))"

definition async_wait_resume :: "async_file_event \<Rightarrow> u32 \<times> async_file_event" where
  "async_wait_resume ev = (ev_event ev, ev\<lparr>co_wait := None, ev_waited_mask := 0\<rparr>)"

section \<open>The read and write loops\<close>

text \<open>The answer of one system call: what it delivered (a \<open>read\<close> at the end of the stream delivers
  no byte), \<open>EAGAIN\<close>, or another error.\<close>

datatype 'a answer = Done 'a | Try_Again | Failed

fun async_read_some ::
    "nat \<Rightarrow> block answer list \<Rightarrow> block \<Rightarrow> nat \<Rightarrow> async_file_event \<Rightarrow>
     (int \<times> block \<times> async_file_event \<times> block answer list) option outcome" where
  "async_read_some i [] buf count ev = Inr None"
| "async_read_some i (Done bs # as) buf count ev =
     and_then (mem_store buf 0 bs) (\<lambda>buf.
     if 0 < length bs then Inr (Some (to_int32 (length bs), buf, ev, as))
     else async_read_some i as buf count ev)"
| "async_read_some i (Try_Again # as) buf count ev =
     async_read_some i as buf count (end_wait_read (begin_wait_read i ev))"
| "async_read_some i (Failed # as) buf count ev = Inr (Some (-1, buf, ev, as))"

fun async_read ::
    "nat \<Rightarrow> block answer list \<Rightarrow> block \<Rightarrow> nat \<Rightarrow> nat \<Rightarrow> async_file_event \<Rightarrow>
     (int \<times> block \<times> async_file_event \<times> block answer list) option outcome" where
  "async_read i [] buf count offset ev = Inr None"
| "async_read i (Done bs # as) buf count offset ev =
     and_then (mem_store buf offset bs) (\<lambda>buf.
     let offset = offset + length bs
     in if offset = count then Inr (Some (to_int32 offset, buf, ev, as))
        else async_read i as buf count offset ev)"
| "async_read i (Try_Again # as) buf count offset ev =
     (if offset = count then Inr (Some (to_int32 offset, buf, ev, as))
      else async_read i as buf count offset (end_wait_read (begin_wait_read i ev)))"
| "async_read i (Failed # as) buf count offset ev =
     (if offset = count then Inr (Some (to_int32 offset, buf, ev, as))
      else Inr (Some (-1, buf, ev, as)))"

text \<open>The writes; the second component is what the kernel took from the buffer, in order.\<close>

fun async_write_some ::
    "nat \<Rightarrow> nat answer list \<Rightarrow> block \<Rightarrow> nat \<Rightarrow> async_file_event \<Rightarrow>
     (int \<times> block \<times> async_file_event \<times> nat answer list) option outcome" where
  "async_write_some i [] buf count ev = Inr None"
| "async_write_some i (Done n # as) buf count ev =
     and_then (mem_load buf 0 n) (\<lambda>bs.
     if 0 < n then Inr (Some (to_int32 n, bs, ev, as))
     else async_write_some i as buf count ev)"
| "async_write_some i (Try_Again # as) buf count ev =
     async_write_some i as buf count (end_wait_write (begin_wait_write i ev))"
| "async_write_some i (Failed # as) buf count ev = Inr (Some (-1, [], ev, as))"

fun async_write ::
    "nat \<Rightarrow> nat answer list \<Rightarrow> block \<Rightarrow> nat \<Rightarrow> nat \<Rightarrow> block \<Rightarrow> async_file_event \<Rightarrow>
     (int \<times> block \<times> async_file_event \<times> nat answer list) option outcome" where
  "async_write i [] buf count offset sent ev = Inr None"
| "async_write i (Done n # as) buf count offset sent ev =
     and_then (mem_load buf offset n) (\<lambda>bs.
     let offset = offset + n; sent = sent @ bs
     in if offset = count then Inr (Some (to_int32 offset, sent, ev, as))
        else async_write i as buf count offset sent ev)"
| "async_write i (Try_Again # as) buf count offset sent ev =
     (if offset = count then Inr (Some (to_int32 offset, sent, ev, as))
      else async_write i as buf count offset sent (end_wait_write (begin_wait_write i ev)))"
| "async_write i (Failed # as) buf count offset sent ev =
     (if offset = count then Inr (Some (to_int32 offset, sent, ev, as))
      else Inr (Some (-1, sent, ev, as)))"

section \<open>Lemmas\<close>

text \<open>An object nobody waits on, as every loop finds and leaves it.\<close>

definition read_idle :: "async_file_event \<Rightarrow> bool" where
  "read_idle ev \<longleftrightarrow> co_read ev = None \<and> ev_waited ev AND CAN_READ = 0"

definition write_idle :: "async_file_event \<Rightarrow> bool" where
  "write_idle ev \<longleftrightarrow> co_write ev = None \<and> ev_waited ev AND CAN_WRITE = 0"

lemma mask_clear:
  fixes w b :: u32
  shows "w AND b = 0 \<Longrightarrow> (w OR b) AND NOT b = w"
  by (simp add: bit_eq_iff bit_simps) blast

lemma wait_idle [wait_simps]:
  "read_idle ev \<Longrightarrow> end_wait_read (begin_wait_read i ev) = ev"
  "write_idle ev \<Longrightarrow> end_wait_write (begin_wait_write i ev) = ev"
  using mask_clear [of "ev_waited ev" CAN_READ] mask_clear [of "ev_waited ev" CAN_WRITE]
  by (cases ev; simp add: read_idle_def write_idle_def begin_wait_read_def end_wait_read_def
      begin_wait_write_def end_wait_write_def)+

text \<open>What the answers deliver, and the kernel's contract that one call delivers at most what it
  was asked for while bytes are missing.\<close>

fun delivered :: "block answer list \<Rightarrow> block" where
  "delivered [] = []"
| "delivered (Done bs # as) = bs @ delivered as"
| "delivered (Try_Again # as) = delivered as"
| "delivered (Failed # as) = []"

fun read_ok :: "nat \<Rightarrow> block answer list \<Rightarrow> bool" where
  "read_ok n (Done bs # as) = (length bs \<le> n \<and> (if length bs = n then True else read_ok (n - length bs) as))"
| "read_ok n (Try_Again # as) = read_ok n as"
| "read_ok n _ = True"

fun accepted :: "nat answer list \<Rightarrow> nat" where
  "accepted [] = 0"
| "accepted (Done n # as) = n + accepted as"
| "accepted (Try_Again # as) = accepted as"
| "accepted (Failed # as) = 0"

fun write_ok :: "nat \<Rightarrow> nat answer list \<Rightarrow> bool" where
  "write_ok n (Done k # as) = (k \<le> n \<and> (if k = n then True else write_ok (n - k) as))"
| "write_ok n (Try_Again # as) = write_ok n as"
| "write_ok n _ = True"

lemma read_loop:
  assumes "read_ok (count - offset) as" "offset < count" "count \<le> length buf" "read_idle ev"
    and "count - offset \<le> length (delivered as)"
  shows "\<exists>rest. async_read i as buf count offset ev =
    Inr (Some (to_int32 count, take offset buf @ take (count - offset) (delivered as) @ drop count buf, ev, rest))"
  using assms
proof (induction i as buf count offset ev rule: async_read.induct)
  case (2 i bs as buf count offset ev)
  let ?buf = "take offset buf @ bs @ drop (offset + length bs) buf"
  have le: "offset + length bs \<le> count" using "2.prems"(1,2) by (auto split: if_splits)
  with "2.prems"(3) have st: "mem_store buf offset bs = Inr ?buf" by (simp add: mem_simps)
  show ?case
  proof (cases "offset + length bs = count")
    case True
    with st show ?thesis by auto
  next
    case False
    have "\<exists>rest. async_read i as ?buf count (offset + length bs) ev = Inr (Some (to_int32 count,
      take (offset + length bs) ?buf @ take (count - (offset + length bs)) (delivered as) @ drop count ?buf, ev, rest))"
      using "2.prems" False le by (intro "2.IH") (auto split: if_splits)
    with False st "2.prems" show ?thesis by (auto simp: Let_def)
  qed
next
  case (3 i as buf count offset ev)
  then show ?case by (auto simp: wait_simps)
qed auto

lemma take_then_drop:
  assumes "off + n \<le> count"
  shows "take n (drop off xs) @ drop (off + n) (take count xs) = drop off (take count xs)"
proof -
  have "take n (drop off xs) = take n (drop off (take count xs))"
    using assms by (simp add: drop_take min_def)
  moreover have "drop (off + n) (take count xs) = drop n (drop off (take count xs))"
    by (simp add: add.commute)
  ultimately show ?thesis by (simp only: append_take_drop_id)
qed

lemma write_loop:
  assumes "write_ok (count - offset) as" "offset < count" "count \<le> length buf" "write_idle ev"
    and "count - offset \<le> accepted as"
  shows "\<exists>rest. async_write i as buf count offset sent ev =
    Inr (Some (to_int32 count, sent @ drop offset (take count buf), ev, rest))"
  using assms
proof (induction i as buf count offset sent ev rule: async_write.induct)
  case (2 i n as buf count offset sent ev)
  have le: "offset + n \<le> count" using "2.prems"(1,2) by (auto split: if_splits)
  with "2.prems"(3) have ld: "mem_load buf offset n = Inr (take n (drop offset buf))" by (simp add: mem_simps)
  show ?case
  proof (cases "offset + n = count")
    case True
    with ld show ?thesis by (auto simp: drop_take)
  next
    case False
    have "\<exists>rest. async_write i as buf count (offset + n) (sent @ take n (drop offset buf)) ev =
      Inr (Some (to_int32 count, (sent @ take n (drop offset buf)) @ drop (offset + n) (take count buf), ev, rest))"
      using "2.prems" False le by (intro "2.IH") (auto split: if_splits)
    moreover have "take n (drop offset buf) @ drop (offset + n) (take count buf) = drop offset (take count buf)"
      using le by (rule take_then_drop)
    ultimately show ?thesis using False ld by (auto simp: Let_def)
  qed
next
  case (3 i as buf count offset sent ev)
  then show ?case by (auto simp: wait_simps)
qed auto

lemma read_some_loop:
  assumes "read_idle ev" and "\<forall>a \<in> set as. a = Done [] \<or> a = Try_Again"
  shows "async_read_some i (as @ rest) buf count ev = async_read_some i rest buf count ev"
  using assms
proof (induction as arbitrary: buf)
  case (Cons a as)
  then show ?case by (cases a) (auto simp: wait_simps mem_simps)
qed simp

lemma read_no_bytes:
  assumes "read_idle ev" "offset < count" "offset \<le> length buf"
    and "\<forall>a \<in> set as. a = Done [] \<or> a = Try_Again"
  shows "async_read i (as @ rest) buf count offset ev = async_read i rest buf count offset ev"
  using assms
proof (induction as arbitrary: buf)
  case (Cons a as)
  then show ?case by (cases a) (auto simp: wait_simps mem_simps)
qed simp

section \<open>Properties\<close>

text \<open>C25: \<open>async_read\<close> of \<open>count\<close> bytes, answered by the kernel in pieces of any size with any number
  of \<open>EAGAIN\<close> in between, returns \<open>count\<close> with exactly the next \<open>count\<close> bytes of the stream, in order,
  at the front of the buffer, leaves the rest of the buffer alone and nobody waiting.\<close>

theorem async_read_exact:
  assumes "read_ok count as" "0 < count" "count \<le> length buf" "count < 2 ^ 31" "read_idle ev"
    and "count \<le> length (delivered as)"
  shows "\<exists>rest. async_read i as buf count 0 ev =
    Inr (Some (int count, take count (delivered as) @ drop count buf, ev, rest))"
  using read_loop [of count 0 as buf ev i] assms by simp

theorem async_read_exact_witness:
  "\<exists>rest. async_read 1 [Try_Again, Done [1, 2], Try_Again, Done [3], Failed] [9, 9, 9, 9] 3 0
      (async_event_new 5) = Inr (Some (3, [1, 2, 3, 9], async_event_new 5, rest))"
  using async_read_exact [of 3 "[Try_Again, Done [1, 2], Try_Again, Done [3], Failed]" "[9, 9, 9, 9]"
      "async_event_new 5" 1]
  by (simp add: read_idle_def async_event_new_def)

text \<open>C24: \<open>async_write\<close> hands exactly the \<open>count\<close> bytes of its buffer to the kernel, each once and in
  order, however the kernel splits them and however often it asks to wait.\<close>

theorem async_write_exact:
  assumes "write_ok count as" "0 < count" "count \<le> length buf" "count < 2 ^ 31" "write_idle ev"
    and "count \<le> accepted as"
  shows "\<exists>rest. async_write i as buf count 0 [] ev = Inr (Some (int count, take count buf, ev, rest))"
  using write_loop [of count 0 as buf ev i "[]"] assms by simp

theorem async_write_exact_witness:
  "\<exists>rest. async_write 1 [Done 2, Try_Again, Done 1, Failed] [7, 8, 9] 3 0 [] (async_event_new 5) =
    Inr (Some (3, [7, 8, 9], async_event_new 5, rest))"
  using async_write_exact [of 3 "[Done 2, Try_Again, Done 1, Failed]" "[7, 8, 9]" "async_event_new 5" 1]
  by (simp add: write_idle_def async_event_new_def)

text \<open>C38: a stream that has ended (\<open>read\<close> returns 0) is not noticed: however many reads say so, neither
  \<open>async_read\<close> of at least one byte nor \<open>async_read_some\<close> returns, and only an error ends them.\<close>

theorem async_read_eof_spins:
  assumes "read_idle ev" "0 < count" "\<forall>a \<in> set as. a = Done [] \<or> a = Try_Again"
  shows "async_read i as buf count 0 ev = Inr None \<and> async_read_some i as buf count ev = Inr None
    \<and> async_read i (as @ [Failed]) buf count 0 ev = Inr (Some (-1, buf, ev, []))
    \<and> async_read_some i (as @ [Failed]) buf count ev = Inr (Some (-1, buf, ev, []))"
proof -
  note assms' = assms(1) assms(2) le0 [of "length buf"] assms(3)
  show ?thesis
    using read_no_bytes [OF assms', of i "[]"] read_no_bytes [OF assms', of i "[Failed]"]
      read_some_loop [OF assms(1,3), of i "[]" buf count] read_some_loop [OF assms(1,3), of i "[Failed]" buf count]
      assms(2) by simp
qed

theorem async_read_eof_spins_witness:
  "async_read 1 [Done [], Try_Again, Done [], Done []] [0, 0] 2 0 (async_event_new 5) = Inr None"
  using async_read_eof_spins [of "async_event_new 5" 2 "[Done [], Try_Again, Done [], Done []]" 1 "[0, 0]"]
  by (simp add: read_idle_def async_event_new_def)

text \<open>\<open>async_read_some\<close> returns the first bytes the stream has, whatever waiting precedes them.\<close>

theorem async_read_some_first:
  assumes "read_idle ev" "\<forall>a \<in> set as. a = Done [] \<or> a = Try_Again"
    and "bs \<noteq> []" "length bs \<le> length buf" "length bs < 2 ^ 31"
  shows "async_read_some i (as @ Done bs # rest) buf count ev =
    Inr (Some (int (length bs), bs @ drop (length bs) buf, ev, rest))"
  using read_some_loop [OF assms(1,2), of i "Done bs # rest" buf count] assms(3-5) by (simp add: mem_simps)

theorem async_read_some_first_witness:
  "async_read_some 1 [Try_Again, Done [4, 5], Done [6]] [0, 0, 0] 3 (async_event_new 5) =
    Inr (Some (2, [4, 5, 0], async_event_new 5, [Done [6]]))"
  using async_read_some_first [of "async_event_new 5" "[Try_Again]" "[4, 5]" "[0, 0, 0]" 1 "[Done [6]]" 3]
  by (simp add: read_idle_def async_event_new_def)

end
