(* ===== verification/Event_Pool.thy ===== *)
theory Event_Pool
  imports Async_Io Std_Map Co_Library
begin

text \<open>
  \<open>epoll_event_pool\<close> of \<open>network/epoll/epoll.hpp\<close>: the map from descriptors to handlers and the poll
  loop. A handler is the \<open>async_file_event\<close> object its \<open>std::bind\<close> refers to; the objects live in
  \<open>ev_objs\<close>, and calling the handler of a destroyed object is undefined. The kernel's answers
  (\<open>epoll_ctl\<close>, \<open>epoll_wait\<close>) are arguments. \<open>poll_step\<close> is what the main coroutine does between two
  tests of the loop in \<open>poll_forever\<close>: a reschedule while coroutines are ready, otherwise one batch.
\<close>

section \<open>State and registration\<close>

record event_pool =
  handle_map :: "(int \<times> nat) list"
  ev_objs :: "nat \<Rightarrow> async_file_event option"

definition fd_less :: "int \<Rightarrow> int \<Rightarrow> bool" where
  "fd_less h1 h2 \<longleftrightarrow> h1 < h2"

interpretation fds: strict_weak_order fd_less
  by unfold_locales (auto simp: fd_less_def)

definition pool_new :: "int \<Rightarrow> event_pool outcome" where
  "pool_new epollfd =
     (if epollfd = -1 then Inl Exited else Inr \<lparr>handle_map = [], ev_objs = (\<lambda>_. None)\<rparr>)"

text \<open>\<open>ctl\<close> is the result of \<open>epoll_ctl\<close>.\<close>

definition add_event :: "int \<Rightarrow> int \<Rightarrow> nat \<Rightarrow> event_pool \<Rightarrow> event_pool outcome" where
  "add_event ctl fd handler p =
     (if ctl = -1 then Inl Exited
      else Inr (p\<lparr>handle_map := map_emplace fd_less fd handler (handle_map p)\<rparr>))"

definition del_event :: "int \<Rightarrow> event_pool \<Rightarrow> event_pool" where
  "del_event fd p =
     (case map_find fd_less fd (handle_map p) of None \<Rightarrow> p
      | Some _ \<Rightarrow> p\<lparr>handle_map := map_erase fd_less fd (handle_map p)\<rparr>)"

definition clear_event :: "event_pool \<Rightarrow> event_pool" where
  "clear_event p = p\<lparr>handle_map := []\<rparr>"

text \<open>The constructor of \<open>async_file_event\<close> at object \<open>k\<close>, and the end of the object's life: the
  destructors of the sockets close the descriptor and do not touch the pool.\<close>

definition async_event_create :: "int \<Rightarrow> int \<Rightarrow> nat \<Rightarrow> event_pool \<Rightarrow> event_pool outcome" where
  "async_event_create ctl fd k p =
     and_then (add_event ctl fd k p) (\<lambda>p. Inr (p\<lparr>ev_objs := (ev_objs p)(k := Some (async_event_new fd))\<rparr>))"

definition async_event_destroy :: "nat \<Rightarrow> event_pool \<Rightarrow> event_pool" where
  "async_event_destroy k p = p\<lparr>ev_objs := (ev_objs p)(k := None)\<rparr>"

section \<open>Polling\<close>

abbreviation (input) EPOLLIN :: u32 where "EPOLLIN \<equiv> 1"
abbreviation (input) EPOLLOUT :: u32 where "EPOLLOUT \<equiv> 4"

definition event_mask :: "u32 \<Rightarrow> u32" where
  "event_mask events =
     (let event = 0;
          event = (if events OR EPOLLIN \<noteq> 0 then event OR CAN_READ else event);
          event = (if events OR EPOLLOUT \<noteq> 0 then event OR CAN_WRITE else event)
      in event)"

fun co_posts :: "nat option list \<Rightarrow> world \<Rightarrow> world outcome" where
  "co_posts [] w = Inr w"
| "co_posts (p # ps) w = and_then (co_post p w) (co_posts ps)"

definition dispatch :: "int \<Rightarrow> u32 \<Rightarrow> event_pool \<Rightarrow> world \<Rightarrow> (event_pool \<times> world) outcome" where
  "dispatch fd events p w =
     (case map_find fd_less fd (handle_map p) of None \<Rightarrow> Inr (p, w)
      | Some k \<Rightarrow> (case ev_objs p k of None \<Rightarrow> Inl Undefined_Behaviour
        | Some ev \<Rightarrow>
            let (ev, ps) = trigger (event_mask events) ev
            in and_then (co_posts ps w) (\<lambda>w. Inr (p\<lparr>ev_objs := (ev_objs p)(k := Some ev)\<rparr>, w))))"

fun poll_batch :: "(int \<times> u32) list \<Rightarrow> event_pool \<Rightarrow> world \<Rightarrow> (event_pool \<times> world) outcome" where
  "poll_batch [] p w = Inr (p, w)"
| "poll_batch ((fd, events) # batch) p w =
     and_then (dispatch fd events p w) (\<lambda>(p, w). poll_batch batch p w)"

text \<open>\<open>nfds\<close> events \<open>evs\<close> from \<open>epoll_wait\<close>; with \<open>nfds = -1\<close> the loop over them does nothing.\<close>

definition poll_step ::
    "image \<Rightarrow> (int \<times> u32) list \<Rightarrow> event_pool \<Rightarrow> world \<Rightarrow> (event_pool \<times> world) outcome" where
  "poll_step im batch p w =
     and_then (co_num_ready w) (\<lambda>n.
     if 0 < n then and_then (co_resched im w) (\<lambda>w. Inr (p, w))
     else poll_batch batch p w)"

section \<open>Lemmas\<close>

lemma or_bit_nonzero:
  fixes x y :: u32
  assumes "bit y n" shows "x OR y \<noteq> 0"
proof
  assume "x OR y = 0"
  then have "bit (0 :: u32) n" using assms by (metis bit_or_iff)
  then show False by simp
qed

lemma and_bit_nonzero:
  fixes x y :: u32
  assumes "bit x n" "bit y n" shows "x AND y \<noteq> 0"
proof
  assume "x AND y = 0"
  then have "bit (0 :: u32) n" using assms by (metis bit_and_iff)
  then show False by simp
qed

lemma event_mask_both [simp]: "event_mask events = CAN_READ OR CAN_WRITE"
  using or_bit_nonzero [of EPOLLIN 0 events] or_bit_nonzero [of EPOLLOUT 2 events]
  by (simp add: event_mask_def bit_simps)

text \<open>Whom an event wakes, in terms of the registrations in the object: the coroutine registered for writing
  while bit 1 of \<open>waited_\<close> is set, the one registered for reading while bit 0 is set, and the one in
  \<open>async_wait\<close> while its mask has a bit of an event seen so far, this one included. Every event counts as
  both readable and writable.\<close>

definition waiters :: "async_file_event \<Rightarrow> nat option list" where
  "waiters ev = (if bit (ev_waited ev) 1 then [co_write ev] else [])
     @ (if bit (ev_waited ev) 0 then [co_read ev] else [])
     @ (if \<exists>n \<in> {..<32}. bit (ev_waited_mask ev) n \<and> (bit (ev_event ev) n \<or> n < 2) then [co_wait ev] else [])"

definition waiters_of :: "event_pool \<Rightarrow> int \<Rightarrow> nat option list" where
  "waiters_of p fd = (case map_find fd_less fd (handle_map p) of None \<Rightarrow> []
     | Some k \<Rightarrow> (case ev_objs p k of None \<Rightarrow> [] | Some ev \<Rightarrow> waiters ev))"

definition live :: "event_pool \<Rightarrow> bool" where
  "live p \<longleftrightarrow> (\<forall>fd k. map_find fd_less fd (handle_map p) = Some k \<longrightarrow> ev_objs p k \<noteq> None)
     \<and> (\<forall>fd fd' k. map_find fd_less fd (handle_map p) = Some k \<and> map_find fd_less fd' (handle_map p) = Some k
          \<longrightarrow> fd = fd')"

lemma trigger_wakes: "snd (trigger (CAN_READ OR CAN_WRITE) ev) = waiters ev"
proof -
  have bits: "bit (3 :: u32) n \<longleftrightarrow> n < 2" for n
    by (cases n; cases "n - 1") (auto simp: bit_simps numeral_3_eq_3 less_Suc_eq)
  have w: "x AND (y OR 3) AND 2 \<noteq> 0 \<longleftrightarrow> bit x 1" for x y :: u32
    using and_exp_eq_0_iff_not_bit [of "x AND (y OR 3)" 1] by (simp add: bit_and_iff bit_or_iff bits and.assoc)
  have r: "x AND (y OR 3) AND 1 \<noteq> 0 \<longleftrightarrow> bit x 0" for x y :: u32
    using and_exp_eq_0_iff_not_bit [of "x AND (y OR 3)" 0] by (simp add: bit_and_iff bit_or_iff bits and.assoc)
  have m: "x AND (y OR 3) \<noteq> 0 \<longleftrightarrow> (\<exists>n \<in> {..<32}. bit x n \<and> (bit y n \<or> n < 2))" for x y :: u32
  proof -
    have "z = 0 \<longleftrightarrow> (\<forall>n < 32. \<not> bit z n)" for z :: u32 by (auto intro: bit_word_eqI)
    moreover have "bit (x AND (y OR 3)) n \<longleftrightarrow> bit x n \<and> (bit y n \<or> n < 2)" for n
      unfolding bit_and_iff bit_or_iff bits ..
    ultimately show ?thesis by auto
  qed
  show ?thesis unfolding waiters_def m [symmetric] w [symmetric, of _ "ev_event ev"] r [symmetric, of _ "ev_event ev"]
    by (simp add: trigger_def Let_def)
qed

lemma co_posts_ok:
  assumes "co_inv m w" "distinct ps" "\<forall>x \<in> set ps. \<exists>i. x = Some i \<and> parked i w"
  shows "\<exists>w'. co_posts ps w = Inr w' \<and> co_inv m w' \<and> sched w' = Some (the (sched w) @ ps)
    \<and> current w' = current w \<and> (\<forall>j. kept j w w')"
  using assms
proof (induction ps arbitrary: w)
  case Nil
  then show ?case by (auto simp: co_inv_def queue_ok_def)
next
  case (Cons x ps)
  from Cons.prems obtain i where i: "x = Some i" "parked i w" by auto
  from Cons.prems(1) obtain q where q: "sched w = Some q" by (auto simp: co_inv_def queue_ok_def)
  from Post_ok [OF Cons.prems(1) i(2)] obtain v where v: "co_post (Some i) w = Inr v" "co_inv m v"
    "\<forall>j. kept j w v" "current v = current w" by blast
  have sv: "sched v = Some (q @ [Some i])" using v(1) q by (auto simp: co_post_def rr_enqueue_def)
  have "parked j v" if "parked j w" "j \<noteq> i" for j
    using that v(3,4) kept_dom [of j w v] sv q by (simp add: parked_def queued_def)
  then have "\<forall>x \<in> set ps. \<exists>j. x = Some j \<and> parked j v"
    using Cons.prems(2,3) i by (metis distinct.simps(2) list.set_intros(2))
  with Cons.IH [OF v(2)] Cons.prems(2) obtain w' where w': "co_posts ps v = Inr w'" "co_inv m w'"
    "sched w' = Some (the (sched v) @ ps)" "current w' = current v" "\<forall>j. kept j v w'" by auto
  have "kept j w w'" for j using v(3) w'(5) kept_trans by metis
  with w' v sv q i show ?case by simp
qed

lemma dispatch_eq:
  assumes "live p"
  shows "\<exists>p'. dispatch fd events p w = and_then (co_posts (waiters_of p fd) w) (\<lambda>w. Inr (p', w))
    \<and> live p' \<and> handle_map p' = handle_map p \<and> (\<forall>fd'. fd' \<noteq> fd \<longrightarrow> waiters_of p' fd' = waiters_of p fd')"
proof (cases "map_find fd_less fd (handle_map p)")
  case None
  with assms show ?thesis by (auto simp: dispatch_def waiters_of_def)
next
  case (Some k)
  with assms obtain ev where ev: "ev_objs p k = Some ev" unfolding live_def by blast
  let ?p = "p\<lparr>ev_objs := (ev_objs p)(k := Some (fst (trigger (CAN_READ OR CAN_WRITE) ev)))\<rparr>"
  have "dispatch fd events p w = and_then (co_posts (waiters_of p fd) w) (\<lambda>w. Inr (?p, w))"
    using Some ev trigger_wakes [of ev] by (auto simp: dispatch_def waiters_of_def split: prod.splits)
  moreover have "live ?p" using assms by (auto simp: live_def)
  moreover have "waiters_of ?p fd' = waiters_of p fd'" if "fd' \<noteq> fd" for fd'
  proof -
    have "map_find fd_less fd' (handle_map p) \<noteq> Some k"
      using assms Some that unfolding live_def by blast
    then show ?thesis by (auto simp: waiters_of_def split: option.splits)
  qed
  ultimately show ?thesis by auto
qed

lemma co_posts_append: "co_posts (ps @ qs) w = and_then (co_posts ps w) (co_posts qs)"
  by (induction ps arbitrary: w) (auto simp: and_then_def split: sum.splits)

lemma poll_batch_posts:
  assumes "live p" "distinct (map fst batch)"
  shows "\<exists>p'. poll_batch batch p w =
    and_then (co_posts (concat (map (waiters_of p \<circ> fst) batch)) w) (\<lambda>w. Inr (p', w))"
  using assms
proof (induction batch arbitrary: p w)
  case (Cons b batch)
  obtain fd events where b: "b = (fd, events)" by force
  from dispatch_eq [OF Cons.prems(1), of fd events w] obtain p1 where
    p1: "dispatch fd events p w = and_then (co_posts (waiters_of p fd) w) (\<lambda>w. Inr (p1, w))"
    "live p1" "\<forall>fd'. fd' \<noteq> fd \<longrightarrow> waiters_of p1 fd' = waiters_of p fd'" by blast
  have same: "map (waiters_of p1 \<circ> fst) batch = map (waiters_of p \<circ> fst) batch"
    using p1(3) Cons.prems(2) b by (auto simp: image_iff)
  show ?case
  proof (cases "co_posts (waiters_of p fd) w")
    case (Inl e)
    with p1(1) b show ?thesis by (simp add: co_posts_append)
  next
    case (Inr v)
    have "distinct (map fst batch)" using Cons.prems(2) by simp
    from Cons.IH [OF p1(2) this, of v] obtain p' where
      "poll_batch batch p1 v = and_then (co_posts (concat (map (waiters_of p \<circ> fst) batch)) v) (\<lambda>w. Inr (p', w))"
      unfolding same by blast
    with p1(1) Inr b show ?thesis by (auto simp: co_posts_append comp_def)
  qed
qed auto

section \<open>Properties\<close>

text \<open>C15: a batch of events wakes exactly whom it should: for distinct descriptors, when nobody waits
  in two places, the ready queue is afterwards the coroutines registered (\<open>waiters\<close>) with the objects of
  the batch's descriptors, each once, in the order of the batch, the writer of an object before its reader;
  every call succeeds and the library's invariant is kept; descriptors that are not registered are skipped.\<close>

theorem poll_wakes_waiters:
  assumes "co_inv m w" "sched w = Some []" "live p" "distinct (map fst batch)"
    and "distinct (concat (map (waiters_of p \<circ> fst) batch))"
    and "\<forall>x \<in> set (concat (map (waiters_of p \<circ> fst) batch)). \<exists>i. x = Some i \<and> parked i w"
  shows "\<exists>p' w'. poll_step im batch p w = Inr (p', w') \<and> co_inv m w'
    \<and> sched w' = Some (concat (map (waiters_of p \<circ> fst) batch))"
proof -
  from co_posts_ok [OF assms(1,5,6)] assms(2) obtain w' where
    "co_posts (concat (map (waiters_of p \<circ> fst) batch)) w = Inr w'" "co_inv m w'"
    "sched w' = Some (concat (map (waiters_of p \<circ> fst) batch))" by auto
  with poll_batch_posts [OF assms(3,4), of w] assms(2) show ?thesis
    by (auto simp: poll_step_def co_num_ready_def rr_num_def)
qed

text \<open>The main coroutine polls while coroutine 1 waits to read descriptor 5 and 2 to write 6.\<close>

definition demo_idle :: world where
  "demo_idle = demo_world\<lparr>current := Some 0, sched := Some [],
     cos := (cos demo_world)(1 \<mapsto> (coroutine_new demo_image 7 0 True)\<lparr>co_stack_ptr := Some 4,
       stack_copy := None, saved_ctx := zero_ctx\<lparr>RSP := 260\<rparr>\<rparr>)\<rparr>"

definition demo_pool :: event_pool where
  "demo_pool = \<lparr>handle_map = [(5, 0), (6, 1)],
     ev_objs = [0 \<mapsto> begin_wait_read 1 (async_event_new 5), 1 \<mapsto> begin_wait_write 2 (async_event_new 6)]\<rparr>"

lemma demo_idle_inv: "co_inv 0 demo_idle"
  unfolding co_inv_def co_base_def
proof (intro conjI)
  show "cos_ok (current demo_idle) demo_idle"
    by (auto simp: demo_idle_def demo_world_def cos_ok_def coroutine_new_def image_ok_def stack_top_def
      rsp_inside_def zero_ctx_def demo_image_def co_stack_default_def le64.length_put split: if_splits)
  show "stks_ok demo_idle"
    by (auto simp: demo_idle_def demo_world_def stks_ok_def coroutine_new_def stk_ok_def stack_top_def
      co_stack_default_def split: if_splits)
  show "owned_ok demo_idle"
    by (auto simp: demo_idle_def demo_world_def owned_ok_def coroutine_new_def split: if_splits)
  show "pool_ok demo_idle" by (simp add: demo_idle_def demo_world_def pool_ok_def)
  show "queue_ok 0 demo_idle"
    by (auto simp: demo_idle_def demo_world_def queue_ok_def coroutine_new_def)
  show "cur_ok demo_idle"
    by (auto simp: demo_idle_def demo_world_def cur_ok_def coroutine_new_def)
qed

lemma demo_waiters:
  "map_find fd_less fd (handle_map demo_pool) = (if fd = 5 then Some 0 else if fd = 6 then Some 1 else None)"
  "waiters_of demo_pool fd = (if fd = 5 then [Some 1] else if fd = 6 then [Some 2] else [])"
  by (auto simp: demo_pool_def waiters_of_def waiters_def begin_wait_read_def begin_wait_write_def
      async_event_new_def same_key_def fd_less_def bit_simps)

theorem poll_wakes_waiters_witness:
  "\<exists>p' w'. poll_step demo_image [(6, 4), (9, 1), (5, 1)] demo_pool demo_idle = Inr (p', w') \<and> co_inv 0 w'
    \<and> sched w' = Some [Some 2, Some 1]"
proof -
  have "live demo_pool" unfolding live_def demo_waiters by (auto simp: demo_pool_def)
  moreover have "sched demo_idle = Some []" "parked 1 demo_idle" "parked 2 demo_idle"
    by (simp_all add: demo_idle_def demo_world_def parked_def queued_def)
  ultimately show ?thesis
    using poll_wakes_waiters [OF demo_idle_inv, of demo_pool "[(6, 4), (9, 1), (5, 1)]" demo_image]
    by (simp add: demo_waiters)
qed

text \<open>Every event is taken for both kinds, because the flags are combined with \<open>|\<close> instead of
  tested with \<open>&\<close>, and it is never forgotten: from the first event of a descriptor on, waiting for
  either kind returns at once.\<close>

theorem every_event_is_both:
  "event_mask events = CAN_READ OR CAN_WRITE
   \<and> async_wait_start i CAN_READ (fst (trigger (event_mask e2) (fst (trigger (event_mask e1) ev)))) = Inr 0
   \<and> async_wait_start i CAN_WRITE (fst (trigger (event_mask e2) (fst (trigger (event_mask e1) ev)))) = Inr 0"
proof -
  have "(x OR 3) AND 1 \<noteq> (0 :: u32)" "(x OR 3) AND 2 \<noteq> (0 :: u32)" for x
    using and_bit_nonzero [of "x OR 3" 0 1] and_bit_nonzero [of "x OR 3" 1 2] by (simp_all add: bit_simps)
  then show ?thesis by (simp add: trigger_def async_wait_start_def Let_def or.assoc)
qed

text \<open>Handlers outlive their objects: when a descriptor's object is destroyed and the number is
  used again, the new registration is ignored because the old entry is still in the map, and the
  next event of the descriptor calls the handler of the destroyed object.\<close>

theorem reused_descriptor_undefined:
  assumes "map_ordered fd_less (handle_map p)" "map_find fd_less fd (handle_map p) = None" "k \<noteq> j"
  shows "\<exists>p1 p2. async_event_create 0 fd k p = Inr p1
    \<and> async_event_create 0 fd j (async_event_destroy k p1) = Inr p2
    \<and> map_find fd_less fd (handle_map p2) = Some k
    \<and> (\<forall>events w. dispatch fd events p2 w = Inl Undefined_Behaviour)"
proof -
  let ?m = "map_emplace fd_less fd k (handle_map p)"
  have o: "map_ordered fd_less ?m" using assms(1) by (rule fds.ordered_emplace)
  have k: "map_find fd_less fd ?m = Some k"
    using fds.find_emplace [OF assms(1), of fd fd k] assms(2) by simp
  have "map_find fd_less fd (map_emplace fd_less fd j ?m) = Some k"
    using fds.find_emplace [OF o, of fd fd j] k by simp
  then show ?thesis using assms(3)
    by (simp add: async_event_create_def add_event_def async_event_destroy_def dispatch_def)
qed

theorem reused_descriptor_undefined_witness:
  "\<exists>p1 p2. async_event_create 0 5 0 \<lparr>handle_map = [], ev_objs = \<lambda>_. None\<rparr> = Inr p1
    \<and> async_event_create 0 5 1 (async_event_destroy 0 p1) = Inr p2
    \<and> dispatch 5 1 p2 demo_world = Inl Undefined_Behaviour"
  using reused_descriptor_undefined [of "\<lparr>handle_map = [], ev_objs = \<lambda>_. None\<rparr>" 5 0 1] by auto

text \<open>Registration is a map from descriptors to handlers: \<open>add_event\<close> keeps an existing entry,
  \<open>del_event\<close> removes the descriptor's entry and no other, and both keep the entries in order.\<close>

theorem pool_registration:
  assumes "map_ordered fd_less (handle_map p)"
  shows "(\<exists>q. add_event 0 fd k p = Inr q \<and> map_ordered fd_less (handle_map q)
      \<and> map_find fd_less g (handle_map q) =
          (if g = fd \<and> map_find fd_less fd (handle_map p) = None then Some k
           else map_find fd_less g (handle_map p)))
    \<and> map_ordered fd_less (handle_map (del_event fd p))
    \<and> map_find fd_less g (handle_map (del_event fd p)) =
        (if g = fd then None else map_find fd_less g (handle_map p))"
proof -
  have "same_key fd_less a b \<longleftrightarrow> a = b" for a b by (auto simp: same_key_def fd_less_def)
  then show ?thesis
    using fds.find_emplace [OF assms, of g fd k] fds.ordered_emplace [OF assms, of fd k]
      fds.find_erase [OF assms, of g fd] fds.ordered_erase [OF assms, of fd] assms
    by (auto simp: add_event_def del_event_def split: option.splits)
qed

theorem pool_registration_witness:
  "map_find fd_less 4 (handle_map (del_event 5 \<lparr>handle_map = [(4, 0), (5, 1)], ev_objs = \<lambda>_. None\<rparr>)) = Some 0"
  using pool_registration [of "\<lparr>handle_map = [(4, 0), (5, 1)], ev_objs = \<lambda>_. None\<rparr>" 5 7 4]
  by (simp add: fd_less_def same_key_def)

text \<open>An object has room for one waiting writer: when a second coroutine waits to write before the
  first was woken, the first is forgotten, and no later event wakes it.\<close>

theorem second_writer_loses_first:
  assumes "ev_waited_mask ev = 0" "co_read ev \<noteq> Some i" "i \<noteq> j"
  shows "Some i \<notin> set (snd (trigger events (begin_wait_write j (begin_wait_write i ev))))"
  using assms by (auto simp: trigger_def begin_wait_write_def Let_def)

theorem second_writer_loses_first_witness:
  "Some 1 \<notin> set (snd (trigger 3 (begin_wait_write 2 (begin_wait_write 1 (async_event_new 5)))))"
  by (rule second_writer_loses_first) (simp_all add: async_event_new_def)

end
