(* ===== verification/Poll_Loop.thy ===== *)
theory Poll_Loop
  imports Event_Pool
begin

text \<open>
  The inner loop of \<open>poll_forever\<close> (\<open>while (co_num_ready() > 0) co_resched();\<close>) together with the
  coroutines it resumes. A reschedule of the main coroutine runs the ready ones in turn, each until it
  waits (\<open>co_yield\<close>), returns (\<open>co_exit\<close>) or reschedules; \<open>co_turns\<close> are the steps of such a round, until the
  main coroutine runs again. Within its turn a coroutine calls what it likes: it posts, creates and destroys
  coroutines, and the code between two calls is a step \<open>Run\<close>. A turn need not end.
\<close>

definition ends_turn :: "co_action \<Rightarrow> bool" where
  "ends_turn a \<longleftrightarrow> a = Yield \<or> a = Exit \<or> a = Resched"

text \<open>What a step puts into the ready queue.\<close>

fun posted_by :: "co_action \<Rightarrow> world \<Rightarrow> nat option list" where
  "posted_by (Post i) w = [Some i]"
| "posted_by Resched w = [current w]"
| "posted_by _ w = []"

text \<open>From \<open>u\<close> to \<open>v\<close>, \<open>n\<close> turns end and \<open>ps\<close> are the coroutines posted meanwhile, in order.\<close>

inductive co_turns :: "image \<Rightarrow> nat \<Rightarrow> world \<Rightarrow> world \<Rightarrow> nat \<Rightarrow> nat option list \<Rightarrow> bool" for im m where
  turns_start: "co_turns im m u u 0 []"
| turns_step: "co_turns im m u v n ps \<Longrightarrow> current v \<noteq> Some m \<Longrightarrow> co_allowed m a v \<Longrightarrow> co_do im a v = Inr w \<Longrightarrow>
    co_turns im m u w (if ends_turn a then Suc n else n) (ps @ posted_by a v)"

section \<open>The queue under each step\<close>

lemma swap_in_frame:
  "save_stack i w = Inr w' \<Longrightarrow> sched w' = sched w \<and> current w' = current w"
  "restore_stack i w = Inr w' \<Longrightarrow> sched w' = sched w \<and> current w' = current w"
  "co_swap_in i w = Inr w' \<Longrightarrow> sched w' = sched w \<and> current w' = current w"
proof -
  show s: "sched w' = sched w \<and> current w' = current w" if "save_stack i w = Inr w'" for i w w'
    using that by (auto simp: save_stack_def set_co_def Let_def and_then_Inr_iff split: if_splits)
  show r: "sched w' = sched w \<and> current w' = current w" if "restore_stack i w = Inr w'" for i w w'
    using that by (auto simp: restore_stack_def set_co_def set_stk_def and_then_Inr_iff split: if_splits)
  show "sched w' = sched w \<and> current w' = current w" if "co_swap_in i w = Inr w'"
    using that by (auto simp: co_swap_in_def and_then_Inr_iff split: if_splits option.splits dest!: s r)
qed

lemma co_sched_pops:
  assumes "co_sched w = Inr w'" "sched w = Some q"
  shows "current w' # the (sched w') = q"
proof -
  have keep: "sched v' = sched v \<and> current v' = current v" if "load_context v = Inr v'" for v v'
    using that by (auto simp: load_context_def and_then_Inr_iff)
  from assms show ?thesis
    by (auto simp: co_sched_def rr_dequeue_def and_then_Inr_iff Let_def split: list.splits option.splits if_splits
        dest!: keep swap_in_frame(3))
qed

lemma destroy_frame: "co_destroy p w = Inr w' \<Longrightarrow> sched w' = sched w"
  by (auto simp: co_destroy_def coroutine_delete_def set_stk_def and_then_Inr_iff split: if_splits option.splits)

lemma run_frame: "co_run ctx mem w = Inr w' \<Longrightarrow> sched w' = sched w \<and> current w' = current w"
  by (auto simp: co_run_def set_stk_def and_then_Inr_iff)

text \<open>Ending a turn takes the head of the queue.\<close>

lemma turn_pops:
  assumes "a = Yield \<or> a = Exit" "co_do im a w = Inr w'" "sched w = Some q"
  shows "current w' # the (sched w') = q"
proof (cases "a = Yield")
  case True
  then obtain p where "co_yield im w = Inr (p, w')"
    using assms(2) by (cases "co_yield im w") auto
  then obtain v where v: "save_context im w = Inr v" "co_sched v = Inr w'"
    by (auto simp: co_yield_def Let_def and_then_Inr_iff)
  moreover have "sched v = Some q"
    using v(1) assms(3) by (auto simp: save_context_def set_co_def and_then_Inr_iff)
  ultimately show ?thesis by (intro co_sched_pops)
next
  case False
  with assms obtain v where "co_destroy (current w) (w\<lparr>cpu := (cpu w)\<lparr>RSP := at_static_stack im\<rparr>\<rparr>) = Inr v"
    "co_sched v = Inr w'"
    by (auto simp: co_exit_def Let_def and_then_Inr_iff)
  with destroy_frame [OF this(1)] assms(3) show ?thesis by (intro co_sched_pops) simp_all
qed

lemma co_inv_sched: "co_inv m w \<Longrightarrow> \<exists>q. sched w = Some q \<and> distinct (current w # q)"
  by (auto simp: co_inv_def queue_ok_def)

text \<open>Every step moves the running coroutine and the queue behind it like this.\<close>

lemma step_queue:
  assumes "co_inv m v" "co_allowed m a v" "co_do im a v = Inr w"
  shows "co_inv m w \<and> current w # the (sched w) =
    (if ends_turn a then tl (current v # the (sched v) @ posted_by a v) else current v # the (sched v) @ posted_by a v)"
proof -
  obtain q where q: "sched v = Some q" using co_inv_sched [OF assms(1)] by blast
  have w: "co_inv m w" using co_do_ok [OF assms(1,2), of im] assms(3) by auto
  have "current w # the (sched w) =
    (if ends_turn a then tl (current v # q @ posted_by a v) else current v # q @ posted_by a v)"
  proof (cases a)
    case (Run ctx mem)
    then show ?thesis using assms(3) q run_frame [of ctx mem v w] by (simp add: ends_turn_def)
  next
    case Resched
    then show ?thesis using assms(3) q Resched_ok [OF assms(1), of im] by (auto simp: ends_turn_def)
  next
    case (Post i)
    then show ?thesis using assms(3) q by (auto simp: ends_turn_def co_post_def rr_enqueue_def)
  next
    case (Destroy i)
    then show ?thesis
      using assms q Destroy_ok [OF assms(1), of i] destroy_frame [of "Some i" v w] by (auto simp: ends_turn_def)
  next
    case (Create addr g n rout par)
    then obtain k where c: "co_create im addr g n rout par v = Inr (k, w)" using assms(3) by (auto simp: and_then_Inr_iff)
    with Create assms(2) Create_ok [OF assms(1), of n addr im g rout par] co_create_frame [OF c] q
    show ?thesis by (simp add: ends_turn_def)
  next
    case (Create_Shared rout par)
    then obtain k where c: "co_create_shared im rout par v = Inr (k, w)" using assms(3) by (auto simp: and_then_Inr_iff)
    with Create_Shared Create_Shared_ok [OF assms(1), of im rout par] co_create_shared_frame [OF c] q
    show ?thesis by (simp add: ends_turn_def)
  qed (use turn_pops [OF _ assms(3) q] in \<open>simp_all add: ends_turn_def\<close>)
  with w q show ?thesis by simp
qed

lemma co_turns_pops:
  assumes "co_turns im m u v n ps" "co_inv m u"
  shows "co_inv m v \<and> current v # the (sched v) = drop n (current u # the (sched u) @ ps)"
  using assms
proof (induction rule: co_turns.induct)
  case (turns_step u v n ps a w)
  then have v: "co_inv m v" "current v # the (sched v) = drop n (current u # the (sched u) @ ps)" by auto
  then have n: "n < length (current u # the (sched u) @ ps)" by (metis drop_eq_Nil2 leI list.distinct(1))
  have "drop n (l @ p) = drop n l @ p" if "n < length l" for l p :: "nat option list" using that by simp
  from this [OF n, of "posted_by a v"]
  have "current v # the (sched v) @ posted_by a v = drop n (current u # the (sched u) @ ps @ posted_by a v)"
    by (simp add: v(2) [symmetric])
  moreover have "tl (drop n l) = drop (Suc n) l" for l :: "nat option list" by (simp add: drop_Suc tl_drop)
  ultimately show ?case using step_queue [OF v(1) turns_step.hyps(3,4)] by simp
qed simp

text \<open>The main coroutine stands in the queue behind those that were ready, so their turns come first.\<close>

lemma co_turns_main:
  assumes "co_turns im m u v n ps" "co_inv m u" "current u # the (sched u) = q @ [Some m]"
  shows "n \<le> length q \<and> (n = length q \<longleftrightarrow> current v = Some m)"
  using assms
proof (induction rule: co_turns.induct)
  case (turns_start u)
  then show ?case using co_inv_sched [of m u] by (cases q) auto
next
  case (turns_step u v n ps a w)
  let ?n = "if ends_turn a then Suc n else n"
  have n: "n < length q" using turns_step by (meson le_neq_implies_less)
  have "co_turns im m u w ?n (ps @ posted_by a v)" using turns_step.hyps by (rule co_turns.turns_step)
  note pops = co_turns_pops [OF this turns_step.prems(1)]
  have "current u # the (sched u) @ ps @ posted_by a v = q @ Some m # ps @ posted_by a v"
    using arg_cong [OF turns_step.prems(2), of "\<lambda>l. l @ ps @ posted_by a v"] by simp
  with pops have w: "current w # the (sched w) = drop ?n (q @ Some m # ps @ posted_by a v)" by simp
  have le: "?n \<le> length q" using n by simp
  have cur: "current w = (q @ Some m # ps @ posted_by a v) ! ?n"
    using arg_cong [OF w, of hd] le hd_drop_conv_nth [of ?n "q @ Some m # ps @ posted_by a v"] by (simp del: drop_append)
  have "distinct (current u # the (sched u))" using co_inv_sched [OF turns_step.prems(1)] by auto
  then have "distinct (q @ [Some m])" unfolding turns_step.prems(2) .
  then have "?n < length q \<Longrightarrow> q ! ?n \<noteq> Some m" using nth_mem by fastforce
  with cur le show ?case by (cases "?n = length q") (simp_all add: nth_append)
qed

section \<open>Properties\<close>

text \<open>C14: a round of the inner loop of \<open>poll_forever\<close> takes as many turns as there were ready coroutines,
  whatever they post, create, destroy or reschedule meanwhile: at any moment at most that many turns have
  ended, until the last of them each further wait or exit succeeds, and exactly after it the main coroutine
  runs again. Ready are then those that were posted during the round, so \<open>co_num_ready\<close> counts them, and
  the loop ends after the first round in which nobody posts. A turn that does not end keeps the round from
  ending.\<close>

theorem poll_round_ends:
  assumes "co_inv m w" "current w = Some m" "sched w = Some q" "q \<noteq> []"
    and "poll_step im batch p w = Inr (p', u)" "co_turns im m u v n ps"
  shows "n \<le> length q \<and> (n = length q \<longleftrightarrow> current v = Some m)
    \<and> (if n = length q then co_num_ready v = Inr (length ps) \<and> sched v = Some ps
       else \<exists>x y. co_do im Yield v = Inr x \<and> co_do im Exit v = Inr y)"
proof -
  from Resched_ok [OF assms(1), of im] assms(2-5) have u: "co_inv m u" "current u # the (sched u) = q @ [Some m]"
    by (auto simp: poll_step_def co_num_ready_def rr_num_def)
  note main = co_turns_main [OF assms(6) u]
  have "current u # the (sched u) @ ps = q @ Some m # ps" using arg_cong [OF u(2), of "\<lambda>l. l @ ps"] by simp
  with co_turns_pops [OF assms(6) u(1)]
  have v: "co_inv m v" "current v # the (sched v) = drop n (q @ Some m # ps)" by simp_all
  from co_inv_sched [OF v(1)] obtain r where r: "sched v = Some r" by blast
  show ?thesis
  proof (cases "n = length q")
    case True
    then show ?thesis using v(2) r main by (simp add: co_num_ready_def rr_num_def)
  next
    case False
    then show ?thesis
      using main co_do_ok [OF v(1), of Yield im] co_do_ok [OF v(1), of Exit im] by auto
  qed
qed

text \<open>Coroutine 1 posts 2 in its turn and waits: the round ends with 2 ready.\<close>

theorem poll_round_ends_witness:
  "\<exists>w u x v. co_post (Some 1) demo_idle = Inr w \<and> poll_step demo_image [] demo_pool w = Inr (demo_pool, u)
    \<and> co_do demo_image (Post 2) u = Inr x \<and> co_do demo_image Yield x = Inr v
    \<and> current v = Some 0 \<and> co_num_ready v = Inr 1 \<and> sched v = Some [Some 2]"
proof -
  have p: "parked 1 demo_idle" "parked 2 demo_idle" by (simp_all add: demo_idle_def demo_world_def parked_def queued_def)
  from Post_ok [OF demo_idle_inv p(1)] obtain w where w: "co_post (Some 1) demo_idle = Inr w" "co_inv 0 w"
    "kept 2 demo_idle w" "current w = current demo_idle" by auto
  have cs: "current w = Some 0" "sched w = Some [Some 1]"
    using w by (auto simp: demo_idle_def co_post_def rr_enqueue_def)
  obtain u where u: "poll_step demo_image [] demo_pool w = Inr (demo_pool, u)" "co_inv 0 u" "kept 2 w u"
    "current u # the (sched u) = [Some 1, Some 0]"
    using Resched_ok [OF w(2), of demo_image] cs by (auto simp: poll_step_def co_num_ready_def rr_num_def)
  have "2 \<in> dom (cos u)" using p(2) w(3) u(3) kept_dom unfolding parked_def by blast
  then have pu: "parked 2 u" "current u = Some 1" using u(4) co_inv_sched [OF u(2)] by (auto simp: parked_def queued_def)
  from Post_ok [OF u(2) pu(1)] obtain x where x: "co_post (Some 2) u = Inr x" "co_inv 0 x" "current x = Some 1"
    using pu(2) by auto
  from Yield_ok [OF x(2,3), of demo_image] obtain v where v: "co_do demo_image Yield x = Inr v" by auto
  note round = poll_round_ends [OF w(2) cs(1,2) _ u(1)]
  have "co_turns demo_image 0 u x 0 [Some 2]"
    using turns_step [OF turns_start, of u 0 "Post 2" demo_image x] x(1) pu by (simp add: ends_turn_def)
  from turns_step [OF this _ _ v] have "co_turns demo_image 0 u v (Suc 0) [Some 2]" using x(3) by (simp add: ends_turn_def)
  from round [OF _ this] w(1) u(1) x(1) v show ?thesis by auto
qed

end
