(* ===== verification/Sockets.thy ===== *)
theory Sockets
  imports Event_Pool Byte_Buffer Sock_Address
begin

text \<open>
  \<open>udp_socket\<close> and \<open>tcp_socket\<close> of \<open>network/socket.hpp\<close>, on top of \<open>async_file_event\<close>. As in
  \<open>Async_Io\<close>, each system call takes the next answer of a script, and \<open>None\<close> is a call that is still
  waiting when the script is used up. \<open>connect\<close> keeps the code's operator precedence.
\<close>

section \<open>UDP\<close>

text \<open>\<open>waited_\<close> is reset after the wait, \<open>co_write\<close> and \<open>co_read\<close> are not.\<close>

definition end_send_wait :: "async_file_event \<Rightarrow> async_file_event" where
  "end_send_wait ev = ev\<lparr>ev_waited := ev_waited ev AND NOT CAN_WRITE\<rparr>"

definition end_recv_wait :: "async_file_event \<Rightarrow> async_file_event" where
  "end_recv_wait ev = ev\<lparr>ev_waited := ev_waited ev AND NOT CAN_READ\<rparr>"

text \<open>The third component is what was handed to \<open>sendto\<close> when it succeeded.\<close>

fun async_send_to ::
    "nat \<Rightarrow> nat answer list \<Rightarrow> address \<Rightarrow> byte_buffer \<Rightarrow> async_file_event \<Rightarrow>
     (int \<times> async_file_event \<times> (address \<times> block) list) option outcome" where
  "async_send_to i [] addr buffer ev = Inr None"
| "async_send_to i (Done n # as) addr buffer ev =
     and_then (mem_load (buf_block buffer) 0 (buf_size buffer)) (\<lambda>bs.
     if n \<noteq> buf_size buffer then Inr (Some (to_int32 n, ev, [(addr, take n bs)]))
     else Inr (Some (to_int32 n, ev, [(addr, bs)])))"
| "async_send_to i (Try_Again # as) addr buffer ev =
     async_send_to i as addr buffer (end_send_wait (begin_wait_write i ev))"
| "async_send_to i (Failed # as) addr buffer ev = Inr (Some (-1, ev, []))"

text \<open>An answer of \<open>recvfrom\<close> is the bytes of a datagram, at most the buffer's size, and the sender's
  \<open>sockaddr\<close>, written to the storage of \<open>addr\<close> with its length.\<close>

fun async_read_from ::
    "nat \<Rightarrow> (block \<times> block) answer list \<Rightarrow> address \<Rightarrow> byte_buffer \<Rightarrow> async_file_event \<Rightarrow>
     (int \<times> address \<times> byte_buffer \<times> async_file_event) option outcome" where
  "async_read_from i [] addr buffer ev = Inr None"
| "async_read_from i (Done (d, sa) # as) addr buffer ev =
     and_then (mem_store (buf_block buffer) 0 d) (\<lambda>m.
     and_then (mem_store (addr_storage addr) 0 sa) (\<lambda>st.
     Inr (Some (to_int32 (length d), addr\<lparr>addr_storage := st, addr_len := length sa\<rparr>,
       buffer\<lparr>buf_ptr := Some m\<rparr>, ev))))"
| "async_read_from i (Try_Again # as) addr buffer ev =
     async_read_from i as addr buffer (end_recv_wait (begin_wait_read i ev))"
| "async_read_from i (Failed # as) addr buffer ev = Inr (Some (-1, addr, buffer, ev))"

text \<open>\<open>bind\<close> reports an error and goes on; \<open>connect\<close> does nothing.\<close>

definition udp_bind :: "int \<Rightarrow> unit outcome" where
  "udp_bind ret = Inr ()"

definition udp_connect :: "address \<Rightarrow> int" where
  "udp_connect addr = 0"

section \<open>TCP\<close>

definition tcp_bind :: "int \<Rightarrow> unit outcome" where
  "tcp_bind ret = (if ret < 0 then Inl (Runtime_Error ''bind failed'') else Inr ())"

definition tcp_listen :: "int \<Rightarrow> int" where
  "tcp_listen ret = ret"

text \<open>\<open>getsockname\<close> returned \<open>ret\<close>, the storage and the length.\<close>

definition get_local_address :: "(nat \<Rightarrow> u8) \<Rightarrow> int \<Rightarrow> block \<Rightarrow> nat \<Rightarrow> address outcome" where
  "get_local_address g ret storage len =
     (if ret \<noteq> 0 then Inl (Runtime_Error ''getsockname failed'')
      else address_of_storage g storage len)"

text \<open>\<open>accept\<close> waits until \<open>::accept\<close> delivers a descriptor. The errors other than \<open>EAGAIN\<close> throw.\<close>

fun accept_loop :: "nat \<Rightarrow> int answer list \<Rightarrow> async_file_event \<Rightarrow> (int \<times> async_file_event) option outcome" where
  "accept_loop i [] ev = Inr None"
| "accept_loop i (Done fd # as) ev = Inr (Some (fd, ev))"
| "accept_loop i (Try_Again # as) ev = accept_loop i as (end_recv_wait (begin_wait_read i ev))"
| "accept_loop i (Failed # as) ev = Inl (Runtime_Error ''accept failed'')"

text \<open>Then \<open>tcp_socket sock(pool_); sock.handle_.fd_ = fd; return sock;\<close> and, in the caller,
  \<open>make_shared<tcp_socket>(sock.accept())\<close>: a new socket \<open>sfd\<close> is opened and registered for the object
  \<open>k\<close>, its descriptor is replaced, and the object is moved to \<open>k'\<close>, after which \<open>k\<close> is gone.\<close>

definition accept_socket ::
    "int \<Rightarrow> int \<Rightarrow> nat \<Rightarrow> nat \<Rightarrow> async_file_event \<Rightarrow> int \<Rightarrow> event_pool \<Rightarrow> event_pool outcome" where
  "accept_socket ctl sfd k k' junk fd p =
     and_then (async_event_create ctl sfd k p) (\<lambda>p.
     let sock = (async_event_new sfd)\<lparr>ev_fd := fd\<rparr>;
         p = p\<lparr>ev_objs := (ev_objs p)(k' := Some (async_event_move junk sock))\<rparr>
     in Inr (async_event_destroy k p))"

text \<open>\<open>connect\<close>: \<open>c\<close> is what \<open>::connect\<close> returned, \<open>inprogress\<close> whether \<open>errno\<close> is \<open>EINPROGRESS\<close>, \<open>opt\<close> and
  \<open>so_error\<close> the result of \<open>getsockopt\<close>. The assignment takes the value of the comparison. The second
  component says whether the coroutine waited.\<close>

definition tcp_connect :: "int \<Rightarrow> bool \<Rightarrow> int \<Rightarrow> int \<Rightarrow> int \<times> bool" where
  "tcp_connect c inprogress opt so_error =
     (let ret = (if c < 0 then 1 else 0 :: int)
      in if ret \<noteq> 0 then
           if ret < 0 then
             if inprogress then
               if opt \<noteq> 0 then (-1, True)
               else if so_error = 0 then (0, True) else (-1, True)
             else (-1, False)
           else (-1, False)
         else (-1, False))"

section \<open>Properties\<close>

text \<open>\<open>connect\<close> of a TCP socket always returns -1 and never waits: the assignment stores the
  comparison's 0 or 1, so neither an established connection nor one in progress is recognised.\<close>

theorem tcp_connect_always_fails:
  "tcp_connect c inprogress opt so_error = (-1, False)"
  by (simp add: tcp_connect_def)

text \<open>The descriptor of an accepted connection is not in the pool and no event of it wakes anyone,
  while the socket opened on the way is registered for an object that no longer exists, so an event
  of that socket is undefined.\<close>

theorem accepted_socket_unregistered:
  assumes "map_ordered fd_less (handle_map p)" "map_find fd_less fd (handle_map p) = None"
    and "map_find fd_less sfd (handle_map p) = None" "fd \<noteq> sfd" "k \<noteq> k'"
  shows "\<exists>q. accept_socket 0 sfd k k' junk fd p = Inr q
    \<and> map_option ev_fd (ev_objs q k') = Some fd
    \<and> map_find fd_less fd (handle_map q) = None
    \<and> (\<forall>events w. dispatch fd events q w = Inr (q, w))
    \<and> (\<forall>events w. dispatch sfd events q w = Inl Undefined_Behaviour)"
proof -
  have key: "same_key fd_less a b \<longleftrightarrow> a = b" for a b by (auto simp: same_key_def fd_less_def)
  have "map_find fd_less fd (map_emplace fd_less sfd k (handle_map p)) = None"
    "map_find fd_less sfd (map_emplace fd_less sfd k (handle_map p)) = Some k"
    using fds.find_emplace [OF assms(1), of fd sfd k] fds.find_emplace [OF assms(1), of sfd sfd k] assms(2-4)
    by (simp_all add: key)
  then show ?thesis using assms(5)
    by (simp add: accept_socket_def async_event_create_def add_event_def async_event_destroy_def
        dispatch_def async_event_move_def Let_def)
qed

theorem accepted_socket_unregistered_witness:
  "\<exists>q. accept_socket 0 8 0 1 (async_event_new 0) 9 \<lparr>handle_map = [(4, 7)], ev_objs = \<lambda>_. None\<rparr> = Inr q
    \<and> map_option ev_fd (ev_objs q 1) = Some 9 \<and> map_find fd_less 9 (handle_map q) = None
    \<and> dispatch 8 1 q demo_world = Inl Undefined_Behaviour"
proof -
  have "map_find fd_less 9 [(4, 7 :: nat)] = None" "map_find fd_less 8 [(4, 7 :: nat)] = None"
    by (simp_all add: same_key_def fd_less_def)
  then show ?thesis
    using accepted_socket_unregistered [of "\<lparr>handle_map = [(4, 7)], ev_objs = \<lambda>_. None\<rparr>" 9 8 0 1 "async_event_new 0"]
    by auto
qed

text \<open>A datagram arrives whole: after any number of waits the buffer starts with its bytes, the
  address is the sender's and the return value the datagram's length.\<close>

theorem datagram_received:
  assumes "\<forall>a \<in> set as. a = Try_Again" "length d \<le> capacity buffer" "length d < 2 ^ 31"
    and "length sa \<le> length (addr_storage addr)"
  shows "\<exists>addr' buffer' ev'. async_read_from i (as @ Done (d, sa) # rest) addr buffer ev =
      Inr (Some (int (length d), addr', buffer', ev'))
    \<and> take (length d) (buf_block buffer') = d \<and> buf_size buffer' = buf_size buffer
    \<and> addr_key addr' = (length sa, sa)"
  using assms(1)
proof (induction as arbitrary: ev)
  case Nil
  then show ?case using assms(2-4) by (simp add: mem_simps addr_key_def)
next
  case (Cons a as)
  then show ?case by auto
qed

theorem datagram_received_witness:
  "\<exists>addr' buffer' ev'. async_read_from 1 [Try_Again, Done ([1, 2], sockaddr_in [10, 0, 0, 1] [3, 4])]
      address_default (buf_sized (\<lambda>_. 0) 4) (async_event_new 5) = Inr (Some (2, addr', buffer', ev'))
    \<and> take 2 (buf_block buffer') = [1, 2] \<and> addr_key addr' = addr_key (inet_address [10, 0, 0, 1] [3, 4])"
proof -
  have "length [1, 2 :: u8] = 2" by simp
  then show ?thesis
    using datagram_received [of "[Try_Again]" "[1, 2]" "buf_sized (\<lambda>_. 0) 4" "sockaddr_in [10, 0, 0, 1] [3, 4]"
        address_default 1 "[]" "async_event_new 5", unfolded \<open>length [1, 2 :: u8] = 2\<close>]
    by (fastforce simp: buf_sized_def buf_block_def address_default_def sockaddr_in_def inet_address_simps)
qed

end
