(* ===== verification/Async_Timer.thy ===== *)
theory Async_Timer
  imports Async_Io Std_Map
begin

text \<open>
  \<open>network/timer.hpp\<close>: the times of namespace \<open>posix_time\<close> and the timer on a \<open>timerfd\<close>. A read of the
  descriptor delivers the number of expirations as eight bytes in native order; \<open>junk\<close> is the
  uninitialised variable it is read into.
\<close>

section \<open>Times\<close>

record posix_time =
  tv_sec :: int
  tv_nsec :: int

definition time_new :: "int \<Rightarrow> int \<Rightarrow> posix_time" where
  "time_new sec nsec = \<lparr>tv_sec = sec, tv_nsec = nsec\<rparr>"

definition seconds_new :: "int \<Rightarrow> posix_time" where
  "seconds_new sec = time_new sec 0"

definition time_less :: "posix_time \<Rightarrow> posix_time \<Rightarrow> bool" where
  "time_less l r =
     (if tv_sec l < tv_sec r then True
      else if tv_sec r < tv_sec l then False
      else if tv_nsec l < tv_nsec r then True
      else False)"

interpretation times: strict_weak_order time_less
  by unfold_locales (auto simp: time_less_def split: if_splits)

section \<open>The timer\<close>

record itimerspec =
  it_interval :: posix_time
  it_value :: posix_time

text \<open>The argument \<open>expire_from_now\<close> passes to \<open>timerfd_settime\<close>: a one-shot timer.\<close>

definition expire_from_now :: "posix_time \<Rightarrow> itimerspec" where
  "expire_from_now t = \<lparr>it_interval = time_new 0 0, it_value = t\<rparr>"

text \<open>\<open>async_wait\<close>: the value of \<open>count\<close> after the read, whether the message about zero is printed,
  and the object afterwards.\<close>

definition timer_wait ::
    "nat \<Rightarrow> block answer list \<Rightarrow> block \<Rightarrow> async_file_event \<Rightarrow> (u64 \<times> bool \<times> async_file_event) option outcome" where
  "timer_wait i as junk ev =
     and_then (async_read i as junk 8 0 ev) (\<lambda>r.
     Inr (map_option (\<lambda>(ret, buf, ev, rest). (le64_get buf, le64_get buf = 0, ev)) r))"

section \<open>Properties\<close>

text \<open>Waiting for the timer returns only when the descriptor has a count, however often it has to
  wait, and yields exactly that count; an error is not noticed and leaves the indeterminate value.\<close>

theorem timer_wait_counts:
  assumes "\<forall>a \<in> set as. a = Try_Again" "length junk = 8" "read_idle ev"
  shows "timer_wait i as junk ev = Inr None
    \<and> timer_wait i (as @ [Done (le64_put n)]) junk ev = Inr (Some (n, n = 0, ev))
    \<and> timer_wait i (as @ [Failed]) junk ev = Inr (Some (le64_get junk, le64_get junk = 0, ev))"
proof -
  have "async_read i (as @ rest) junk 8 0 ev = async_read i rest junk 8 0 ev" for rest
    using assms(1) by (intro read_no_bytes [OF assms(3)]) auto
  from this [of "[]"] this [of "[Done (le64_put n)]"] this [of "[Failed]"] show ?thesis
    using assms(2) by (simp add: timer_wait_def mem_simps codec_simps)
qed

theorem timer_wait_counts_witness:
  "timer_wait 1 [Try_Again, Try_Again, Done (le64_put 3)] (replicate 8 1) (async_event_new 5) =
    Inr (Some (3, False, async_event_new 5))"
  using timer_wait_counts [of "[Try_Again, Try_Again]" "replicate 8 1" "async_event_new 5" 1 3]
  by (simp add: read_idle_def async_event_new_def)

end
