(* ===== verification/Socks5.thy ===== *)
theory Socks5
  imports Sockets
begin

text \<open>
  \<open>socks5_handler\<close> of \<open>bridge/ether_bridge_server.cpp\<close>: the handshake as a function of the bytes the
  client sends, with what the server writes back, and one step of the two piping loops. A read of
  \<open>n\<close> bytes is \<open>async_read\<close>: it takes the next \<open>n\<close> bytes, and while they have not all arrived the
  handler waits, or, when the connection breaks (\<open>brk = Some g\<close>), it goes on with a partly filled buffer,
  because the return value is ignored; \<open>g k\<close> is what the \<open>k\<close>-th buffer held before. \<open>sock\<close> is the client's connection; what \<open>getsockname\<close> says of the new socket is an argument.
\<close>

type_synonym broken = "(nat \<Rightarrow> nat \<Rightarrow> u8) option"

definition read_n :: "broken \<Rightarrow> nat \<Rightarrow> nat \<Rightarrow> block \<Rightarrow> (block \<times> block) option" where
  "read_n brk k n inp =
     (if n \<le> length inp then Some (take n inp, drop n inp)
      else case brk of None \<Rightarrow> None
           | Some g \<Rightarrow> Some (inp @ drop (length inp) (new_array (g k) n), []))"

text \<open>The address: \<open>None\<close> is the null pointer of an unknown address type. A name is passed on as a C
  string, up to its first zero byte.\<close>

definition c_string :: "block \<Rightarrow> string" where
  "c_string bs = map (\<lambda>b. char_of (unat b)) (takeWhile (\<lambda>b. b \<noteq> 0) bs)"

definition port_of :: "block \<Rightarrow> u16" where
  "port_of p = push_bit 8 (ucast (p ! 0)) OR ucast (p ! 1)"

datatype socks_result =
    Socks_Waiting "block list"
  | Socks_Closed "block list"
  | Socks_Piping string u16 "block list" block

definition read_ipv4 :: "broken \<Rightarrow> block \<Rightarrow> ((string \<times> u16) \<times> block) option" where
  "read_ipv4 brk inp =
     (case read_n brk 3 4 inp of None \<Rightarrow> None
      | Some (ipv4, inp) \<Rightarrow> (case read_n brk 4 2 inp of None \<Rightarrow> None
        | Some (port, inp) \<Rightarrow> Some ((dotted ipv4, port_of port), inp)))"

definition read_name :: "broken \<Rightarrow> block \<Rightarrow> ((string \<times> u16) \<times> block) option" where
  "read_name brk inp =
     (case read_n brk 3 1 inp of None \<Rightarrow> None
      | Some (l, inp) \<Rightarrow> (case read_n brk 4 (unat (hd l)) inp of None \<Rightarrow> None
        | Some (name, inp) \<Rightarrow> (case read_n brk 5 2 inp of None \<Rightarrow> None
          | Some (port, inp) \<Rightarrow> Some ((c_string name, port_of port), inp))))"

definition connect_reply :: "u32 \<Rightarrow> u16 \<Rightarrow> block" where
  "connect_reply ipv4 port =
     [5, 0, 0, 1, ucast (drop_bit 24 ipv4), ucast (drop_bit 16 ipv4), ucast (drop_bit 8 ipv4), ucast ipv4,
      ucast (drop_bit 8 port), ucast port]"

text \<open>The second \<open>switch\<close>, on the command \<open>cmd\<close>: CONNECT dereferences the address; the result of
  \<open>connect\<close> is not looked at.\<close>

definition run_command ::
    "address outcome \<Rightarrow> u8 \<Rightarrow> (string \<times> u16) option \<Rightarrow> block list \<Rightarrow> block \<Rightarrow> socks_result outcome" where
  "run_command local cmd addr out inp =
     (if cmd = 1 then
        and_then local (\<lambda>l.
        case addr of None \<Rightarrow> Inl Undefined_Behaviour
        | Some (host, port) \<Rightarrow>
            Inr (Socks_Piping host port (out @ [connect_reply (address_ipv4 l) (address_port l)]) inp))
      else Inr (Socks_Closed out))"

definition socks5_handler :: "broken \<Rightarrow> address outcome \<Rightarrow> block \<Rightarrow> socks_result outcome" where
  "socks5_handler brk local inp =
     (case read_n brk 0 2 inp of None \<Rightarrow> Inr (Socks_Waiting [])
      | Some (buf, inp) \<Rightarrow>
     (case read_n brk 1 (unat (buf ! 1)) inp of None \<Rightarrow> Inr (Socks_Waiting [])
      | Some (vers, inp) \<Rightarrow>
     let out = [[5, 0]] in
     (case read_n brk 2 4 inp of None \<Rightarrow> Inr (Socks_Waiting out)
      | Some (req, inp) \<Rightarrow>
          if req ! 3 = 1 then
            (case read_ipv4 brk inp of None \<Rightarrow> Inr (Socks_Waiting out)
             | Some (addr, inp) \<Rightarrow> run_command local (req ! 1) (Some addr) out inp)
          else if req ! 3 = 3 then
            (case read_name brk inp of None \<Rightarrow> Inr (Socks_Waiting out)
             | Some (addr, inp) \<Rightarrow> run_command local (req ! 1) (Some addr) out inp)
          else if req ! 3 = 4 then Inr (Socks_Closed out)
          else run_command local (req ! 1) None out inp)))"

text \<open>The sizes the handler asks for when it receives \<open>inp\<close>.\<close>

definition socks5_requests :: "block \<Rightarrow> nat list" where
  "socks5_requests inp =
     (let n = unat (inp ! 1); req = drop (2 + n) inp
      in [2, n, 4] @ (if req ! 3 = 1 then [4, 2] else if req ! 3 = 3 then [1, unat (req ! 4), 2] else []))"

text \<open>One iteration of a piping loop: \<open>ret\<close> is what \<open>async_read_some\<close> returned, kept in a \<open>size_t\<close>, and
  \<open>buf\<close> the 4096 bytes of the buffer; \<open>None\<close> is the \<open>break\<close>.\<close>

definition pipe_step :: "int \<Rightarrow> block \<Rightarrow> block option outcome" where
  "pipe_step ret buf =
     (let r = size_of_int ret
      in if 0 < r then and_then (mem_load buf 0 r) (\<lambda>bs. Inr (Some bs)) else Inr None)"

section \<open>Lemmas\<close>

lemma read_n_append: "length a = n \<Longrightarrow> read_n brk k n (a @ b) = Some (a, b)"
  by (simp add: read_n_def)

lemma port_of_be16: "port_of (be16_put p) = p"
proof -
  have "port_of (be16_put p) = be16_get (be16_put p)" by (simp add: port_of_def be16_put_def)
  then show ?thesis by (simp add: codec_simps)
qed

text \<open>A client's greeting, and its CONNECT requests.\<close>

definition greeting :: "u8 \<Rightarrow> block \<Rightarrow> block" where
  "greeting ver methods = [ver, word_of_nat (length methods)] @ methods"

definition request_ipv4 :: "u8 \<Rightarrow> u8 \<Rightarrow> u8 \<Rightarrow> block \<Rightarrow> u16 \<Rightarrow> block" where
  "request_ipv4 ver cmd rsv ip port = [ver, cmd, rsv, 1] @ ip @ be16_put port"

definition request_name :: "u8 \<Rightarrow> u8 \<Rightarrow> u8 \<Rightarrow> block \<Rightarrow> u16 \<Rightarrow> block" where
  "request_name ver cmd rsv name port =
     [ver, cmd, rsv, 3, word_of_nat (length name)] @ name @ be16_put port"

lemma handler_after_greeting:
  assumes "length methods < 256" "length req = 4"
  shows "socks5_handler brk local (greeting ver methods @ req @ inp) =
    (if req ! 3 = 1 then
       (case read_ipv4 brk inp of None \<Rightarrow> Inr (Socks_Waiting [[5, 0]])
        | Some (addr, inp) \<Rightarrow> run_command local (req ! 1) (Some addr) [[5, 0]] inp)
     else if req ! 3 = 3 then
       (case read_name brk inp of None \<Rightarrow> Inr (Socks_Waiting [[5, 0]])
        | Some (addr, inp) \<Rightarrow> run_command local (req ! 1) (Some addr) [[5, 0]] inp)
     else if req ! 3 = 4 then Inr (Socks_Closed [[5, 0]])
     else run_command local (req ! 1) None [[5, 0]] inp)"
proof -
  have "unat (word_of_nat (length methods) :: u8) = length methods"
    using assms(1) by (simp add: unat_of_nat)
  then show ?thesis
    using read_n_append [of methods "length methods" brk 1 "req @ inp"] read_n_append [OF assms(2), of brk 2 inp]
    by (simp add: socks5_handler_def greeting_def read_n_def Let_def)
qed

lemma read_ipv4_request: "length ip = 4 \<Longrightarrow> read_ipv4 brk (ip @ be16_put port @ inp) = Some ((dotted ip, port), inp)"
  using port_of_be16 by (simp add: read_ipv4_def read_n_append be16.length_put)

lemma read_name_request:
  assumes "length name < 256"
  shows "read_name brk ([word_of_nat (length name)] @ name @ be16_put port @ inp) = Some ((c_string name, port), inp)"
proof -
  have "unat (word_of_nat (length name) :: u8) = length name" using assms by (simp add: unat_of_nat)
  then show ?thesis
    using port_of_be16 read_n_append [of "[word_of_nat (length name)]" 1 brk 3 "name @ be16_put port @ inp"]
    by (simp add: read_name_def read_n_append be16.length_put)
qed

section \<open>Properties\<close>

text \<open>C26: the handshake of a well-formed CONNECT request, by address or by name, is answered with the
  two replies of the protocol and goes on to pipe to exactly the requested host and port, starting
  with the bytes that follow the request; the reply says success whatever \<open>connect\<close> returned.\<close>

theorem socks5_connects:
  assumes "length methods < 256" "length name < 256" "length ip = 4"
  shows "socks5_handler brk (Inr l) (greeting ver methods @ request_ipv4 v 1 rsv ip port @ rest) =
      Inr (Socks_Piping (dotted ip) port [[5, 0], connect_reply (address_ipv4 l) (address_port l)] rest)
    \<and> socks5_handler brk (Inr l) (greeting ver methods @ request_name v 1 rsv name port @ rest) =
      Inr (Socks_Piping (c_string name) port [[5, 0], connect_reply (address_ipv4 l) (address_port l)] rest)"
  using handler_after_greeting [OF assms(1), of "[v, 1, rsv, 1]" brk "Inr l" ver "ip @ be16_put port @ rest"]
    handler_after_greeting [OF assms(1), of "[v, 1, rsv, 3]" brk "Inr l" ver
      "[word_of_nat (length name)] @ name @ be16_put port @ rest"]
    read_ipv4_request [OF assms(3), of brk port rest] read_name_request [OF assms(2), of brk port rest]
  by (simp add: request_ipv4_def request_name_def run_command_def)

theorem socks5_connects_witness:
  "socks5_handler None (Inr (inet_address [0, 0, 0, 0] [0, 0]))
     ([5, 1, 0] @ [5, 1, 0, 3, 2, 110, 108] @ be16_put 80 @ [71]) =
   Inr (Socks_Piping ''nl'' 80 [[5, 0], [5, 0, 0, 1, 0, 0, 0, 0, 0, 0]] [71])"
proof -
  have "c_string [110, 108] = ''nl''" by code_simp
  moreover have "connect_reply (address_ipv4 (inet_address [0, 0, 0, 0] [0, 0]))
      (address_port (inet_address [0, 0, 0, 0] [0, 0])) = [5, 0, 0, 1, 0, 0, 0, 0, 0, 0]"
    by (simp add: connect_reply_def address_ipv4_def address_port_def inet_address_def sockaddr_in_def)
  ultimately show ?thesis
    using socks5_connects [of "[0]" "[110, 108]" "[1, 2, 3, 4]" None "inet_address [0, 0, 0, 0] [0, 0]" 5 5 0 80 "[71]"]
    by (simp add: greeting_def request_name_def)
qed

text \<open>The bound address in the reply has its four bytes in reverse order, because the code takes
  the network-order word \<open>s_addr\<close> for a number; the port is in network order.\<close>

theorem socks5_reply_reversed:
  "connect_reply (address_ipv4 (inet_address (be32_put ip) (be16_put port)))
     (address_port (inet_address (be32_put ip) (be16_put port))) =
   [5, 0, 0, 1] @ rev (be32_put ip) @ be16_put port"
proof -
  have b: "connect_reply w p = [5, 0, 0, 1] @ be32_put w @ be16_put p" for w p
    by (simp add: connect_reply_def be32_put_def be16_put_def)
  have "address_ipv4 (inet_address (be32_put ip) (be16_put port)) = le32_get (be32_put ip @ replicate 120 0)"
    by (simp add: address_ipv4_def inet_address_def sockaddr_in_def codec_simps replicate_add [symmetric])
  moreover have "address_port (inet_address (be32_put ip) (be16_put port)) = port"
    by (simp add: address_port_def inet_address_def sockaddr_in_def codec_simps be16.get_prefix)
  ultimately show ?thesis by (simp add: b le32_get_be32_put)
qed

text \<open>A CONNECT request with an unknown address type dereferences a null pointer, and an error of a
  piping read becomes a huge size and a write out of the buffer.\<close>

theorem socks5_undefined:
  assumes "length methods < 256" "atyp \<noteq> 1" "atyp \<noteq> 3" "atyp \<noteq> 4" "length buf = 4096"
  shows "socks5_handler brk (Inr l) (greeting ver methods @ [v, 1, rsv, atyp] @ rest) = Inl Undefined_Behaviour
    \<and> pipe_step (-1) buf = Inl Undefined_Behaviour"
proof -
  have "\<not> size_of_int (-1) \<le> length buf" using assms(5) by (simp add: size_of_int_def)
  then have "pipe_step (-1) buf = Inl Undefined_Behaviour"
    by (simp add: pipe_step_def mem_load_def Let_def)
  then show ?thesis
    using handler_after_greeting [OF assms(1), of "[v, 1, rsv, atyp]" brk "Inr l" ver rest] assms(2-4)
    by (simp add: run_command_def)
qed

theorem socks5_undefined_witness:
  "socks5_handler None (Inr (inet_address [0, 0, 0, 0] [0, 0])) [5, 1, 0, 5, 1, 0, 9] = Inl Undefined_Behaviour"
  using socks5_undefined [of "[0]" 9 "replicate 4096 0" None "inet_address [0, 0, 0, 0] [0, 0]" 5 5 0 "[]"]
  by (simp add: greeting_def)

text \<open>What the buffer of the \<open>k\<close>-th read holds when the connection has broken: what arrived, and what the memory
  held before. The bytes of a client for which that is the request: every read completed in this way.\<close>

definition filled :: "(nat \<Rightarrow> nat \<Rightarrow> u8) \<Rightarrow> nat \<Rightarrow> nat \<Rightarrow> block \<Rightarrow> block" where
  "filled g k n inp = take n inp @ drop (length inp) (new_array (g k) n)"

fun all_filled :: "(nat \<Rightarrow> nat \<Rightarrow> u8) \<Rightarrow> nat \<Rightarrow> nat list \<Rightarrow> block \<Rightarrow> block" where
  "all_filled g k [] inp = inp"
| "all_filled g k (n # ns) inp = filled g k n inp @ all_filled g (Suc k) ns (drop n inp)"

definition completed :: "(nat \<Rightarrow> nat \<Rightarrow> u8) \<Rightarrow> block \<Rightarrow> block" where
  "completed g inp =
     (let n = unat (filled g 0 2 inp ! 1)
      in all_filled g 0 (socks5_requests (all_filled g 0 [2, n, 4, 1] inp)) inp)"

lemma filled_simps:
  "length (filled g k n inp) = n"
  "read_n (Some g) k n inp = Some (filled g k n inp, drop n inp)"
  "read_n None k n (filled g k n inp @ rest) = Some (filled g k n inp, rest)"
  by (auto simp: filled_def read_n_def new_array_def)

lemma filled_reads:
  "read_ipv4 None (filled g 3 4 inp @ filled g 4 2 (drop 4 inp) @ rest) =
    Some ((dotted (filled g 3 4 inp), port_of (filled g 4 2 (drop 4 inp))), rest)"
  "read_name None (filled g 3 1 inp @ filled g 4 (unat (hd (filled g 3 1 inp))) (drop 1 inp)
      @ filled g 5 2 (drop (unat (hd (filled g 3 1 inp))) (drop 1 inp)) @ rest) =
    Some ((c_string (filled g 4 (unat (hd (filled g 3 1 inp))) (drop 1 inp)),
      port_of (filled g 5 2 (drop (unat (hd (filled g 3 1 inp))) (drop 1 inp)))), rest)"
  by (simp_all add: read_ipv4_def read_name_def filled_simps del: One_nat_def)

lemma completed_eq:
  fixes g inp
  defines "n \<equiv> unat (filled g 0 2 inp ! 1)"
  defines "i \<equiv> drop n (drop 2 inp)"
  defines "req \<equiv> filled g 2 4 i" and "j \<equiv> drop 4 i"
  defines "m \<equiv> unat (hd (filled g 3 1 j))"
  shows "completed g inp = filled g 0 2 inp @ filled g 1 n (drop 2 inp) @ req @
    (if req ! 3 = 1 then filled g 3 4 j @ filled g 4 2 (drop 4 j) @ drop 2 (drop 4 j)
     else if req ! 3 = 3 then filled g 3 1 j @ filled g 4 m (drop 1 j) @ filled g 5 2 (drop m (drop 1 j)) @ drop 2 (drop m (drop 1 j))
     else j)"
proof -
  have l: "length (filled g 3 1 j) = 1" "length req = 4" "length (filled g 0 2 inp) = 2" "length (filled g 1 n (drop 2 inp)) = n"
    by (simp_all add: filled_simps req_def)
  then have "(req @ filled g 3 1 j @ rest) ! 4 = hd (filled g 3 1 j)" for rest
    by (cases "filled g 3 1 j") (simp_all add: nth_append)
  with l have asked: "socks5_requests (filled g 0 2 inp @ filled g 1 n (drop 2 inp) @ req @ filled g 3 1 j @ rest) =
      [2, n, 4] @ (if req ! 3 = 1 then [4, 2] else if req ! 3 = 3 then [1, m, 2] else [])" for rest
    by (simp add: socks5_requests_def Let_def nth_append n_def m_def)
  have all: "all_filled g 0 [2, n, 4, 1] inp =
      filled g 0 2 inp @ filled g 1 n (drop 2 inp) @ req @ filled g 3 1 j @ drop 1 j"
    by (simp add: req_def j_def i_def eval_nat_numeral del: drop_drop)
  have "completed g inp =
      all_filled g 0 ([2, n, 4] @ (if req ! 3 = 1 then [4, 2] else if req ! 3 = 3 then [1, m, 2] else [])) inp"
    by (simp only: completed_def Let_def n_def [symmetric] all asked)
  then show ?thesis
    by (simp add: req_def j_def i_def eval_nat_numeral del: drop_drop)
qed


text \<open>The client hangs up after the greeting, and the memory of the third buffer holds a request, of the fourth and
  fifth an address and a port: the server replies and connects there.\<close>

definition demo_memory :: "nat \<Rightarrow> nat \<Rightarrow> u8" where
  "demo_memory k i = [[], [], [5, 1, 0, 1], [10, 0, 0, 7], [0, 22]] ! k ! i"

theorem socks5_connects_to_garbage:
  "socks5_handler (Some demo_memory) (Inr (inet_address [0, 0, 0, 0] [0, 0])) [5, 1, 0] =
    Inr (Socks_Piping ''10.0.0.7'' 22 [[5, 0], [5, 0, 0, 1, 0, 0, 0, 0, 0, 0]] [])"
proof -
  have "dotted [10, 0, 0, 7] = ''10.0.0.7''" "port_of [0, 22] = 22" by code_simp+
  moreover have "connect_reply (address_ipv4 (inet_address [0, 0, 0, 0] [0, 0]))
      (address_port (inet_address [0, 0, 0, 0] [0, 0])) = [5, 0, 0, 1, 0, 0, 0, 0, 0, 0]"
    by (simp add: connect_reply_def address_ipv4_def address_port_def inet_address_def sockaddr_in_def)
  moreover have "[0..<2] = [0, 1 :: nat]" "[0..<4] = [0, 1, 2, 3 :: nat]" by code_simp+
  ultimately show ?thesis
    by (simp add: socks5_handler_def read_n_def read_ipv4_def new_array_def demo_memory_def run_command_def Let_def)
qed

end
