(* ===== verification/Udp_Bridge.thy ===== *)
theory Udp_Bridge
  imports Byte_Buffer Sock_Address
begin

text \<open>
  \<open>bridge/udp_bridge.hpp\<close>: a relay between UDP peers. The state is \<open>peer_map_\<close>, a \<open>std::map\<close> keyed by
  socket address; \<open>foward\<close> (the source's spelling) handles one datagram. The result of a call is the
  map, the datagram buffer (its header is rewritten in place) and what was sent. The JSON text of
  the INFO reply comes from the vendored \<open>nlohmann::json\<close>, here the argument \<open>dump\<close>; \<open>now\<close> is the time
  \<open>keep_alive\<close> reads and \<open>clock k\<close> the time the \<open>k\<close>-th test of the purge loop reads. The constructor of
  \<open>peer\<close> leaves \<open>last_active_\<close> and \<open>ping_\<close> indeterminate, here \<open>junk\<close>. Output to the terminal is left out.
\<close>

section \<open>State\<close>

record peer =
  peer_addr :: address
  last_active :: int
  ping :: int

type_synonym peer_map = "(address \<times> peer) list"

definition peer_new :: "int \<times> int \<Rightarrow> address \<Rightarrow> peer" where
  "peer_new junk a = \<lparr>peer_addr = a, last_active = fst junk, ping = snd junk\<rparr>"

definition keep_alive :: "int \<Rightarrow> peer \<Rightarrow> peer" where
  "keep_alive now p = p\<lparr>last_active := now\<rparr>"

definition int_to_string :: "int \<Rightarrow> string" where
  "int_to_string i = (if i < 0 then CHR ''-'' # to_string (nat (- i)) else to_string (nat i))"

text \<open>The \<open>std::map\<close> of \<open>toJson\<close>, in the order of its keys.\<close>

definition to_json :: "peer \<Rightarrow> (string \<times> string) list" where
  "to_json p =
     [(''ip'', address_ip (peer_addr p)),
      (''last_active'', int_to_string (last_active p)),
      (''ping'', int_to_string (ping p)),
      (''port'', to_string (unat (address_port (peer_addr p))))]"

section \<open>Handling a datagram\<close>

abbreviation (input) PING :: u8 where "PING \<equiv> 0"
abbreviation (input) PONG :: u8 where "PONG \<equiv> 1"
abbreviation (input) INFO :: u8 where "INFO \<equiv> 2"
abbreviation (input) DATA :: u8 where "DATA \<equiv> 3"

text \<open>The packed headers: \<open>message_header\<close> is the type byte, \<open>address_format\<close> a type byte, four bytes of
  address and two of port.\<close>

abbreviation (input) HEADER_SIZE :: nat where "HEADER_SIZE \<equiv> 1"
abbreviation (input) ADDRESS_FORMAT_SIZE :: nat where "ADDRESS_FORMAT_SIZE \<equiv> 7"

text \<open>The address built from the header: a default \<open>address\<close> whose \<open>sockaddr_in\<close> fields are set.\<close>

definition header_address :: "block \<Rightarrow> block \<Rightarrow> address outcome" where
  "header_address ip port =
     (let addr = address_default\<lparr>addr_len := SOCKADDR_IN_SIZE\<rparr>
      in and_then (mem_store (addr_storage addr) 0 [2, 0]) (\<lambda>m.
         and_then (mem_store m 4 ip) (\<lambda>m.
         and_then (mem_store m 2 port) (\<lambda>m. Inr (addr\<lparr>addr_storage := m\<rparr>)))))"

fun peer_purge :: "(nat \<Rightarrow> int) \<Rightarrow> nat \<Rightarrow> peer_map \<Rightarrow> peer_map" where
  "peer_purge clock k [] = []"
| "peer_purge clock k ((a, p) # m) =
     (if last_active p + 60 < clock k then peer_purge clock (Suc k) m
      else (a, p) # peer_purge clock (Suc k) m)"

text \<open>The end of \<open>foward\<close>: the sender's entry is refreshed and the map purged. The sender is in the
  map, so the iterator is valid.\<close>

definition refresh_and_purge :: "int \<Rightarrow> (nat \<Rightarrow> int) \<Rightarrow> address \<Rightarrow> peer_map \<Rightarrow> peer_map outcome" where
  "refresh_and_purge now clock sender peers =
     (case map_find address_less sender peers of None \<Rightarrow> Inl Undefined_Behaviour
      | Some p \<Rightarrow> Inr (peer_purge clock 0 (map_assign address_less sender (keep_alive now p) peers)))"

type_synonym sends = "(address \<times> block) list"

definition buf_load :: "byte_buffer \<Rightarrow> nat \<Rightarrow> nat \<Rightarrow> block outcome" where
  "buf_load b off n = mem_load (buf_block b) off n"

definition buf_store :: "byte_buffer \<Rightarrow> nat \<Rightarrow> block \<Rightarrow> byte_buffer outcome" where
  "buf_store b off bs = and_then (mem_store (buf_block b) off bs) (\<lambda>m. Inr (b\<lparr>buf_ptr := Some m\<rparr>))"

text \<open>The first lines of \<open>foward\<close>: an unknown sender is inserted.\<close>

definition with_sender :: "int \<times> int \<Rightarrow> address \<Rightarrow> peer_map \<Rightarrow> peer_map" where
  "with_sender junk a m = (if map_find address_less a m = None
     then map_emplace address_less a (peer_new junk a) m else m)"

text \<open>The case DATA up to its \<open>break\<close>; \<open>None\<close> is an early return.\<close>

definition relay_data ::
    "byte_buffer \<Rightarrow> address \<Rightarrow> peer_map \<Rightarrow> (byte_buffer \<times> sends) option outcome" where
  "relay_data buffer sender peers =
     (if buf_size buffer \<le> ADDRESS_FORMAT_SIZE + HEADER_SIZE then Inr None
      else
        and_then (buf_load buffer 2 4) (\<lambda>ip.
        and_then (buf_load buffer 6 2) (\<lambda>port.
        and_then (header_address ip port) (\<lambda>addr.
        case map_find address_less addr peers of None \<Rightarrow> Inr None
        | Some p \<Rightarrow>
            and_then (mem_load (addr_storage sender) 4 4) (\<lambda>ip.
            and_then (buf_store buffer 2 ip) (\<lambda>buffer.
            and_then (mem_load (addr_storage sender) 2 2) (\<lambda>port.
            and_then (buf_store buffer 6 port) (\<lambda>buffer.
            and_then (buf_load buffer 0 (buf_size buffer)) (\<lambda>bytes.
            Inr (Some (buffer, [(peer_addr p, bytes)])))))))))))"

definition foward ::
    "((string \<times> string) list list \<Rightarrow> block) \<Rightarrow> int \<times> int \<Rightarrow> int \<Rightarrow> (nat \<Rightarrow> int) \<Rightarrow> byte_buffer \<Rightarrow>
     address \<Rightarrow> peer_map \<Rightarrow> (peer_map \<times> byte_buffer \<times> sends) outcome" where
  "foward dump junk now clock buffer sender peers =
     (let peers = with_sender junk sender peers
      in and_then (buf_load buffer 0 HEADER_SIZE) (\<lambda>header.
         let type = hd header
         in if type = PING \<or> type = PONG then
              and_then (refresh_and_purge now clock sender peers) (\<lambda>peers. Inr (peers, buffer, []))
            else if type = INFO then
              let reply = dump (map (\<lambda>(_, p). to_json p) peers)
              in and_then (refresh_and_purge now clock sender peers) (\<lambda>peers.
                 Inr (peers, buffer, [(sender, reply)]))
            else if type = DATA then
              and_then (relay_data buffer sender peers) (\<lambda>r.
              case r of None \<Rightarrow> Inr (peers, buffer, [])
              | Some (buffer, sent) \<Rightarrow>
                  and_then (refresh_and_purge now clock sender peers) (\<lambda>peers.
                  Inr (peers, buffer, sent)))
            else Inr (peers, buffer, [])))"

section \<open>The invariant\<close>

text \<open>The entries are in order and each peer's address is the one it is filed under.\<close>

definition peers_inv :: "peer_map \<Rightarrow> bool" where
  "peers_inv m \<longleftrightarrow> map_ordered address_less m
     \<and> (\<forall>a p. map_find address_less a m = Some p \<longrightarrow> addr_key (peer_addr p) = addr_key a)"

lemma header_address_inet:
  "length ip = 4 \<Longrightarrow> length port = 2 \<Longrightarrow> header_address ip port = Inr (inet_address ip port)"
  by (simp add: header_address_def address_default_def mem_simps inet_address_def sockaddr_in_def
      numeral_eq_Suc)

lemma set_peer_purge: "set (peer_purge clock k m) \<subseteq> set m"
  by (induction clock k m rule: peer_purge.induct) auto

lemma ordered_peer_purge: "map_ordered address_less m \<Longrightarrow> map_ordered address_less (peer_purge clock k m)"
  using set_peer_purge by (induction clock k m rule: peer_purge.induct) fastforce+

lemma find_peer_purge_None:
  "map_find address_less j m = None \<Longrightarrow> map_find address_less j (peer_purge clock k m) = None"
  using set_peer_purge [of clock k m] by (auto simp: map_find_None)

text \<open>What the purge keeps was young at its test, what it drops was old at its test.\<close>

lemma find_peer_purge:
  assumes "map_ordered address_less m" "\<forall>k. t0 \<le> clock k \<and> clock k \<le> t1"
  shows "map_find address_less j (peer_purge clock k m) = None
      \<and> (\<forall>p. map_find address_less j m = Some p \<longrightarrow> last_active p + 60 < t1)
    \<or> (\<exists>p. map_find address_less j m = Some p \<and> t0 \<le> last_active p + 60
      \<and> map_find address_less j (peer_purge clock k m) = Some p)"
  using assms(1)
proof (induction m arbitrary: k)
  case (Cons e m)
  obtain a q where e: "e = (a, q)" by force
  from Cons.prems e have o: "map_ordered address_less m" by simp
  have b: "t0 \<le> clock k" "clock k \<le> t1" using assms(2) by auto
  have tail: "same_key address_less j a \<Longrightarrow> map_find address_less j (peer_purge clock i m) = None" for i
    using adr.find_tail_None [of a q m j] Cons.prems e find_peer_purge_None by auto
  show ?case
  proof (cases "same_key address_less j a")
    case True
    with tail b e show ?thesis by auto
  next
    case False
    with Cons.IH [OF o] e show ?thesis by auto
  qed
qed simp

lemma addr_key_eq: "same_key address_less a b \<Longrightarrow> addr_key a = addr_key b"
  by (simp add: same_key_address)

lemma peers_inv_emplace:
  assumes "peers_inv m"
  shows "peers_inv (map_emplace address_less a (peer_new junk a) m)"
  unfolding peers_inv_def
proof (intro conjI allI impI)
  from assms have o: "map_ordered address_less m" by (simp add: peers_inv_def)
  then show "map_ordered address_less (map_emplace address_less a (peer_new junk a) m)"
    by (rule adr.ordered_emplace)
  fix j p assume "map_find address_less j (map_emplace address_less a (peer_new junk a) m) = Some p"
  with adr.find_emplace [OF o, of j a "peer_new junk a"] assms
  show "addr_key (peer_addr p) = addr_key j"
    by (auto simp: peers_inv_def peer_new_def same_key_address split: option.splits if_splits)
qed

lemma peers_inv_refresh:
  assumes "peers_inv m" "map_find address_less a m = Some p"
  shows "peers_inv (map_assign address_less a (keep_alive now p) m)"
  unfolding peers_inv_def
proof (intro conjI allI impI)
  from assms show "map_ordered address_less (map_assign address_less a (keep_alive now p) m)"
    by (simp add: peers_inv_def adr.ordered_assign)
  fix j q assume "map_find address_less j (map_assign address_less a (keep_alive now p) m) = Some q"
  with adr.find_assign [of a m j "keep_alive now p"] assms(2)
  have "q = keep_alive now p \<and> same_key address_less j a \<or> map_find address_less j m = Some q"
    by (simp split: if_splits)
  moreover have "addr_key (peer_addr p) = addr_key a" using assms by (simp add: peers_inv_def)
  ultimately show "addr_key (peer_addr q) = addr_key j"
    using assms(1) by (auto simp: peers_inv_def keep_alive_def same_key_address)
qed

lemma peers_inv_purge:
  assumes "peers_inv m" shows "peers_inv (peer_purge clock k m)"
  unfolding peers_inv_def
proof (intro conjI allI impI)
  from assms show "map_ordered address_less (peer_purge clock k m)"
    by (simp add: peers_inv_def ordered_peer_purge)
  fix j p assume f: "map_find address_less j (peer_purge clock k m) = Some p"
  then obtain a where a: "(a, p) \<in> set m" "same_key address_less j a"
    using map_find_in_set [OF f] subsetD [OF set_peer_purge [of clock k m]] by blast
  have "map_ordered address_less m" using assms by (simp add: peers_inv_def)
  from adr.find_iff_in_set [OF this, of j p] a have "map_find address_less j m = Some p" by blast
  with assms show "addr_key (peer_addr p) = addr_key j" by (simp add: peers_inv_def)
qed

lemma with_sender:
  assumes "peers_inv m"
  shows "peers_inv (with_sender junk a m)"
    "map_find address_less j (with_sender junk a m) =
      (if same_key address_less j a \<and> map_find address_less a m = None then Some (peer_new junk a)
       else map_find address_less j m)"
    "\<exists>p. map_find address_less a (with_sender junk a m) = Some p"
proof -
  have o: "map_ordered address_less m" using assms by (simp add: peers_inv_def)
  show "peers_inv (with_sender junk a m)" using assms by (simp add: with_sender_def peers_inv_emplace)
  show f: "map_find address_less j (with_sender junk a m) =
      (if same_key address_less j a \<and> map_find address_less a m = None then Some (peer_new junk a)
       else map_find address_less j m)" for j
    using adr.find_emplace [OF o, of j a "peer_new junk a"] adr.find_same_key [of j a m]
    by (auto simp: with_sender_def split: option.splits)
  show "\<exists>p. map_find address_less a (with_sender junk a m) = Some p"
    using f [of a] adr.same_key_refl [of a] by auto
qed

lemma refresh_ok:
  assumes "peers_inv m" "map_find address_less a m = Some p"
  shows "refresh_and_purge now clock a m =
      Inr (peer_purge clock 0 (map_assign address_less a (keep_alive now p) m))"
    "peers_inv (peer_purge clock 0 (map_assign address_less a (keep_alive now p) m))"
  using assms peers_inv_purge [OF peers_inv_refresh [OF assms]]
  by (simp_all add: refresh_and_purge_def)

text \<open>A DATA datagram: type, address type, address, port, payload.\<close>

definition data_message :: "u8 \<Rightarrow> block \<Rightarrow> block \<Rightarrow> block \<Rightarrow> block" where
  "data_message t ip port payload = [DATA, t] @ ip @ port @ payload"

definition buf_with :: "byte_buffer \<Rightarrow> block \<Rightarrow> byte_buffer" where
  "buf_with b bs = b\<lparr>buf_ptr := Some (bs @ drop (buf_size b) (buf_block b))\<rparr>"

lemma buf_with [simp]:
  "length bs = buf_size b \<Longrightarrow> buf_bytes (buf_with b bs) = bs"
  "buf_size (buf_with b bs) = buf_size b"
  "length bs = buf_size b \<Longrightarrow> buf_wf b \<Longrightarrow> buf_wf (buf_with b bs)"
  by (auto simp: buf_with_def buf_bytes_def buf_wf_def)

lemma relay_data_known:
  assumes b: "buf_wf b" "buf_bytes b = data_message t dip dport payload" "payload \<noteq> []"
    and l: "length dip = 4" "length dport = 2" "length sip = 4" "length sport = 2"
    and p: "map_find address_less (inet_address dip dport) m = Some p"
  shows "relay_data b (inet_address sip sport) m =
    Inr (Some (buf_with b (data_message t sip sport payload), [(peer_addr p, data_message t sip sport payload)]))"
proof -
  define rest where "rest = drop (buf_size b) (buf_block b)"
  have blk: "buf_block b = data_message t dip dport payload @ rest"
    using b(2) append_take_drop_id [of "buf_size b" "buf_block b"] by (simp add: buf_bytes_def rest_def)
  have sz: "buf_size b = 8 + length payload"
    using b(1,2) l by (auto simp: buf_bytes_def buf_wf_def data_message_def dest: arg_cong [of _ _ length])
  have ip: "mem_load (addr_storage (inet_address sip sport)) 4 4 = Inr sip"
    and port: "mem_load (addr_storage (inet_address sip sport)) 2 2 = Inr sport"
    using l by (simp_all add: mem_load_def inet_address_def sockaddr_in_def)
  have "buf_with b (data_message t sip sport payload) =
      b\<lparr>buf_ptr := Some (data_message t sip sport payload @ rest)\<rparr>"
    by (simp add: buf_with_def rest_def)
  moreover have "take (8 + length payload) (DATA # t # sip @ sport @ payload @ rest) =
      DATA # t # sip @ sport @ payload"
    using l by (simp add: numeral_eq_Suc)
  ultimately show ?thesis
    using l p b(3) ip port sz blk
    by (simp add: relay_data_def buf_load_def buf_store_def header_address_inet mem_load_def mem_store_def
        data_message_def)
qed

lemma header_byte:
  assumes "buf_wf b" "buf_bytes b = x # bs"
  shows "buf_load b 0 HEADER_SIZE = Inr [x]"
  using assms by (cases "buf_block b"; cases "buf_size b")
    (auto simp: buf_load_def mem_load_def buf_bytes_def buf_wf_def)

lemma refreshed_entry:
  assumes "peers_inv m" "map_find address_less a m = Some p" "\<forall>k. t0 \<le> clock k \<and> clock k \<le> t1" "t1 \<le> now + 60"
  shows "map_find address_less a (peer_purge clock 0 (map_assign address_less a (keep_alive now p) m)) =
    Some (keep_alive now p)"
proof -
  have "map_ordered address_less (map_assign address_less a (keep_alive now p) m)"
    using peers_inv_refresh [OF assms(1,2)] by (simp add: peers_inv_def)
  from find_peer_purge [OF this assms(3), of a 0] show ?thesis
    using adr.find_assign [of a m a "keep_alive now p"] assms(2,4) by (auto simp: keep_alive_def)
qed

lemma foward_data:
  assumes inv: "peers_inv m" and b: "buf_wf b" "buf_bytes b = data_message t dip dport payload" "payload \<noteq> []"
    and l: "length dip = 4" "length dport = 2" "length sip = 4" "length sport = 2"
    and p: "map_find address_less (inet_address dip dport) (with_sender junk (inet_address sip sport) m) = Some p"
    and clock: "\<forall>k. t0 \<le> clock k \<and> clock k \<le> t1" "t1 \<le> now + 60"
  shows "\<exists>m'. foward dump junk now clock b (inet_address sip sport) m =
      Inr (m', buf_with b (data_message t sip sport payload), [(peer_addr p, data_message t sip sport payload)])
    \<and> peers_inv m' \<and> (\<exists>q. map_find address_less (inet_address sip sport) m' = Some q)
    \<and> addr_key (peer_addr p) = addr_key (inet_address dip dport)"
proof -
  let ?a = "inet_address sip sport"
  let ?m = "with_sender junk ?a m"
  have inv': "peers_inv ?m" using with_sender(1) [OF inv] .
  obtain q where q: "map_find address_less ?a ?m = Some q" using with_sender(3) [OF inv] by blast
  have h: "buf_load b 0 HEADER_SIZE = Inr [DATA]"
    by (rule header_byte [OF b(1), of _ "t # dip @ dport @ payload"]) (simp add: b(2) data_message_def)
  show ?thesis
    using relay_data_known [OF b l p] refresh_ok [OF inv' q, where now = now and clock = clock] refreshed_entry [OF inv' q clock] h
      inv' p
    by (auto simp: foward_def Let_def peers_inv_def)
qed

lemma foward_inv:
  assumes "peers_inv m" "foward dump junk now clock b a m = Inr (m', b', sent)"
  shows "peers_inv m'"
proof -
  let ?m = "with_sender junk a m"
  have inv: "peers_inv ?m" using with_sender(1) [OF assms(1)] .
  obtain q where q: "map_find address_less a ?m = Some q" using with_sender(3) [OF assms(1)] by blast
  note r = refresh_ok [OF inv q, where now = now and clock = clock]
  from assms(2) have "m' = ?m \<or> refresh_and_purge now clock a ?m = Inr m'"
    by (auto simp: foward_def Let_def and_then_Inr_iff r(1) split: if_splits option.splits)
  with inv r show ?thesis by auto
qed

section \<open>Properties\<close>

text \<open>C21: a DATA datagram for a known peer is sent to that peer and to nobody else, with the sender's
  address and port in place of the destination's and every other byte unchanged; and when the peer
  sends the same datagram back, the first sender gets its own datagram again, byte for byte, so the
  rewritten header is a return address.\<close>

theorem relay_round_trip:
  assumes "peers_inv m" and "buf_wf b" "buf_bytes b = data_message t dip dport payload" "payload \<noteq> []"
    and "length dip = 4" "length dport = 2" "length sip = 4" "length sport = 2"
    and "map_find address_less (inet_address dip dport) (with_sender junk (inet_address sip sport) m) = Some p"
    and "\<forall>k. t0 \<le> clock k \<and> clock k \<le> t1" "t1 \<le> now + 60"
  shows "\<exists>m1 b1 m2 b2 (q :: peer).
      foward dump junk now clock b (inet_address sip sport) m =
        Inr (m1, b1, [(peer_addr p, data_message t sip sport payload)])
    \<and> addr_key (peer_addr p) = addr_key (inet_address dip dport)
    \<and> foward dump junk now clock b1 (inet_address dip dport) m1 =
        Inr (m2, b2, [(peer_addr q, data_message t dip dport payload)])
    \<and> addr_key (peer_addr q) = addr_key (inet_address sip sport) \<and> peers_inv m2"
proof -
  let ?b1 = "buf_with b (data_message t sip sport payload)"
  from foward_data [OF assms, of dump] obtain m1 q where
    m1: "foward dump junk now clock b (inet_address sip sport) m =
        Inr (m1, ?b1, [(peer_addr p, data_message t sip sport payload)])"
      "peers_inv m1" "map_find address_less (inet_address sip sport) m1 = Some q"
      "addr_key (peer_addr p) = addr_key (inet_address dip dport)" by blast
  have len: "length (data_message t sip sport payload) = buf_size b"
    using assms(2,3,5-8) by (auto simp: buf_bytes_def buf_wf_def data_message_def dest: arg_cong [of _ _ length])
  have b1: "buf_wf ?b1" "buf_bytes ?b1 = data_message t sip sport payload" using len assms(2) by simp_all
  have q: "map_find address_less (inet_address sip sport)
      (with_sender junk (inet_address dip dport) m1) = Some q"
    using with_sender(2) [OF m1(2), of "inet_address sip sport" junk "inet_address dip dport"] m1(3)
      adr.find_same_key [of "inet_address sip sport" "inet_address dip dport" m1] by (metis option.distinct(1))
  from foward_data [OF m1(2) b1 assms(4,7,8,5,6) q assms(10,11), of dump] obtain m2 where
    m2: "foward dump junk now clock ?b1 (inet_address dip dport) m1 = Inr (m2, buf_with ?b1
        (data_message t dip dport payload), [(peer_addr q, data_message t dip dport payload)])"
      "peers_inv m2" "addr_key (peer_addr q) = addr_key (inet_address sip sport)" by blast
  show ?thesis
    by (intro exI conjI) (rule m1(1) m1(4) m2(1) m2(3) m2(2))+
qed

definition demo_a :: address where "demo_a = inet_address [10, 0, 0, 1] [3, 4]"
definition demo_b :: address where "demo_b = inet_address [10, 0, 0, 2] [1, 2]"

definition demo_peers :: peer_map where
  "demo_peers = [(demo_b, \<lparr>peer_addr = demo_b, last_active = 100, ping = 0\<rparr>)]"

definition demo_buffer :: "block \<Rightarrow> byte_buffer" where
  "demo_buffer bs = \<lparr>buf_ptr = Some (bs @ [0, 0]), buf_size = length bs\<rparr>"

lemma demo_buffer [simp]:
  "length bs < 100 \<Longrightarrow> buf_wf (demo_buffer bs)" "buf_bytes (demo_buffer bs) = bs"
  "buf_size (demo_buffer bs) = length bs"
  by (simp_all add: demo_buffer_def buf_wf_def buf_bytes_def)

lemma demo_peers_inv: "peers_inv demo_peers"
  by (auto simp: peers_inv_def demo_peers_def same_key_address split: if_splits)

lemma demo_keys:
  "addr_key demo_a = (16, sockaddr_in [10, 0, 0, 1] [3, 4])" "addr_key demo_b = (16, sockaddr_in [10, 0, 0, 2] [1, 2])"
  "same_key address_less demo_a demo_b = False" "same_key address_less demo_b demo_a = False"
  by (simp_all add: demo_a_def demo_b_def inet_address_simps same_key_address sockaddr_in_def)

lemma demo_find:
  "map_find address_less demo_a demo_peers = None"
  "map_find address_less demo_b (with_sender junk demo_a demo_peers) =
     Some \<lparr>peer_addr = demo_b, last_active = 100, ping = 0\<rparr>"
  using with_sender(2) [OF demo_peers_inv, of demo_b junk demo_a]
  by (simp_all add: demo_peers_def demo_keys)

theorem relay_round_trip_witness:
  "\<exists>m1 b1 m2 b2 q.
      foward (\<lambda>_. []) (0, 0) 130 (\<lambda>_. 130) (demo_buffer [3, 0, 10, 0, 0, 2, 1, 2, 65]) demo_a demo_peers =
        Inr (m1, b1, [(demo_b, [3, 0, 10, 0, 0, 1, 3, 4, 65])])
    \<and> foward (\<lambda>_. []) (0, 0) 130 (\<lambda>_. 130) b1 demo_b m1 =
        Inr (m2, b2, [(q, [3, 0, 10, 0, 0, 2, 1, 2, 65])])
    \<and> addr_key q = addr_key demo_a"
  using relay_round_trip [OF demo_peers_inv, of "demo_buffer [3, 0, 10, 0, 0, 2, 1, 2, 65]" 0
      "[10, 0, 0, 2]" "[1, 2]" "[65]" "[10, 0, 0, 1]" "[3, 4]" "(0, 0)"
      "\<lparr>peer_addr = demo_b, last_active = 100, ping = 0\<rparr>" 130 "\<lambda>_. 130" 130 130 "\<lambda>_. []"]
    demo_find(2) [of "(0, 0)"]
  unfolding demo_a_def [symmetric] demo_b_def [symmetric] data_message_def by fastforce

text \<open>A PING or PONG makes the sender known and alive as of now; every other peer is either
  untouched or gone, and it is gone only when it was silent for more than 60 seconds at the end of
  the purge and stays only when it was not at its beginning.\<close>

theorem ping_refreshes:
  assumes "peers_inv m" "buf_wf b" "buf_bytes b = x # bs" "x = PING \<or> x = PONG"
    and "\<forall>k. t0 \<le> clock k \<and> clock k \<le> t1" "t1 \<le> now + 60"
  shows "\<exists>m'. foward dump junk now clock b a m = Inr (m', b, []) \<and> peers_inv m'
    \<and> (\<exists>p. map_find address_less a m' = Some p \<and> last_active p = now)
    \<and> (\<forall>j. \<not> same_key address_less j a \<longrightarrow>
         map_find address_less j m' = None
           \<and> (\<forall>p. map_find address_less j m = Some p \<longrightarrow> last_active p + 60 < t1)
         \<or> (\<exists>p. map_find address_less j m = Some p \<and> map_find address_less j m' = Some p
              \<and> t0 \<le> last_active p + 60))"
proof -
  let ?m = "with_sender junk a m"
  have inv: "peers_inv ?m" using with_sender(1) [OF assms(1)] .
  obtain q where q: "map_find address_less a ?m = Some q" using with_sender(3) [OF assms(1)] by blast
  let ?r = "map_assign address_less a (keep_alive now q) ?m"
  let ?m' = "peer_purge clock 0 ?r"
  note r = refresh_ok [OF inv q, where now = now and clock = clock]
  have run: "foward dump junk now clock b a m = Inr (?m', b, [])"
    using header_byte [OF assms(2,3)] assms(4) r(1) by (auto simp: foward_def Let_def)
  have ord: "map_ordered address_less ?r"
    using peers_inv_refresh [OF inv q] by (simp add: peers_inv_def)
  have other: "map_find address_less j ?r = map_find address_less j m" if "\<not> same_key address_less j a" for j
    using that adr.find_assign [of a ?m j "keep_alive now q"] q with_sender(2) [OF assms(1), of j junk a] by auto
  have rest: "map_find address_less j ?m' = None
        \<and> (\<forall>p. map_find address_less j m = Some p \<longrightarrow> last_active p + 60 < t1)
      \<or> (\<exists>p. map_find address_less j m = Some p \<and> map_find address_less j ?m' = Some p
        \<and> t0 \<le> last_active p + 60)" if "\<not> same_key address_less j a" for j
    using find_peer_purge [OF ord assms(5), of j 0] unfolding other [OF that] by blast
  have "map_find address_less a ?m' = Some (keep_alive now q)" "last_active (keep_alive now q) = now"
    using refreshed_entry [OF inv q assms(5,6)] by (simp_all add: keep_alive_def)
  with run r(2) rest show ?thesis by blast
qed

theorem ping_refreshes_witness:
  "\<exists>m'. foward (\<lambda>_. []) (0, 0) 200 (\<lambda>_. 200) (demo_buffer [0]) demo_a demo_peers =
      Inr (m', demo_buffer [0], [])
    \<and> (\<exists>p. map_find address_less demo_a m' = Some p \<and> last_active p = 200)
    \<and> map_find address_less demo_b m' = None"
proof -
  have old: "map_find address_less demo_b demo_peers = Some \<lparr>peer_addr = demo_b, last_active = 100, ping = 0\<rparr>"
    by (simp add: demo_peers_def)
  from ping_refreshes [OF demo_peers_inv, of "demo_buffer [0]" 0 "[]" 200 "\<lambda>_. 200" 200 200 "\<lambda>_. []" "(0, 0)" demo_a]
  obtain m' where m': "foward (\<lambda>_. []) (0, 0) 200 (\<lambda>_. 200) (demo_buffer [0]) demo_a demo_peers =
      Inr (m', demo_buffer [0], [])" "\<exists>p. map_find address_less demo_a m' = Some p \<and> last_active p = 200"
    and rest: "\<forall>j. \<not> same_key address_less j demo_a \<longrightarrow> map_find address_less j m' = None
           \<and> (\<forall>p. map_find address_less j demo_peers = Some p \<longrightarrow> last_active p + 60 < 200)
         \<or> (\<exists>p. map_find address_less j demo_peers = Some p \<and> map_find address_less j m' = Some p
              \<and> 200 \<le> last_active p + 60)" by auto
  from rest [rule_format, of demo_b] old have "map_find address_less demo_b m' = None"
    by (auto simp: demo_keys)
  with m' show ?thesis by blast
qed

text \<open>A datagram that is dropped (a DATA message that is too short or for nobody known, or one of
  an unknown type) sends nothing, purges nothing and still enters its sender into the map, with the
  time of last activity never set.\<close>

theorem dropped_enters_junk:
  assumes "peers_inv m" "map_find address_less a m = None" "buf_wf b" "buf_bytes b = x # bs"
    and "x = DATA \<and> buf_size b \<le> 8 \<or> PONG < x \<and> x \<noteq> INFO \<and> x \<noteq> DATA"
  shows "\<exists>m'. foward dump junk now clock b a m = Inr (m', b, []) \<and> peers_inv m'
    \<and> map_find address_less a m' = Some \<lparr>peer_addr = a, last_active = fst junk, ping = snd junk\<rparr>"
proof -
  have "x \<noteq> PING" "x \<noteq> PONG" "x \<noteq> INFO" using assms(5) by auto
  then have "foward dump junk now clock b a m = Inr (with_sender junk a m, b, [])"
    using header_byte [OF assms(3,4)] assms(5) by (auto simp: foward_def relay_data_def Let_def)
  then show ?thesis
    using with_sender(1) [OF assms(1), of junk a] with_sender(2) [OF assms(1), of a junk a] adr.same_key_refl [of a] assms(2)
    by (auto simp: peer_new_def)
qed

theorem dropped_enters_junk_witness:
  "\<exists>m'. foward (\<lambda>_. []) (-7, 0) 200 (\<lambda>_. 200) (demo_buffer [3, 0, 10, 0, 0, 2, 1, 2]) demo_a demo_peers =
      Inr (m', demo_buffer [3, 0, 10, 0, 0, 2, 1, 2], [])
    \<and> map_find address_less demo_a m' = Some \<lparr>peer_addr = demo_a, last_active = -7, ping = 0\<rparr>"
  using dropped_enters_junk [OF demo_peers_inv demo_find(1), of "demo_buffer [3, 0, 10, 0, 0, 2, 1, 2]" 3
      "[0, 10, 0, 0, 2, 1, 2]" "\<lambda>_. []" "(-7, 0)" 200 "\<lambda>_. 200"]
  by auto

end
