(* ===== verification/Compression.thy ===== *)
theory Compression
  imports Byte_Buffer
begin

text \<open>
  \<open>compression/compression.cpp\<close>. LZ4 is outside the repository, so it is the argument \<open>l\<close>: the bound,
  the bytes \<open>LZ4_compress_default\<close> writes for an input and a capacity (none when it fails and
  returns 0), and those \<open>LZ4_decompress_safe\<close> writes (\<open>None\<close> when it returns a negative number).
  \<open>lz4_ok\<close> states what its documentation promises. \<open>size_t\<close> values go through \<open>int\<close>, as in the code.
\<close>

record lz4 =
  lz_bound :: "int \<Rightarrow> int"
  lz_compress :: "block \<Rightarrow> int \<Rightarrow> block"
  lz_decompress :: "block \<Rightarrow> int \<Rightarrow> block option"

abbreviation (input) LZ4_MAX_INPUT_SIZE :: nat where "LZ4_MAX_INPUT_SIZE \<equiv> 0x7E000000"

definition lz4_input_ok :: "lz4 \<Rightarrow> block \<Rightarrow> bool" where
  "lz4_input_ok l x \<longleftrightarrow>
     (let bound = lz_bound l (int (length x)); c = lz_compress l x bound
      in 0 < bound \<and> bound < 2 ^ 31 \<and> c \<noteq> [] \<and> int (length c) \<le> bound
         \<and> (\<forall>cap. int (length x) \<le> cap \<longrightarrow> lz_decompress l c cap = Some x))"

definition lz4_ok :: "lz4 \<Rightarrow> bool" where
  "lz4_ok l \<longleftrightarrow>
     (\<forall>x. length x \<le> LZ4_MAX_INPUT_SIZE \<longrightarrow> lz4_input_ok l x)
     \<and> (\<forall>c cap y. lz_decompress l c cap = Some y \<longrightarrow> int (length y) \<le> max 0 cap)"

definition compress :: "lz4 \<Rightarrow> (nat \<Rightarrow> u8) \<Rightarrow> byte_buffer \<Rightarrow> byte_buffer outcome" where
  "compress l g buffer =
     (let max_buffer = lz_bound l (to_int32 (buf_size buffer));
          comp_buf = buf_sized g (size_of_int max_buffer)
      in and_then (mem_load (buf_block buffer) 0 (buf_size buffer)) (\<lambda>src.
         let bs = lz_compress l src (to_int32 (buf_size comp_buf))
         in if bs = [] then Inl Compression_Failure
            else and_then (mem_store (buf_block comp_buf) 0 bs) (\<lambda>m.
                 buf_resize g (comp_buf\<lparr>buf_ptr := Some m\<rparr>) (length bs))))"

definition decompress :: "lz4 \<Rightarrow> (nat \<Rightarrow> u8) \<Rightarrow> byte_buffer \<Rightarrow> nat \<Rightarrow> byte_buffer outcome" where
  "decompress l g buffer expected_max_size =
     (let decomp_buf = buf_sized g expected_max_size
      in and_then (mem_load (buf_block buffer) 0 (buf_size buffer)) (\<lambda>src.
         case lz_decompress l src (to_int32 (buf_size decomp_buf)) of
           None \<Rightarrow> Inl Decompression_Failure
         | Some bs \<Rightarrow>
             and_then (mem_store (buf_block decomp_buf) 0 bs) (\<lambda>m.
             buf_resize g (decomp_buf\<lparr>buf_ptr := Some m\<rparr>) (length bs))))"

lemma filled_buffer:
  assumes "length bs \<le> n" "n < size_max"
  shows "\<exists>b. and_then (mem_store (buf_block (buf_sized g n)) 0 bs)
      (\<lambda>m. buf_resize g' ((buf_sized g n)\<lparr>buf_ptr := Some m\<rparr>) (length bs)) = Inr b
    \<and> buf_bytes b = bs \<and> buf_wf b"
proof -
  let ?m = "bs @ drop (length bs) (new_array g n)"
  have "mem_store (buf_block (buf_sized g n)) 0 bs = Inr ?m"
    using assms by (simp add: buf_sized_def mem_simps)
  moreover have "buf_resize g' ((buf_sized g n)\<lparr>buf_ptr := Some ?m\<rparr>) (length bs) =
      Inr \<lparr>buf_ptr = Some ?m, buf_size = length bs\<rparr>"
    using assms by (simp add: buf_resize_def buf_sized_def)
  moreover have "buf_bytes \<lparr>buf_ptr = Some ?m, buf_size = length bs\<rparr> = bs"
    "buf_wf \<lparr>buf_ptr = Some ?m, buf_size = length bs\<rparr>"
    using assms by (simp_all add: buf_bytes_def buf_wf_def)
  ultimately show ?thesis by simp
qed

lemma load_bytes: "buf_wf b \<Longrightarrow> mem_load (buf_block b) 0 (buf_size b) = Inr (buf_bytes b)"
  by (simp add: buf_wf_def mem_load_def buf_bytes_def)

text \<open>C30: whatever a buffer holds, compressing it succeeds, and decompressing the result with an
  expected size that is large enough gives the bytes back.\<close>

theorem compress_round_trip:
  assumes l: "lz4_ok l" and b: "buf_wf b" "buf_size b \<le> LZ4_MAX_INPUT_SIZE"
    and n: "buf_size b \<le> n" "n < 2 ^ 31"
  shows "\<exists>c d. compress l g b = Inr c \<and> buf_wf c \<and> decompress l g' c n = Inr d
    \<and> buf_wf d \<and> buf_bytes d = buf_bytes b"
proof -
  let ?x = "buf_bytes b"
  have lx: "length ?x = buf_size b" using b(1) by (simp add: buf_bytes_def buf_wf_def)
  let ?B = "lz_bound l (int (length ?x))"
  let ?c = "lz_compress l ?x ?B"
  have "lz4_input_ok l ?x" using l lx b(2) by (simp add: lz4_ok_def)
  then have B: "0 < ?B" "?B < 2 ^ 31" "?c \<noteq> []" "int (length ?c) \<le> ?B"
    and dec: "\<And>cap. int (length ?x) \<le> cap \<Longrightarrow> lz_decompress l ?c cap = Some ?x"
    by (simp_all add: lz4_input_ok_def Let_def)
  have i: "to_int32 (buf_size b) = int (length ?x)" using lx b(2) by simp
  have sB: "size_of_int ?B = nat ?B" using B by simp
  have tB: "to_int32 (nat ?B) = ?B" using B by simp
  have len: "length ?c \<le> nat ?B" "nat ?B < size_max" "length ?x \<le> n" "n < size_max"
    using B n lx by simp_all
  obtain c where c0: "and_then (mem_store (buf_block (buf_sized g (nat ?B))) 0 ?c)
      (\<lambda>m. buf_resize g ((buf_sized g (nat ?B))\<lparr>buf_ptr := Some m\<rparr>) (length ?c)) = Inr c"
    "buf_bytes c = ?c" "buf_wf c"
    using filled_buffer [OF len(1,2), of g g] by blast
  have "compress l g b = Inr c"
    using c0(1) B(3) by (simp add: compress_def Let_def i sB tB load_bytes [OF b(1)] buf_sized_def)
  note c = this c0(2,3)
  obtain d where d: "and_then (mem_store (buf_block (buf_sized g' n)) 0 ?x)
      (\<lambda>m. buf_resize g' ((buf_sized g' n)\<lparr>buf_ptr := Some m\<rparr>) (length ?x)) = Inr d"
    "buf_bytes d = ?x" "buf_wf d"
    using filled_buffer [OF len(3,4), of g' g'] by blast
  have "lz_decompress l ?c (to_int32 n) = Some ?x" using dec n lx by simp
  with d(1) have "decompress l g' c n = Inr d"
    by (simp add: decompress_def Let_def load_bytes [OF c(3)] c(2) buf_sized_def)
  with c d show ?thesis by blast
qed

text \<open>An instance of the hypothesis: the bytes stored behind a mark.\<close>

definition stored :: lz4 where
  "stored = \<lparr>lz_bound = (\<lambda>n. n + n div 255 + 16),
     lz_compress = (\<lambda>x cap. if int (length x) < cap then 0 # x else []),
     lz_decompress = (\<lambda>c cap. case c of [] \<Rightarrow> None
       | _ # x \<Rightarrow> if int (length x) \<le> cap then Some x else None)\<rparr>"

lemma stored_ok: "lz4_ok stored"
  by (auto simp: lz4_ok_def lz4_input_ok_def stored_def Let_def split: list.splits if_splits)

theorem compress_round_trip_witness:
  "\<exists>c d. compress stored (\<lambda>_. 9) (buf_sized (\<lambda>i. of_nat i) 3) = Inr c \<and> decompress stored (\<lambda>_. 9) c 8 = Inr d
    \<and> buf_bytes d = [0, 1, 2]"
proof -
  have "buf_wf (buf_sized (\<lambda>i. of_nat i) 3)" "buf_bytes (buf_sized (\<lambda>i. of_nat i) 3) = [0, 1, 2]"
    by (simp_all add: buf_wf_def buf_sized_def buf_bytes_def new_array_def upt_rec)
  then show ?thesis
    using compress_round_trip [OF stored_ok, of "buf_sized (\<lambda>i. of_nat i) 3" 8 "\<lambda>_. 9" "\<lambda>_. 9"]
    by (auto simp: buf_sized_def)
qed

end
