(* ===== verification/Proto_Parser.thy ===== *)
theory Proto_Parser
  imports Net_Prelude
begin

text \<open>
  The frame parser of \<open>network/protocol/protocol_test.cpp\<close>, which \<open>main\<close> runs. The pointers
  \<open>ether_frame\<close>, \<open>ip_frame\<close> and \<open>tcp_frame\<close> are offsets into the 1518 bytes of \<open>raw\<close>; a field is read by a
  bounds-checked load, so that a read outside the block is \<open>Undefined_Behaviour\<close>. The 16-bit
  lengths are words, with the conversions of the code: \<open>int\<close> arithmetic, cut to 16 bits when stored.
  A function returns the structure and its return value. Output to the terminal is left out.
\<close>

section \<open>State\<close>

record mbuf =
  raw :: block
  mb_len :: u16
  ether_frame :: nat
  ether_len :: u16
  ether_off :: u16
  ip_frame :: nat
  ip_len :: u16
  ip_off :: u16
  tcp_frame :: nat
  tcp_len :: u16
  tcp_off :: u16
  tcp_seq :: u32
  tcp_ack :: u32
  protocol_mask :: u8

text \<open>\<open>bzero(buf, sizeof(*buf))\<close> and a new block for \<open>raw\<close>.\<close>

definition mbuf_new :: "(nat \<Rightarrow> u8) \<Rightarrow> mbuf" where
  "mbuf_new g = \<lparr>raw = new_array g 1518, mb_len = 0, ether_frame = 0, ether_len = 0, ether_off = 0,
     ip_frame = 0, ip_len = 0, ip_off = 0, tcp_frame = 0, tcp_len = 0, tcp_off = 0, tcp_seq = 0,
     tcp_ack = 0, protocol_mask = 0\<rparr>"

abbreviation (input) MBUF_ETHER :: u8 where "MBUF_ETHER \<equiv> 1"
abbreviation (input) MBUF_IP :: u8 where "MBUF_IP \<equiv> 4"

text \<open>Fields: bytes, and 16- and 32-bit values in network order.\<close>

definition byte_at :: "mbuf \<Rightarrow> nat \<Rightarrow> u8 outcome" where
  "byte_at b off = and_then (mem_load (raw b) off 1) (\<lambda>bs. Inr (hd bs))"

definition ntohs_at :: "mbuf \<Rightarrow> nat \<Rightarrow> u16 outcome" where
  "ntohs_at b off = and_then (mem_load (raw b) off 2) (\<lambda>bs. Inr (be16_get bs))"

definition ntohl_at :: "mbuf \<Rightarrow> nat \<Rightarrow> u32 outcome" where
  "ntohl_at b off = and_then (mem_load (raw b) off 4) (\<lambda>bs. Inr (be32_get bs))"

text \<open>\<open>ntohl\<close> of a value: its bytes reversed.\<close>

definition ntohl :: "u32 \<Rightarrow> u32" where
  "ntohl w = be32_get (le32_put w)"

section \<open>The flags of a TCP header\<close>

text \<open>Byte 13 of the header: FIN, SYN, RST, PSH, ACK, URG from the lowest bit on.\<close>

definition tcp_flag :: "nat \<Rightarrow> mbuf \<Rightarrow> bool outcome" where
  "tcp_flag n b = and_then (byte_at b (tcp_frame b + 13)) (\<lambda>f. Inr (bit f n))"

definition tcp_fin :: "mbuf \<Rightarrow> bool outcome" where "tcp_fin b = tcp_flag 0 b"
definition tcp_syn :: "mbuf \<Rightarrow> bool outcome" where "tcp_syn b = tcp_flag 1 b"
definition tcp_rst :: "mbuf \<Rightarrow> bool outcome" where "tcp_rst b = tcp_flag 2 b"
definition tcp_psh :: "mbuf \<Rightarrow> bool outcome" where "tcp_psh b = tcp_flag 3 b"
definition tcp_ack_flag :: "mbuf \<Rightarrow> bool outcome" where "tcp_ack_flag b = tcp_flag 4 b"

section \<open>The parser\<close>

text \<open>\<open>tcp_ack\<close> is taken from the one-bit field \<open>ack\<close>, not from \<open>ack_seq\<close>.\<close>

definition parse_tcp :: "mbuf \<Rightarrow> (mbuf \<times> int) outcome" where
  "parse_tcp b =
     (if unat (ip_len b) < 20 then Inr (b, -1)
      else
        let b = b\<lparr>tcp_frame := ip_frame b + unat (ip_off b)\<rparr>
        in and_then (byte_at b (tcp_frame b + 12)) (\<lambda>x.
           let b = b\<lparr>tcp_off := push_bit 2 (ucast (drop_bit 4 x))\<rparr>;
               b = b\<lparr>tcp_len := ip_len b - tcp_off b\<rparr>
           in and_then (ntohl_at b (tcp_frame b + 4)) (\<lambda>seq.
              and_then (tcp_ack_flag b) (\<lambda>ack.
              Inr (b\<lparr>tcp_seq := seq, tcp_ack := ntohl (if ack then 1 else 0)\<rparr>, 0)))))"

definition parse_arp :: "mbuf \<Rightarrow> (mbuf \<times> int) outcome" where
  "parse_arp b = Inr (b, 0)"

definition parse_ip :: "mbuf \<Rightarrow> (mbuf \<times> int) outcome" where
  "parse_ip b =
     (if unat (ether_len b) < 20 then Inr (b, -1)
      else
        let b = b\<lparr>ip_frame := ether_frame b + unat (ether_off b)\<rparr>
        in and_then (byte_at b (ip_frame b)) (\<lambda>x.
           let b = b\<lparr>ip_off := push_bit 2 (ucast (x AND 0x0f))\<rparr>
           in and_then (ntohs_at b (ip_frame b + 2)) (\<lambda>total.
              let b = b\<lparr>ip_len := total - ip_off b\<rparr>
              in if ip_len b < ip_off b then Inr (b, -1)
                 else
                   let b = b\<lparr>protocol_mask := protocol_mask b OR MBUF_IP\<rparr>
                   in and_then (byte_at b (ip_frame b + 9)) (\<lambda>p.
                      if p = 6 then
                        and_then (parse_tcp b) (\<lambda>(b, r). Inr (b, if r \<noteq> 0 then -1 else 0))
                      else Inr (b, 0)))))"

text \<open>The first test compares with the size of the pointer \<open>ether_frame\<close>, 8.\<close>

definition parser_ether :: "mbuf \<Rightarrow> (mbuf \<times> int) outcome" where
  "parser_ether b =
     (if unat (mb_len b) < 8 then Inr (b, -1)
      else
        let b = b\<lparr>ether_frame := 0, ether_len := mb_len b, ether_off := 14,
                  protocol_mask := protocol_mask b OR MBUF_ETHER\<rparr>
        in and_then (ntohs_at b (ether_frame b + 12)) (\<lambda>t.
           if t = 0x0800 then and_then (parse_ip b) (\<lambda>(b, r). Inr (b, if r \<noteq> 0 then -1 else 0))
           else if t = 0x0806 then and_then (parse_arp b) (\<lambda>(b, r). Inr (b, if r \<noteq> 0 then -1 else 0))
           else Inr (b, 0)))"

text \<open>\<open>do_receive\<close>: \<open>rd\<close> is what \<open>read\<close> delivered, \<open>None\<close> for an error.\<close>

definition do_receive :: "block option \<Rightarrow> mbuf \<Rightarrow> mbuf outcome" where
  "do_receive rd b =
     (case rd of None \<Rightarrow> Inr b
      | Some bs \<Rightarrow>
          and_then (mem_store (raw b) 0 bs) (\<lambda>m.
          and_then (parser_ether (b\<lparr>raw := m, mb_len := word_of_nat (length bs)\<rparr>)) (\<lambda>(b, r). Inr b)))"

text \<open>\<open>protocol_test\<close>: one new structure per read, for ever; the structures after the given reads.\<close>

fun protocol_test :: "(nat \<Rightarrow> nat \<Rightarrow> u8) \<Rightarrow> block option list \<Rightarrow> mbuf list outcome" where
  "protocol_test g [] = Inr []"
| "protocol_test g (rd # rds) =
     and_then (do_receive rd (mbuf_new (g (length rds)))) (\<lambda>b.
     and_then (protocol_test g rds) (\<lambda>bs. Inr (b # bs)))"

section \<open>Lemmas\<close>

lemma field_Inr [mem_simps]:
  "off < length (raw b) \<Longrightarrow> byte_at b off = Inr (raw b ! off)"
  "off + 2 \<le> length (raw b) \<Longrightarrow> ntohs_at b off = Inr (be16_get (take 2 (drop off (raw b))))"
  "off + 4 \<le> length (raw b) \<Longrightarrow> ntohl_at b off = Inr (be32_get (take 4 (drop off (raw b))))"
  by (simp_all add: byte_at_def ntohs_at_def ntohl_at_def mem_load_def hd_drop_conv_nth take_Suc_conv_app_nth
      hd_take)

text \<open>A header length in words is at most 15, so in bytes at most 60.\<close>

lemma small_shift:
  fixes y :: u8
  assumes "unat y < 16"
  shows "unat (push_bit 2 (ucast y :: u16)) = 4 * unat y"
proof -
  have "unat (push_bit 2 (ucast y :: u16)) = take_bit 16 (push_bit 2 (unat y))"
    by (simp add: unsigned_push_bit_eq unsigned_ucast_eq take_bit_push_bit)
  also have "\<dots> = 4 * unat y" using assms by (simp add: push_bit_eq_mult take_bit_nat_eq_self)
  finally show ?thesis .
qed

lemma nibbles:
  fixes x :: u8
  shows "unat (x AND 0x0f) < 16" "unat (drop_bit 4 x) < 16"
proof -
  have "x AND 0x0f = take_bit 4 x" by (simp add: take_bit_eq_mask mask_eq_exp_minus_1)
  then show "unat (x AND 0x0f) < 16"
    by (simp add: unsigned_take_bit_eq take_bit_nat_less_exp [of 4, simplified])
  have "unat x < 256" using unsigned_less [of x, where ?'a = nat] by simp
  then show "unat (drop_bit 4 x) < 16" by (simp add: unsigned_drop_bit_eq drop_bit_eq_div [where 'a = nat] take_bit_nat_eq_self)
qed

definition ip_header :: "u8 \<Rightarrow> nat" where
  "ip_header x = 4 * unat (x AND 0x0f)"

definition tcp_header :: "u8 \<Rightarrow> nat" where
  "tcp_header x = 4 * unat (drop_bit 4 x)"

lemma header_words:
  "unat (push_bit 2 (ucast (x AND 0x0f)) :: u16) = ip_header x"
  "unat (push_bit 2 (ucast (drop_bit 4 x)) :: u16) = tcp_header x"
  "ip_header x \<le> 60" "tcp_header x \<le> 60"
  using nibbles [of x] small_shift [of "x AND 0x0f"] small_shift [of "drop_bit 4 x"]
  by (simp_all add: ip_header_def tcp_header_def)

lemma unat_sub_u16:
  fixes a b :: u16
  shows "unat (a - b) = (if unat b \<le> unat a then unat a - unat b else unat a + 65536 - unat b)"
  by (simp add: unat_sub_if_size word_size)

text \<open>TCP: every read lies within 80 bytes of the IP header.\<close>

lemma parse_tcp_eq:
  assumes "ip_frame b + unat (ip_off b) + 20 \<le> length (raw b)" "20 \<le> unat (ip_len b)"
    and t: "t = ip_frame b + unat (ip_off b)" and x: "x = raw b ! (t + 12)"
  shows "parse_tcp b = Inr (b\<lparr>tcp_frame := t, tcp_off := push_bit 2 (ucast (drop_bit 4 x)),
      tcp_len := ip_len b - push_bit 2 (ucast (drop_bit 4 x)),
      tcp_seq := be32_get (take 4 (drop (t + 4) (raw b))),
      tcp_ack := if bit (raw b ! (t + 13)) 4 then 0x01000000 else 0\<rparr>, 0)"
proof -
  have "ntohl 1 = 0x01000000" "ntohl 0 = 0" by (simp_all add: ntohl_def le32_put_def)
  then show ?thesis
    using assms by (simp add: parse_tcp_def Let_def mem_simps tcp_ack_flag_def tcp_flag_def)
qed

lemma parse_tcp_total:
  assumes "ip_frame b + unat (ip_off b) + 20 \<le> length (raw b)"
  shows "\<exists>b' r. parse_tcp b = Inr (b', r) \<and> raw b' = raw b"
proof (cases "20 \<le> unat (ip_len b)")
  case True
  show ?thesis using parse_tcp_eq [OF assms True refl refl] by simp
next
  case False
  then show ?thesis by (simp add: parse_tcp_def)
qed

text \<open>The IP layer with its reads resolved.\<close>

lemma parse_ip_eq:
  assumes "f + 60 \<le> length (raw b)" and f: "f = ether_frame b + unat (ether_off b)"
    and ho: "ho = push_bit 2 (ucast (raw b ! f AND 0x0f))"
    and tot: "tot = be16_get (take 2 (drop (f + 2) (raw b)))"
    and b1: "b1 = b\<lparr>ip_frame := f, ip_off := ho, ip_len := tot - ho\<rparr>"
    and b2: "b2 = b1\<lparr>protocol_mask := protocol_mask b OR MBUF_IP\<rparr>"
  shows "parse_ip b =
    (if unat (ether_len b) < 20 then Inr (b, -1)
     else if tot - ho < ho then Inr (b1, -1)
     else if raw b ! (f + 9) = 6
     then and_then (parse_tcp b2) (\<lambda>(b, r). Inr (b, if r \<noteq> 0 then -1 else 0))
     else Inr (b2, 0))"
  using assms by (simp add: parse_ip_def Let_def mem_simps)

lemma parse_ip_total:
  assumes "ether_frame b + unat (ether_off b) + 80 \<le> length (raw b)"
  shows "\<exists>b' r. parse_ip b = Inr (b', r) \<and> raw b' = raw b"
proof -
  define f where "f = ether_frame b + unat (ether_off b)"
  define ho :: u16 where "ho = push_bit 2 (ucast (raw b ! f AND 0x0f))"
  define tot where "tot = be16_get (take 2 (drop (f + 2) (raw b)))"
  define b1 where "b1 = b\<lparr>ip_frame := f, ip_off := ho, ip_len := tot - ho\<rparr>"
  define b2 where "b2 = b1\<lparr>protocol_mask := protocol_mask b OR MBUF_IP\<rparr>"
  have "unat ho \<le> 60" unfolding ho_def header_words(1) by (rule header_words(3))
  then have "ip_frame b2 + unat (ip_off b2) + 20 \<le> length (raw b2)"
    using assms by (simp add: b2_def b1_def f_def)
  from parse_tcp_total [OF this] obtain b' r where "parse_tcp b2 = Inr (b', r)" "raw b' = raw b"
    by (auto simp: b2_def b1_def)
  moreover have "f + 60 \<le> length (raw b)" using assms by (simp add: f_def)
  ultimately show ?thesis
    using parse_ip_eq [OF _ f_def ho_def tot_def b1_def b2_def]
    by (simp add: b1_def b2_def)
qed

lemma parser_ether_total:
  assumes "length (raw b) = 1518"
  shows "\<exists>b' r. parser_ether b = Inr (b', r) \<and> raw b' = raw b"
proof -
  define b1 where "b1 = b\<lparr>ether_frame := 0, ether_len := mb_len b, ether_off := 14,
    protocol_mask := protocol_mask b OR MBUF_ETHER\<rparr>"
  have "ether_frame b1 + unat (ether_off b1) + 80 \<le> length (raw b1)"
    using assms by (simp add: b1_def)
  from parse_ip_total [OF this] obtain b' r where "parse_ip b1 = Inr (b', r)" "raw b' = raw b"
    by (auto simp: b1_def)
  then show ?thesis
    using assms by (simp add: parser_ether_def Let_def mem_simps parse_arp_def b1_def)
qed

lemma do_receive_total:
  assumes "length (raw b) = 1518" "pred_option (\<lambda>bs. length bs \<le> 1518) rd"
  shows "\<exists>b'. do_receive rd b = Inr b' \<and> length (raw b') = 1518"
proof (cases rd)
  case None
  then show ?thesis using assms by (simp add: do_receive_def)
next
  case (Some bs)
  define m where "m = bs @ drop (length bs) (raw b)"
  have m: "mem_store (raw b) 0 bs = Inr m" "length m = 1518"
    using assms Some by (simp_all add: mem_simps m_def)
  from parser_ether_total [of "b\<lparr>raw := m, mb_len := word_of_nat (length bs)\<rparr>"] m
  show ?thesis by (auto simp: do_receive_def Some)
qed

section \<open>Properties\<close>

text \<open>C27: the parser is memory safe: whatever frames of at most 1518 bytes the tap delivers, and
  whatever the uninitialised rest of the buffer holds, no header is read outside the buffer, and
  \<open>protocol_test\<close> goes through all of them.\<close>

theorem protocol_test_safe:
  assumes "list_all (pred_option (\<lambda>bs. length bs \<le> 1518)) rds"
  shows "\<exists>bufs. protocol_test g rds = Inr bufs \<and> length bufs = length rds"
  using assms
proof (induction rds)
  case (Cons rd rds)
  have "length (raw (mbuf_new (g (length rds)))) = 1518" by (simp add: mbuf_new_def)
  then obtain b where "do_receive rd (mbuf_new (g (length rds))) = Inr b"
    using do_receive_total Cons.prems by fastforce
  with Cons show ?case by auto
qed simp

theorem protocol_test_safe_witness:
  "\<exists>bufs. protocol_test (\<lambda>_ _. 0xff) [Some (replicate 12 0 @ [8, 0, 0x4f]), None] = Inr bufs \<and>
    length bufs = length [Some (replicate 12 0 @ [8, 0, 0x4f]), None :: block option]"
  by (rule protocol_test_safe) simp

text \<open>C28: what the parser computes from a TCP frame. For a frame whose EtherType is IPv4, whose
  header length is \<open>h\<close>, whose total length leaves at least \<open>h\<close> and 20 bytes and whose protocol is
  TCP, the sequence number is the network-order field of the segment and the lengths are the total
  length without the IP header and that without the TCP header, but the acknowledgement number is never
  read: \<open>tcp_ack\<close> only tells whether the ACK flag is set.\<close>

theorem do_receive_tcp:
  fixes fr :: block
  assumes len: "14 + h + 20 \<le> length fr" "length fr \<le> 1518" "length (raw b) = 1518"
    and h: "h = ip_header (fr ! 14)"
    and ty: "be16_get (take 2 (drop 12 fr)) = 0x0800"
    and tot: "tot = unat (be16_get (take 2 (drop 16 fr)))" "2 * h \<le> tot" "h + 20 \<le> tot"
    and proto: "fr ! 23 = 6"
  shows "\<exists>b'. do_receive (Some fr) b = Inr b' \<and> ip_frame b' = 14 \<and> tcp_frame b' = 14 + h \<and>
    unat (ip_len b') = tot - h \<and>
    tcp_len b' = word_of_nat (tot - h) - word_of_nat (tcp_header (fr ! (14 + h + 12))) \<and>
    tcp_seq b' = be32_get (take 4 (drop (14 + h + 4) fr)) \<and>
    tcp_ack b' = (if bit (fr ! (14 + h + 13)) 4 then 0x01000000 else 0)"
proof -
  define m where "m = fr @ drop (length fr) (raw b)"
  have st: "mem_store (raw b) 0 fr = Inr m" and m: "length m = 1518"
    using len by (simp_all add: mem_simps m_def)
  have nth: "m ! i = fr ! i" if "i < length fr" for i using that by (simp add: m_def nth_append)
  have sub: "take n (drop i m) = take n (drop i fr)" if "i + n \<le> length fr" for i n
    using that by (simp add: m_def)
  define b1 where "b1 = b\<lparr>raw := m, mb_len := word_of_nat (length fr), ether_frame := 0,
    ether_len := word_of_nat (length fr), ether_off := 14, protocol_mask := protocol_mask b OR MBUF_ETHER\<rparr>"
  define ho :: u16 where "ho = push_bit 2 (ucast (fr ! 14 AND 0x0f))"
  define T where "T = be16_get (take 2 (drop 16 fr))"
  define b2 where "b2 = b1\<lparr>ip_frame := 14, ip_off := ho, ip_len := T - ho\<rparr>"
  define b3 where "b3 = b2\<lparr>protocol_mask := protocol_mask b1 OR MBUF_IP\<rparr>"
  have ho: "unat ho = h" by (simp add: ho_def h header_words)
  have T: "unat (T - ho) = tot - h" using tot ho by (simp add: T_def unat_sub_u16)
  have ge: "\<not> T - ho < ho" using tot T ho by (simp add: word_less_nat_alt)
  have el: "\<not> unat (ether_len b1) < 20" using len by (simp add: b1_def unat_of_nat)
  have "parse_ip b1 = and_then (parse_tcp b3) (\<lambda>(b, r). Inr (b, if r \<noteq> 0 then -1 else 0))"
    using len m el ge proto
    by (subst parse_ip_eq [where f = 14 and ho = ho and tot = T and ?b1.0 = b2 and ?b2.0 = b3])
      (simp_all add: b1_def ho_def nth T_def sub b2_def b3_def)
  moreover have "\<exists>b'. parse_tcp b3 = Inr (b', 0) \<and> ip_frame b' = 14 \<and> tcp_frame b' = 14 + h \<and>
      ip_len b' = T - ho \<and> tcp_len b' = T - ho - word_of_nat (tcp_header (fr ! (14 + h + 12))) \<and>
      tcp_seq b' = be32_get (take 4 (drop (14 + h + 4) fr)) \<and>
      tcp_ack b' = (if bit (fr ! (14 + h + 13)) 4 then 0x01000000 else 0)"
  proof -
    have "word_of_nat (tcp_header x) = (push_bit 2 (ucast (drop_bit 4 x)) :: u16)" for x
      by (simp flip: header_words(2))
    then show ?thesis
      using len m tot T ho
      by (subst parse_tcp_eq [where t = "14 + h", OF _ _ _ refl])
        (simp_all add: b3_def b2_def b1_def nth sub)
  qed
  moreover have "T - ho = word_of_nat (tot - h)" by (simp flip: T)
  moreover have "ntohs_at b1 12 = Inr 0x0800"
    using ty m len by (simp add: b1_def mem_simps sub)
  ultimately show ?thesis
    using len st T by (auto simp: do_receive_def parser_ether_def Let_def b1_def unat_of_nat)
qed

definition syn_ack_frame :: block where
  "syn_ack_frame = replicate 12 2 @ [8, 0] @ [0x45, 0, 0, 44, 0, 0, 0, 0, 64, 6, 0, 0, 10, 0, 0, 1, 10, 0, 0, 2]
     @ [0, 80, 4, 0, 0, 0, 1, 2, 0, 0, 3, 4, 0x60, 0x12, 0, 0, 0, 0, 0, 0, 0, 0, 0, 0]"

theorem do_receive_tcp_witness:
  "\<exists>b'. do_receive (Some syn_ack_frame) (mbuf_new (\<lambda>_. 0)) = Inr b' \<and> ip_frame b' = 14 \<and>
    tcp_frame b' = 14 + 20 \<and> unat (ip_len b') = 44 - 20 \<and>
    tcp_len b' = word_of_nat (44 - 20) - word_of_nat (tcp_header (syn_ack_frame ! (14 + 20 + 12))) \<and>
    tcp_seq b' = be32_get (take 4 (drop (14 + 20 + 4) syn_ack_frame)) \<and>
    tcp_ack b' = (if bit (syn_ack_frame ! (14 + 20 + 13)) 4 then 0x01000000 else 0)"
proof (rule do_receive_tcp)
  show "14 + 20 + 20 \<le> length syn_ack_frame" "length syn_ack_frame \<le> 1518"
    "20 = ip_header (syn_ack_frame ! 14)" "be16_get (take 2 (drop 12 syn_ack_frame)) = 0x0800"
    "44 = unat (be16_get (take 2 (drop 16 syn_ack_frame)))" "syn_ack_frame ! 23 = 6"
    by code_simp+
qed (simp_all add: mbuf_new_def)

text \<open>C40: the length check of the IP layer. It compares the header length with the total length from
  which that was already subtracted, modulo \<open>2 ^ 16\<close>: a packet with less than a header's worth of
  payload is refused, and one whose total length does not even cover its header passes, with a payload
  length near 65536.\<close>

theorem parse_ip_length_check:
  assumes "f + 60 \<le> length (raw b)" "f = ether_frame b + unat (ether_off b)"
    "20 \<le> unat (ether_len b)" "raw b ! (f + 9) \<noteq> 6"
    and h: "h = ip_header (raw b ! f)" and t: "t = unat (be16_get (take 2 (drop (f + 2) (raw b))))"
  shows "\<exists>b' r. parse_ip b = Inr (b', r) \<and> (r = -1 \<longleftrightarrow> h \<le> t \<and> t < 2 * h) \<and>
    unat (ip_len b') = (if h \<le> t then t - h else t + 65536 - h)"
proof -
  define ho :: u16 where "ho = push_bit 2 (ucast (raw b ! f AND 0x0f))"
  define tot where "tot = be16_get (take 2 (drop (f + 2) (raw b)))"
  have ho: "unat ho = h" "h \<le> 60" by (simp_all add: ho_def h header_words)
  have "unat (tot - ho) = (if h \<le> t then t - h else t + 65536 - h)"
    by (simp add: unat_sub_u16 ho t tot_def)
  moreover from this have "tot - ho < ho \<longleftrightarrow> h \<le> t \<and> t < 2 * h"
    using ho by (auto simp: word_less_nat_alt)
  ultimately show ?thesis
    using parse_ip_eq [OF assms(1,2) ho_def tot_def refl refl] assms(3,4) by simp
qed

definition short_packet :: block where
  "short_packet = 0x45 # replicate 99 0"

theorem parse_ip_length_check_witness:
  "\<exists>b' r. parse_ip (mbuf_new (\<lambda>_. 0)\<lparr>raw := short_packet, ether_len := 100\<rparr>) = Inr (b', r) \<and>
    (r = -1 \<longleftrightarrow> (20 :: nat) \<le> 0 \<and> (0 :: nat) < 2 * 20) \<and>
    unat (ip_len b') = (if (20 :: nat) \<le> 0 then 0 - 20 else 0 + 65536 - 20)"
proof -
  let ?b = "mbuf_new (\<lambda>_. 0)\<lparr>raw := short_packet, ether_len := 100\<rparr>"
  have sel: "raw ?b = short_packet" "ether_frame ?b = 0" "unat (ether_off ?b) = 0" "unat (ether_len ?b) = 100"
    by (simp_all add: mbuf_new_def)
  have "0 + 60 \<le> length short_packet" "20 = ip_header (short_packet ! 0)" "short_packet ! (0 + 9) \<noteq> 6"
    "0 = unat (be16_get (take 2 (drop (0 + 2) short_packet)))"
    by code_simp+
  then show ?thesis
    by (intro parse_ip_length_check [where f = 0]) (simp_all only: sel, simp_all)
qed

end
