(* ===== verification/Co_Code.thy ===== *)
theory Co_Code
  imports Poll_Loop
begin

text \<open>
  Which code a coroutine runs. The routine and the argument a coroutine is created with stay its own,
  whatever the library does, so \<open>co_launch\<close> starts each coroutine with them. \<open>co_launch_cxx\<close> of
  \<open>coroutine.h\<close> is the routine of the C++ interface: its argument is a function object on the heap.
\<close>

section \<open>Function objects\<close>

type_synonym 'f fun_heap = "u64 \<Rightarrow> 'f option"

text \<open>\<open>(*func_ptr)(); delete func_ptr;\<close>, where \<open>call\<close> is what a function object does.\<close>

definition co_launch_cxx ::
    "('f \<Rightarrow> 'f fun_heap \<Rightarrow> 'f fun_heap outcome) \<Rightarrow> u64 \<Rightarrow> 'f fun_heap \<Rightarrow> 'f fun_heap outcome" where
  "co_launch_cxx call func_ptr h =
     (case h func_ptr of None \<Rightarrow> Inl Undefined_Behaviour
      | Some f \<Rightarrow>
          and_then (call f h) (\<lambda>h.
          case h func_ptr of None \<Rightarrow> Inl Undefined_Behaviour
          | Some _ \<Rightarrow> Inr (h(func_ptr := None))))"

lemma co_launch_cxx_once:
  assumes "h p = Some f" "call f h = Inr h'" "h' p \<noteq> None"
  shows "\<exists>h''. co_launch_cxx call p h = Inr h'' \<and> h'' = h'(p := None)
    \<and> co_launch_cxx call p h'' = Inl Undefined_Behaviour"
  using assms by (auto simp: co_launch_cxx_def)

section \<open>The code of a coroutine\<close>

definition code_of :: "world \<Rightarrow> nat \<Rightarrow> (u64 \<times> u64) option" where
  "code_of w i = map_option (\<lambda>c. (routine c, param c)) (cos w i)"

text \<open>Identifiers are not reused, and a coroutine that is there has the code it had.\<close>

definition code_kept :: "world \<Rightarrow> world \<Rightarrow> bool" where
  "code_kept w w' \<longleftrightarrow> fresh w \<le> fresh w' \<and> (\<forall>j < fresh w. code_of w' j = None \<or> code_of w' j = code_of w j)"

lemma code_of_upd [simp]:
  "code_of (w\<lparr>stks := x1\<rparr>) = code_of w" "code_of (w\<lparr>cpu := x2\<rparr>) = code_of w"
  "code_of (w\<lparr>sched := x3\<rparr>) = code_of w" "code_of (w\<lparr>current := x4\<rparr>) = code_of w"
  "code_of (w\<lparr>fresh := x5\<rparr>) = code_of w" "code_of (w\<lparr>shared_stack_alloc_count := x6\<rparr>) = code_of w"
  "code_of (w\<lparr>stks := x8, cos := h\<rparr>) = code_of (w\<lparr>cos := h\<rparr>)"
  "code_of (w\<lparr>fresh := x7, cos := h\<rparr>) = code_of (w\<lparr>cos := h\<rparr>)"
  "code_of (w\<lparr>cos := (cos w)(i := q)\<rparr>) = (code_of w)(i := map_option (\<lambda>c. (routine c, param c)) q)"
  by (auto simp: code_of_def fun_eq_iff)

lemma code_kept_refl [simp]: "code_kept w w"
  by (simp add: code_kept_def)

lemma code_kept_trans:
  assumes "code_kept u v" "code_kept v w"
  shows "code_kept u w"
proof -
  have "code_of w j = None \<or> code_of w j = code_of u j" if "j < fresh u" for j
    using assms that unfolding code_kept_def by (metis less_le_trans)
  then show ?thesis using assms by (auto simp: code_kept_def)
qed

definition code_same :: "world \<Rightarrow> world \<Rightarrow> bool" where
  "code_same w w' \<longleftrightarrow> fresh w' = fresh w \<and> code_of w' = code_of w"

lemma code_same_kept: "code_same w w' \<Longrightarrow> code_kept w w'"
  by (simp add: code_same_def code_kept_def)

lemma code_same_trans: "code_same u v \<Longrightarrow> code_same v w \<Longrightarrow> code_same u w"
  by (simp add: code_same_def)

lemma code_same_set_co:
  "cos w i = Some c \<Longrightarrow> routine c' = routine c \<Longrightarrow> param c' = param c \<Longrightarrow> code_same w (set_co i c' w)"
  by (auto simp: code_same_def code_of_def set_co_def)

lemma code_same_simps [simp]:
  "code_same w (set_stk s st v) = code_same w v" "code_same w (v\<lparr>cpu := x\<rparr>) = code_same w v"
  "code_same w (v\<lparr>sched := q\<rparr>) = code_same w v" "code_same w (v\<lparr>current := r\<rparr>) = code_same w v"
  "code_same w w"
  by (auto simp: code_same_def set_stk_def)

lemma switch_code_same:
  "save_context im w = Inr w' \<Longrightarrow> code_same w w'" "load_context w = Inr w' \<Longrightarrow> code_same w w'"
  "save_stack i w = Inr w' \<Longrightarrow> code_same w w'" "restore_stack i w = Inr w' \<Longrightarrow> code_same w w'"
  by (auto simp: save_context_def load_context_def save_stack_def restore_stack_def deref_Inr and_then_Inr_iff Let_def
      split: if_splits intro!: code_same_set_co)

lemma swap_code_same: "co_swap_in i w = Inr w' \<Longrightarrow> code_same w w'"
  by (auto simp: co_swap_in_def and_then_Inr_iff split: if_splits option.splits
      dest!: switch_code_same(3,4) intro: code_same_trans)

lemma code_same_from: "code_same (w\<lparr>sched := q, current := r\<rparr>) v = code_same w v"
  by (simp add: code_same_def)

lemma sched_code_same: "co_sched w = Inr w' \<Longrightarrow> code_same w w'"
  by (auto simp: co_sched_def and_then_Inr_iff Let_def code_same_from split: option.splits prod.splits if_splits
      dest!: swap_code_same switch_code_same(2) intro: code_same_trans)

lemma post_code_same: "co_post p w = Inr w' \<Longrightarrow> code_same w w'"
  by (auto simp: co_post_def split: option.splits)

lemma delete_code:
  assumes "coroutine_delete p w = Inr w'"
  shows "fresh w' = fresh w \<and> code_of w' = (code_of w)(the p := None)"
proof -
  obtain c v where v: "deref (cos w) p = Inr c" "w' = v\<lparr>cos := (cos v)(the p := None)\<rparr>"
    "(if \<not> shared_stack c
       then (case co_stack_ptr c of None \<Rightarrow> Inr w
             | Some s \<Rightarrow> and_then (deref (stks w) (Some s)) (\<lambda>_. Inr (w\<lparr>stks := (stks w)(s := None)\<rparr>)))
       else (case co_stack_ptr c of None \<Rightarrow> Inr w
             | Some s \<Rightarrow> and_then (deref (stks w) (Some s)) (\<lambda>st.
                 Inr (if used_by st = p then set_stk s (st\<lparr>used_by := None\<rparr>) w else w)))) = Inr v"
    using assms unfolding coroutine_delete_def and_then_Inr_iff by auto
  from v(3) have "code_same w v"
    by (auto simp: and_then_Inr_iff code_same_def set_stk_def split: if_splits option.splits)
  with v(2) show ?thesis by (simp add: code_same_def)
qed

lemma delete_code_kept: "coroutine_delete p w = Inr w' \<Longrightarrow> code_kept w w'"
  using delete_code by (fastforce simp: code_kept_def)

lemma set_stack_code_same: "set_stack im i s w = Inr w' \<Longrightarrow> code_same w w'"
  by (auto simp: set_stack_def and_then_Inr_iff deref_Inr Let_def split: if_splits intro!: code_same_set_co)

lemma alloc_code_same: "co_alloc_shared_stack w = Inr (s, w') \<Longrightarrow> code_same w w'"
  by (auto simp: co_alloc_shared_stack_def Let_def code_same_def split: if_splits)

lemma run_code_same: "co_run ctx m w = Inr w' \<Longrightarrow> code_same w w'"
  by (auto simp: co_run_def and_then_Inr_iff deref_Inr)

lemma create_code:
  assumes "co_create im addr g n rout par w = Inr (i, w')"
  shows "i = fresh w" "i < fresh w'" "code_kept w w'" "code_of w' i = Some (rout, par)"
  using assms
  by (auto simp: co_create_def new_co_def new_stk_def Let_def and_then_Inr_iff coroutine_new_def code_kept_def code_same_def
      set_co_def set_stk_def dest!: set_stack_code_same)

lemma create_shared_code:
  assumes "co_create_shared im rout par w = Inr (i, w')"
  shows "i = fresh w" "i < fresh w'" "code_kept w w'" "code_of w' i = Some (rout, par)"
  using assms
  by (auto simp: co_create_shared_def new_co_def Let_def and_then_Inr_iff coroutine_new_def code_kept_def code_same_def
      set_co_def dest!: set_stack_code_same alloc_code_same)

lemma do_code_kept:
  assumes "co_do im a w = Inr w'"
  shows "code_kept w w'"
proof (cases a)
  case Exit
  then obtain v where "code_kept (w\<lparr>cpu := (cpu w)\<lparr>RSP := at_static_stack im\<rparr>\<rparr>) v" "code_kept v w'"
    using assms by (auto simp: co_exit_def co_destroy_def Let_def and_then_Inr_iff
        dest!: delete_code_kept sched_code_same code_same_kept)
  moreover have "code_kept w (w\<lparr>cpu := (cpu w)\<lparr>RSP := at_static_stack im\<rparr>\<rparr>)" by (rule code_same_kept) simp
  ultimately show ?thesis by (blast intro: code_kept_trans)
next
  case (Create addr g n rout par)
  then show ?thesis using assms by (auto simp: and_then_Inr_iff dest: create_code)
next
  case (Create_Shared rout par)
  then show ?thesis using assms by (auto simp: and_then_Inr_iff dest: create_shared_code)
next
  case (Destroy i)
  then show ?thesis using assms by (auto simp: co_destroy_def dest: delete_code_kept)
qed (use assms in \<open>auto simp: co_resched_def co_yield_def and_then_Inr_iff Let_def
    dest!: run_code_same switch_code_same(1) post_code_same sched_code_same
    intro!: code_same_kept intro: code_same_trans\<close>)

lemma away_code_kept: "co_away im m i u w \<Longrightarrow> code_kept u w"
proof (induction rule: co_away.induct)
  case (away_step u v a w)
  then show ?case using code_kept_trans do_code_kept by blast
qed (rule code_kept_refl)

lemma code_kept_launch:
  "code_kept u w \<Longrightarrow> i < fresh u \<Longrightarrow> code_of u i = Some r \<Longrightarrow> current w = Some i \<Longrightarrow> i \<in> dom (cos w) \<Longrightarrow>
   co_launch w = Inr r"
  by (force simp: code_kept_def code_of_def co_launch_def deref_def)

section \<open>Properties\<close>

text \<open>C9: a coroutine created with a function, on a stack of its own or on the shared one, starts with it. However
  the other coroutines run before its turn, the first switch to it enters \<open>co_launch\<close> with the default
  floating-point control words and the address of \<open>co_exit\<close> as the only word of its stack, and \<open>co_launch\<close> calls
  the routine the coroutine was created with on the argument it was created with.\<close>

theorem created_coroutine_starts:
  assumes "co_inv m w"
    and "8 \<le> n \<and> addr + n < size_max \<and> co_create_cxx im addr g n launch func w = Inr (i, u)
      \<or> co_create_cxx_shared im launch func w = Inr (i, u)"
    and "co_away im m i u v" "co_allowed m a v" "co_do im a v = Inr x" "current x = Some i"
  shows "RIP (cpu x) = at_co_launch im \<and> mxcsr (cpu x) = mxcsr_MASK \<and> x87_cw (cpu x) = x87_cw_mask
    \<and> live_stack x = le64_put (at_co_exit im) \<and> co_launch x = Inr (launch, func)"
proof -
  from assms(2) Create_ok [OF assms(1), of n addr im g launch func] Create_Shared_ok [OF assms(1), of im launch func]
  have u: "i = fresh w" "co_inv m u" "launchable im launch func i u"
    by (auto simp: co_create_cxx_def co_create_cxx_shared_def)
  from assms(2) have c: "code_of u i = Some (launch, func)" "i < fresh u"
    by (auto simp: co_create_cxx_def co_create_cxx_shared_def dest: create_code create_shared_code)
  from co_away_kept [OF assms(3) u(2)] have v: "co_inv m v" "kept i u v" "current v \<noteq> Some i" "i \<in> dom (cos v)"
    by auto
  from co_do_ok [OF v(1) assms(4), of im] assms(5,6) v(3,4) have x: "co_inv m x" "resumed x"
    "i \<in> dom (cos x) \<longrightarrow> kept i v x" by auto
  then have "cur_ok x" by (simp add: co_inv_def)
  then have d: "i \<in> dom (cos x)" using assms(6) by (auto simp: cur_ok_def)
  with x v have k: "kept i u x" by (blast intro: kept_trans)
  have "saved_registers x i = Some (cpu x)" using x(2) assms(6) by (simp add: resumed_def)
  then have "live_stack x = le64_put (at_co_exit im)" "RIP (cpu x) = at_co_launch im"
    "mxcsr (cpu x) = mxcsr_MASK" "x87_cw (cpu x) = x87_cw_mask"
    using live_resumed [OF \<open>cur_ok x\<close> x(2) assms(6)] k u(3)
    by (auto simp: kept_def launchable_def saved_registers_def)
  moreover have "code_kept u x"
    using away_code_kept [OF assms(3)] do_code_kept [OF assms(5)] by (rule code_kept_trans)
  then have "co_launch x = Inr (launch, func)" using c assms(6) d by (blast intro: code_kept_launch)
  ultimately show ?thesis by simp
qed

lemma create_shared_queue:
  "co_create_shared im rout par w = Inr (i, u) \<Longrightarrow> sched u = sched w \<and> current u = current w"
  by (auto simp: co_create_shared_def co_alloc_shared_stack_def set_stack_def new_co_def set_co_def set_stk_def Let_def
      and_then_Inr_iff split: if_splits)

lemma demo_first_turn:
  assumes "w = co_init demo_image 65536 (\<lambda>_. 0) (co_boot zero_ctx)"
  shows "\<exists>u v x. co_create_cxx_shared demo_image 11 12 w = Inr (3, u) \<and> co_away demo_image 0 3 u v
    \<and> co_do demo_image Resched v = Inr x \<and> current x = Some 3"
proof -
  have w: "co_inv 0 w" "current w = Some 0" "sched w = Some []" "fresh w = 3"
    using assms co_init_ok [of 65536 demo_image] by (simp_all add: co_init_boot)
  from Create_Shared_ok [OF w(1), of demo_image 11 12] obtain u where
    u: "co_create_shared demo_image 11 12 w = Inr (3, u)" "co_inv 0 u" "parked 3 u" using w(4) by auto
  with create_shared_queue w have q: "sched u = Some []" "current u = Some 0" by fastforce+
  from Post_ok [OF u(2,3)] obtain v where v: "co_post (Some 3) u = Inr v" "co_inv 0 v" "kept 3 u v" "current v = Some 0"
    using q by auto
  have d: "3 \<in> dom (cos u)" "3 \<in> dom (cos v)" using u(3) v(3) kept_dom unfolding parked_def by blast+
  have "co_away demo_image 0 3 u u" by (rule away_start) (use q d in simp_all)
  then have "co_away demo_image 0 3 u v" by (rule away_step [where a = "Post 3"]) (use u v d in simp_all)
  moreover have "sched v = Some [Some 3]" using v(1) q by (auto simp: co_post_def rr_enqueue_def)
  with Resched_ok [OF v(2), of demo_image] obtain x where "co_resched demo_image v = Inr x" "current x = Some 3" by auto
  ultimately show ?thesis using u(1) by (auto simp: co_create_cxx_shared_def)
qed

theorem created_coroutine_starts_witness:
  "\<exists>u v x. co_create_cxx_shared demo_image 11 12 (co_init demo_image 65536 (\<lambda>_. 0) (co_boot zero_ctx)) = Inr (3, u)
    \<and> co_away demo_image 0 3 u v \<and> co_do demo_image Resched v = Inr x \<and> co_launch x = Inr (11, 12)"
proof -
  have "co_inv 0 (co_init demo_image 65536 (\<lambda>_. 0) (co_boot zero_ctx))" by (rule co_init_ok) simp
  note starts = created_coroutine_starts [OF this]
  from demo_first_turn [OF refl] obtain u v x where
    "co_create_cxx_shared demo_image 11 12 (co_init demo_image 65536 (\<lambda>_. 0) (co_boot zero_ctx)) = Inr (3, u)"
    "co_away demo_image 0 3 u v" "co_do demo_image Resched v = Inr x" "current x = Some 3" by blast
  then show ?thesis using starts [of 0 0 demo_image "\<lambda>_. 0" 11 12 3 u v Resched x] by auto
qed

end
