(* ===== verification/Bridge_Main.thy ===== *)
theory Bridge_Main
  imports Socks5 Eth_Tunnel Co_Code
begin

text \<open>
  Start-up: the configuration (\<open>ether_bridge_conf\<close> of \<open>bridge/ether_bridge.hpp\<close>), the tap device
  (\<open>network/tuntap.hpp\<close>), \<open>main\<close>, and the functions \<open>client\<close>, \<open>server\<close> and \<open>socks5_server\<close> up to their
  endless loops. The YAML library is a parameter, a node's typed look-up that may throw; descriptors and
  results of system calls are arguments.
\<close>

section \<open>Configuration\<close>

record yaml_node =
  as_string :: "string \<Rightarrow> string outcome"
  as_uint16 :: "string \<Rightarrow> u16 outcome"

datatype conf_mode = SERVER | CLIENT

record ether_bridge_conf =
  conf_mode :: conf_mode
  conf_key :: string
  conf_tap_device :: string
  conf_remote_addr :: string
  conf_remote_port :: u16
  conf_bind_addr :: string
  conf_bind_port :: u16

text \<open>\<open>rport\<close> and \<open>bport\<close> are the indeterminate values of the ports that are not read.\<close>

definition ether_bridge_conf_new :: "u16 \<Rightarrow> u16 \<Rightarrow> yaml_node \<Rightarrow> ether_bridge_conf outcome" where
  "ether_bridge_conf_new rport bport node =
     and_then (as_string node ''mode'') (\<lambda>mode.
     and_then (as_string node ''key'') (\<lambda>key.
     and_then (as_string node ''tap_dev'') (\<lambda>dev.
     let conf = \<lparr>conf_mode = (if mode = ''server'' then SERVER else CLIENT), conf_key = key,
           conf_tap_device = dev, conf_remote_addr = [], conf_remote_port = rport,
           conf_bind_addr = [], conf_bind_port = bport\<rparr>
     in if conf_mode conf = CLIENT then
          and_then (as_string node ''remote_addr'') (\<lambda>a.
          and_then (as_uint16 node ''remote_port'') (\<lambda>p.
          Inr (conf\<lparr>conf_remote_addr := a, conf_remote_port := p\<rparr>)))
        else
          and_then (as_string node ''bind_addr'') (\<lambda>a.
          and_then (as_uint16 node ''bind_port'') (\<lambda>p.
          Inr (conf\<lparr>conf_bind_addr := a, conf_bind_port := p\<rparr>))))))"

section \<open>The tap device\<close>

abbreviation (input) IFNAMSIZ :: nat where "IFNAMSIZ \<equiv> 16"

record ifreq =
  ifr_name :: block
  ifr_flags :: u16

text \<open>\<open>strncpy(dst, src, n)\<close> of the bytes \<open>src\<close> before its terminator.\<close>

definition strncpy :: "block \<Rightarrow> block \<Rightarrow> nat \<Rightarrow> block outcome" where
  "strncpy dst src n = mem_store dst 0 (take n (takeWhile (\<lambda>c. c \<noteq> 0) src @ replicate n 0))"

text \<open>The open descriptors are the state: \<open>open\<close> returned \<open>fd\<close>; a failing constructor of the derived
  class runs the destructor of \<open>tuntap\<close>.\<close>

definition tuntap_new :: "int \<Rightarrow> int list \<Rightarrow> int list \<times> int outcome" where
  "tuntap_new fd fds =
     (if fd < 0 then (fds, Inl (Runtime_Error ''unable to open /dev/net/tun'')) else (fd # fds, Inr fd))"

definition tuntap_delete :: "int \<Rightarrow> int list \<Rightarrow> int list" where
  "tuntap_delete fd fds = remove1 fd fds"

definition tap_request :: "block \<Rightarrow> ifreq outcome" where
  "tap_request name =
     and_then (strncpy (replicate IFNAMSIZ 0) name (IFNAMSIZ - 1)) (\<lambda>n.
     Inr \<lparr>ifr_name = n, ifr_flags = 0x0002 OR 0x1000\<rparr>)"

definition tun_request :: "block \<Rightarrow> ifreq outcome" where
  "tun_request name =
     and_then (strncpy (replicate IFNAMSIZ 0) name IFNAMSIZ) (\<lambda>n.
     Inr \<lparr>ifr_name = n, ifr_flags = 0x0001 OR 0x1000\<rparr>)"

definition device_new ::
    "int \<Rightarrow> (int \<Rightarrow> ifreq \<Rightarrow> int) \<Rightarrow> ifreq outcome \<Rightarrow> int list \<Rightarrow> int list \<times> int outcome" where
  "device_new fd ioctl request fds =
     (case tuntap_new fd fds of
        (fds, Inl e) \<Rightarrow> (fds, Inl e)
      | (fds, Inr fd) \<Rightarrow>
          (case request of
             Inl e \<Rightarrow> (fds, Inl e)
           | Inr ifr \<Rightarrow>
               if ioctl fd ifr < 0 then (tuntap_delete fd fds, Inl (Runtime_Error ''ioctl failed''))
               else (fds, Inr fd)))"

definition tap_new :: "int \<Rightarrow> (int \<Rightarrow> ifreq \<Rightarrow> int) \<Rightarrow> block \<Rightarrow> int list \<Rightarrow> int list \<times> int outcome" where
  "tap_new fd ioctl name fds = device_new fd ioctl (tap_request name) fds"

definition tun_new :: "int \<Rightarrow> (int \<Rightarrow> ifreq \<Rightarrow> int) \<Rightarrow> block \<Rightarrow> int list \<Rightarrow> int list \<times> int outcome" where
  "tun_new fd ioctl name fds = device_new fd ioctl (tun_request name) fds"

section \<open>Starting the loops\<close>

text \<open>\<open>co = co_create_cxx(..., 65536); co_post(co);\<close>, and the same on the shared stack.\<close>

definition start_co :: "image \<Rightarrow> nat \<Rightarrow> (nat \<Rightarrow> u8) \<Rightarrow> u64 \<Rightarrow> u64 \<Rightarrow> world \<Rightarrow> world outcome" where
  "start_co im addr g launch func w =
     and_then (co_create_cxx im addr g 65536 launch func w) (\<lambda>(co, w). co_post (Some co) w)"

definition start_co_shared :: "image \<Rightarrow> u64 \<Rightarrow> u64 \<Rightarrow> world \<Rightarrow> world outcome" where
  "start_co_shared im launch func w =
     and_then (co_create_cxx_shared im launch func w) (\<lambda>(co, w). co_post (Some co) w)"

text \<open>The functions the programs bind to a coroutine. For each, \<open>launch\<close> is the address of the instance of
  \<open>co_launch_cxx\<close> for its \<open>std::bind\<close> object, \<open>func\<close> the copy of that object on the heap, and \<open>addr\<close> the block
  of its stack.\<close>

datatype loop_routine = Read_Tap | Read_Udp | Socks5_Server

definition server_start ::
    "image \<Rightarrow> int \<Rightarrow> (loop_routine \<Rightarrow> nat) \<Rightarrow> (nat \<Rightarrow> u8) \<Rightarrow> (loop_routine \<Rightarrow> u64) \<Rightarrow> (loop_routine \<Rightarrow> u64) \<Rightarrow>
     world \<Rightarrow> (event_pool \<times> world) outcome" where
  "server_start im epollfd addr g launch func w =
     and_then (pool_new epollfd) (\<lambda>p.
     and_then (start_co im (addr Read_Tap) g (launch Read_Tap) (func Read_Tap) w) (\<lambda>w.
     and_then (start_co im (addr Read_Udp) g (launch Read_Udp) (func Read_Udp) w) (\<lambda>w.
     and_then (start_co im (addr Socks5_Server) g (launch Socks5_Server) (func Socks5_Server) w) (\<lambda>w.
     Inr (p, w)))))"

text \<open>What \<open>read_tap\<close> and \<open>read_udp\<close> of the server do before their loops: the tap's device and its handler
  \<open>k\<close>; the socket, its bound address and the cipher. The results of \<open>resolve\<close> and \<open>bind\<close> are not used.\<close>

definition server_tap_setup :: "int outcome \<Rightarrow> int \<Rightarrow> nat \<Rightarrow> event_pool \<Rightarrow> event_pool outcome" where
  "server_tap_setup tap0 ctl k p = and_then tap0 (\<lambda>fd. async_event_create ctl fd k p)"

definition server_udp_setup ::
    "int \<Rightarrow> int \<Rightarrow> nat \<Rightarrow> (nat \<Rightarrow> u8) \<Rightarrow> nat \<Rightarrow> int \<Rightarrow> block \<Rightarrow> int \<Rightarrow> ether_bridge_conf \<Rightarrow> event_pool \<Rightarrow>
     (event_pool \<times> aes) outcome" where
  "server_udp_setup ctl sfd k g len ret info bound conf p =
     and_then (async_event_create ctl sfd k p) (\<lambda>p.
     and_then (address_resolve ret info
       (address_host_port g len (conf_bind_addr conf) (conf_bind_port conf))) (\<lambda>(addr, _).
     and_then (udp_bind bound) (\<lambda>_.
     Inr (p, aes_new g (AES_key (map of_char (conf_key conf)))))))"

text \<open>\<open>client\<close>: the tap's object is 0, the socket's 1; \<open>ctl i\<close> are the results of \<open>epoll_ctl\<close>.\<close>

definition client_start ::
    "image \<Rightarrow> int \<Rightarrow> int outcome \<Rightarrow> int \<Rightarrow> (nat \<Rightarrow> int) \<Rightarrow> (nat \<Rightarrow> u8) \<Rightarrow> nat \<Rightarrow> int \<Rightarrow> block \<Rightarrow>
     (loop_routine \<Rightarrow> u64) \<Rightarrow> (loop_routine \<Rightarrow> u64) \<Rightarrow> ether_bridge_conf \<Rightarrow> world \<Rightarrow> (client_env \<times> event_pool \<times> world) outcome" where
  "client_start im epollfd tap0 sock ctl g len ret info launch func conf w =
     and_then (address_resolve ret info
       (address_host_port g len (conf_remote_addr conf) (conf_remote_port conf))) (\<lambda>(server_addr, _).
     and_then (pool_new epollfd) (\<lambda>p.
     and_then tap0 (\<lambda>tapfd.
     and_then (async_event_create (ctl 0) tapfd 0 p) (\<lambda>p.
     and_then (async_event_create (ctl 1) sock 1 p) (\<lambda>p.
     let env = \<lparr>env_addr = server_addr, env_aes = aes_new g (AES_key (map of_char (conf_key conf)))\<rparr> in
     and_then (start_co_shared im (launch Read_Tap) (func Read_Tap) w) (\<lambda>w.
     and_then (start_co_shared im (launch Read_Udp) (func Read_Udp) w) (\<lambda>w. Inr (env, p, w))))))))"

text \<open>\<open>socks5_server\<close> up to its loop, and one round of the loop after \<open>accept\<close> delivered \<open>fd\<close>.\<close>

definition socks5_listen ::
    "int \<Rightarrow> int \<Rightarrow> nat \<Rightarrow> (nat \<Rightarrow> u8) \<Rightarrow> nat \<Rightarrow> int \<Rightarrow> block \<Rightarrow> int \<Rightarrow> event_pool \<Rightarrow> event_pool outcome" where
  "socks5_listen ctl sfd k g len ret info bound p =
     and_then (async_event_create ctl sfd k p) (\<lambda>p.
     and_then (address_resolve ret info (address_host_port g len ''0.0.0.0'' 1079)) (\<lambda>(local, r).
     if r \<noteq> 0 then Inl Aborted
     else and_then (tcp_bind bound) (\<lambda>_. Inr p)))"

definition socks5_accept ::
    "image \<Rightarrow> int \<Rightarrow> int \<Rightarrow> nat \<Rightarrow> nat \<Rightarrow> async_file_event \<Rightarrow> int \<Rightarrow> nat \<Rightarrow> (nat \<Rightarrow> u8) \<Rightarrow> u64 \<Rightarrow> u64 \<Rightarrow>
     event_pool \<Rightarrow> world \<Rightarrow> (event_pool \<times> world) outcome" where
  "socks5_accept im ctl sfd k k' junk fd addr g launch func p w =
     and_then (accept_socket ctl sfd k k' junk fd p) (\<lambda>p.
     and_then (start_co im addr g launch func w) (\<lambda>w. Inr (p, w)))"

text \<open>\<open>main\<close> up to \<open>server\<close> or \<open>client\<close>: \<open>None\<close> is a program that stays in \<open>protocol_test\<close>. The message
  for a missing file name is printed when there is one.\<close>

definition main_start ::
    "image \<Rightarrow> nat \<Rightarrow> (nat \<Rightarrow> u8) \<Rightarrow> int \<Rightarrow> int outcome \<Rightarrow> (string \<Rightarrow> yaml_node outcome) \<Rightarrow> string \<Rightarrow>
     u16 \<Rightarrow> u16 \<Rightarrow> world \<Rightarrow> (ether_bridge_conf \<times> world) option outcome" where
  "main_start im addr g argc tap1 load_file arg rport bport w =
     (if argc = 2 then
        let w = co_init im addr g w
        in and_then (load_file arg) (\<lambda>node.
           and_then (ether_bridge_conf_new rport bport node) (\<lambda>conf. Inr (Some (conf, w))))
      else and_then tap1 (\<lambda>_. Inr None))"

section \<open>Lemmas\<close>

definition co_started :: "image \<Rightarrow> u64 \<Rightarrow> u64 \<Rightarrow> world \<Rightarrow> world \<Rightarrow> bool" where
  "co_started im launch func w w' \<longleftrightarrow> co_inv 0 w' \<and> current w' = current w
     \<and> sched w' = Some (the (sched w) @ [Some (fresh w)]) \<and> launchable im launch func (fresh w) w'
     \<and> fresh w < fresh w' \<and> (\<forall>j. j \<noteq> fresh w \<longrightarrow> kept j w w' \<and> cos w' j = cos w j)"

lemma launchable_kept:
  assumes "launchable im r p j w" "kept j w w'" "cos w' j = cos w j"
  shows "launchable im r p j w'"
  using assms by (simp add: launchable_def kept_def)

lemma co_started_keeps:
  assumes "co_started im l f w w'" "launchable im r p j w" "j < fresh w"
  shows "launchable im r p j w'"
  using assms launchable_kept by (simp add: co_started_def)

lemma posted_started:
  assumes v: "co_inv 0 v" "parked (fresh w) v" "launchable im l f (fresh w) v" "current v = current w"
    "sched v = sched w" "\<forall>j. j \<noteq> fresh w \<longrightarrow> kept j w v \<and> cos v j = cos w j"
  shows "\<exists>w'. co_post (Some (fresh w)) v = Inr w' \<and> co_started im l f w w'"
proof -
  from Post_ok [OF v(1,2)] obtain w' where w': "co_post (Some (fresh w)) v = Inr w'" "co_inv 0 w'"
    "\<forall>j. kept j v w'" "current w' = current v" by auto
  note frame = co_post_frame [OF w'(1)]
  have "launchable im l f (fresh w) w'" using launchable_kept [OF v(3)] w'(3) frame by simp
  moreover have "fresh w < fresh w'"
  proof -
    have "fresh w \<in> dom (cos w')" using v(2) frame by (auto simp: parked_def)
    then obtain c where "cos w' (fresh w) = Some c" by auto
    with w'(2) show ?thesis unfolding co_inv_def by (elim conjE co_baseD)
  qed
  ultimately show ?thesis
    using w' v frame by (auto simp: co_started_def intro: kept_trans)
qed

lemma start_co_ok:
  assumes "co_inv 0 w" "addr + 65536 < size_max"
  shows "\<exists>w'. start_co im addr g launch func w = Inr w' \<and> co_started im launch func w w'"
proof -
  from Create_ok [OF assms(1), of 65536 addr im g launch func] assms(2)
  obtain v where v: "co_create im addr g 65536 launch func w = Inr (fresh w, v)" "co_inv 0 v"
    "\<forall>j. j \<noteq> fresh w \<longrightarrow> kept j w v" "parked (fresh w) v" "launchable im launch func (fresh w) v"
    "current v = current w" by auto
  with posted_started [OF v(2,4,5,6)] co_create_frame [OF v(1)] show ?thesis
    by (simp add: start_co_def co_create_cxx_def)
qed

lemma start_co_shared_ok:
  assumes "co_inv 0 w"
  shows "\<exists>w'. start_co_shared im launch func w = Inr w' \<and> co_started im launch func w w'"
proof -
  from Create_Shared_ok [OF assms(1), of im launch func]
  obtain v where v: "co_create_shared im launch func w = Inr (fresh w, v)" "co_inv 0 v"
    "\<forall>j. j \<noteq> fresh w \<longrightarrow> kept j w v" "parked (fresh w) v" "launchable im launch func (fresh w) v"
    "current v = current w" by auto
  with posted_started [OF v(2,4,5,6)] co_create_shared_frame [OF v(1)] show ?thesis
    by (simp add: start_co_shared_def co_create_cxx_shared_def)
qed

text \<open>The first reschedule runs the head of the queue from \<open>co_launch\<close>.\<close>

lemma first_runs:
  assumes "co_inv 0 w" "current w = Some 0" "sched w = Some (Some a # q)" "launchable im l f a w" "a \<noteq> 0"
  shows "\<exists>w'. poll_step im batch p w = Inr (p, w') \<and> current w' = Some a \<and> RIP (cpu w') = at_co_launch im
    \<and> co_launch w' = Inr (l, f)"
proof -
  from Resched_ok [OF assms(1), of im] obtain w' where w': "co_resched im w = Inr w'" "co_inv 0 w'"
    "\<forall>j. current w \<noteq> Some j \<longrightarrow> kept j w w'" "resumed w'" "current w' = Some a"
    using assms(3) by auto
  have "kept a w w'" using w'(3) assms(2,5) by simp
  then have "saved_registers w a = Some (cpu w')" using w'(4,5) by (simp add: resumed_def kept_def)
  moreover obtain c where c: "cos w a = Some c" "RIP (saved_ctx c) = at_co_launch im" "routine c = l" "param c = f"
    using assms(4) by (auto simp: launchable_def)
  moreover have "co_launch w' = Inr (l, f)"
  proof (rule code_kept_launch)
    show "code_kept w w'" using do_code_kept [of im Resched w w'] w'(1) by simp
    show "a < fresh w" using assms(1) c(1) by (auto simp: co_inv_def elim: co_baseD)
    show "code_of w a = Some (l, f)" using c by (simp add: code_of_def)
    show "current w' = Some a" by (rule w'(5))
    show "a \<in> dom (cos w')" using w'(2,5) by (auto simp: co_inv_def cur_ok_def)
  qed
  ultimately show ?thesis
    using w' assms(3) by (auto simp: poll_step_def co_num_ready_def rr_num_def saved_registers_def)
qed

section \<open>Properties\<close>

text \<open>\<open>server\<close> brings up its three loops: from a fresh library it leaves \<open>read_tap\<close>, \<open>read_udp\<close> and
  \<open>socks5_server\<close> in the ready queue in this order, each about to be launched with its own bound
  arguments, and the first poll resumes \<open>read_tap\<close> at \<open>co_launch\<close>.\<close>

theorem server_starts:
  assumes "addr0 + 1024 * 1024 < size_max" "addr Read_Tap + 65536 < size_max" "addr Read_Udp + 65536 < size_max"
    "addr Socks5_Server + 65536 < size_max" "epollfd \<noteq> -1"
  shows "\<exists>p w a b c. server_start im epollfd addr g launch func (co_init im addr0 g (co_boot ctx)) = Inr (p, w)
    \<and> co_inv 0 w \<and> sched w = Some [Some a, Some b, Some c] \<and> handle_map p = []
    \<and> launchable im (launch Read_Tap) (func Read_Tap) a w \<and> launchable im (launch Read_Udp) (func Read_Udp) b w
    \<and> launchable im (launch Socks5_Server) (func Socks5_Server) c w
    \<and> (\<exists>w'. poll_step im batch p w = Inr (p, w') \<and> current w' = Some a \<and> RIP (cpu w') = at_co_launch im
      \<and> co_launch w' = Inr (launch Read_Tap, func Read_Tap))"
proof -
  let ?w = "co_init im addr0 g (co_boot ctx)"
  have w: "co_inv 0 ?w" by (rule co_init_ok [OF assms(1)])
  have init: "sched ?w = Some []" "current ?w = Some 0" "fresh ?w = 3" by (simp_all add: co_init_boot)
  from start_co_ok [OF w assms(2), of im g "launch Read_Tap" "func Read_Tap"] obtain u where u:
    "start_co im (addr Read_Tap) g (launch Read_Tap) (func Read_Tap) ?w = Inr u" "co_started im (launch Read_Tap) (func Read_Tap) ?w u" by auto
  from u(2) have u': "co_inv 0 u" "launchable im (launch Read_Tap) (func Read_Tap) 3 u" "3 < fresh u" "sched u = Some [Some 3]"
    "current u = Some 0" by (simp_all add: co_started_def init)
  from start_co_ok [OF u'(1) assms(3), of im g "launch Read_Udp" "func Read_Udp"] obtain v where v:
    "start_co im (addr Read_Udp) g (launch Read_Udp) (func Read_Udp) u = Inr v" "co_started im (launch Read_Udp) (func Read_Udp) u v" by auto
  from v(2) have v': "co_inv 0 v" "launchable im (launch Read_Udp) (func Read_Udp) (fresh u) v" "fresh u < fresh v"
    "sched v = Some [Some 3, Some (fresh u)]" "current v = Some 0" by (simp_all add: co_started_def u')
  from start_co_ok [OF v'(1) assms(4), of im g "launch Socks5_Server" "func Socks5_Server"] obtain x where x:
    "start_co im (addr Socks5_Server) g (launch Socks5_Server) (func Socks5_Server) v = Inr x" "co_started im (launch Socks5_Server) (func Socks5_Server) v x" by auto
  from x(2) have x': "co_inv 0 x" "launchable im (launch Socks5_Server) (func Socks5_Server) (fresh v) x"
    "sched x = Some [Some 3, Some (fresh u), Some (fresh v)]" "current x = Some 0"
    by (simp_all add: co_started_def v')
  have ab: "launchable im (launch Read_Tap) (func Read_Tap) 3 x" "launchable im (launch Read_Udp) (func Read_Udp) (fresh u) x"
    using co_started_keeps [OF v(2) u'(2,3)] co_started_keeps [OF x(2)] v'(2,3) u'(3) by simp_all
  then show ?thesis
    using u v x x' assms(5) first_runs [OF x'(1,4,3) ab(1), of batch]
    by (auto simp: server_start_def pool_new_def)
qed

fun demo_func :: "loop_routine \<Rightarrow> u64" where
  "demo_func Read_Tap = 1"
| "demo_func Read_Udp = 2"
| "demo_func Socks5_Server = 3"

theorem server_starts_witness:
  "\<exists>p w a b c. server_start demo_image 3 (\<lambda>_. 4194304) (\<lambda>_. 0) (\<lambda>_. 16) demo_func
      (co_init demo_image 65536 (\<lambda>_. 0) (co_boot zero_ctx)) = Inr (p, w)
    \<and> sched w = Some [Some a, Some b, Some c]
    \<and> (\<exists>w'. poll_step demo_image [] p w = Inr (p, w') \<and> current w' = Some a)"
proof -
  have "epoll \<noteq> -1 \<Longrightarrow> epoll = 3 \<Longrightarrow> ?thesis" for epoll :: int
    using server_starts [of 65536 "\<lambda>_. 4194304" epoll demo_image "\<lambda>_. 0" "\<lambda>_. 16" demo_func zero_ctx "[]"]
    by simp metis
  then show ?thesis by simp
qed

text \<open>\<open>client\<close> registers the tap and the UDP socket under their descriptors, sets up the key and the
  server's address, and leaves its two loops in the ready queue on the shared stack.\<close>

theorem client_starts:
  assumes "addr0 + 1024 * 1024 < size_max" "epollfd \<noteq> -1" "ctl 0 \<noteq> -1" "ctl 1 \<noteq> -1" "tapfd \<noteq> sock"
    and "0 \<le> ret" "length info \<le> 128"
  shows "\<exists>env p w a b. client_start im epollfd (Inr tapfd) sock ctl g len ret info launch func conf
      (co_init im addr0 g (co_boot ctx)) = Inr (env, p, w)
    \<and> co_inv 0 w \<and> sched w = Some [Some a, Some b]
    \<and> launchable im (launch Read_Tap) (func Read_Tap) a w \<and> launchable im (launch Read_Udp) (func Read_Udp) b w
    \<and> map_find fd_less tapfd (handle_map p) = Some 0 \<and> map_find fd_less sock (handle_map p) = Some 1
    \<and> map_option ev_fd (ev_objs p 0) = Some tapfd \<and> map_option ev_fd (ev_objs p 1) = Some sock
    \<and> aes_key (env_aes env) = AES_key (map of_char (conf_key conf)) \<and> aes_wf (env_aes env)
    \<and> addr_key (env_addr env) = (length info, info)"
proof -
  let ?w = "co_init im addr0 g (co_boot ctx)"
  have w: "co_inv 0 ?w" by (rule co_init_ok [OF assms(1)])
  have init: "sched ?w = Some []" "current ?w = Some 0" "fresh ?w = 3" by (simp_all add: co_init_boot)
  from start_co_shared_ok [OF w, of im "launch Read_Tap" "func Read_Tap"] obtain u where u:
    "start_co_shared im (launch Read_Tap) (func Read_Tap) ?w = Inr u" "co_started im (launch Read_Tap) (func Read_Tap) ?w u" by auto
  from u(2) have u': "co_inv 0 u" "launchable im (launch Read_Tap) (func Read_Tap) 3 u" "3 < fresh u" "sched u = Some [Some 3]"
    by (simp_all add: co_started_def init)
  from start_co_shared_ok [OF u'(1), of im "launch Read_Udp" "func Read_Udp"] obtain v where v:
    "start_co_shared im (launch Read_Udp) (func Read_Udp) u = Inr v" "co_started im (launch Read_Udp) (func Read_Udp) u v" by auto
  from v(2) have v': "co_inv 0 v" "launchable im (launch Read_Udp) (func Read_Udp) (fresh u) v"
    "sched v = Some [Some 3, Some (fresh u)]" by (simp_all add: co_started_def u')
  have "launchable im (launch Read_Tap) (func Read_Tap) 3 v" by (rule co_started_keeps [OF v(2) u'(2,3)])
  then show ?thesis
    using u v v' assms(2-)
    by (simp add: client_start_def pool_new_def async_event_create_def add_event_def address_resolve_def
        address_host_port_def mem_simps Let_def fd_less_def same_key_def addr_key_def aes_new_def aes_wf_def
        async_event_new_def AES_key_def key_fill_append)
qed

definition demo_conf :: ether_bridge_conf where
  "demo_conf = \<lparr>conf_mode = CLIENT, conf_key = ''key'', conf_tap_device = ''tap0'',
     conf_remote_addr = ''10.0.0.1'', conf_remote_port = 1, conf_bind_addr = [], conf_bind_port = 0\<rparr>"

theorem client_starts_witness:
  "\<exists>env p w a b. client_start demo_image 3 (Inr 4) 5 (\<lambda>_. 0) (\<lambda>_. 0) 0 0 [2, 0] (\<lambda>_. 16) demo_func demo_conf
      (co_init demo_image 65536 (\<lambda>_. 0) (co_boot zero_ctx)) = Inr (env, p, w)
    \<and> co_inv 0 w \<and> sched w = Some [Some a, Some b]
    \<and> launchable demo_image 16 (demo_func Read_Tap) a w \<and> launchable demo_image 16 (demo_func Read_Udp) b w
    \<and> map_find fd_less 4 (handle_map p) = Some 0 \<and> map_find fd_less 5 (handle_map p) = Some 1
    \<and> map_option ev_fd (ev_objs p 0) = Some 4 \<and> map_option ev_fd (ev_objs p 1) = Some 5
    \<and> aes_key (env_aes env) = AES_key (map of_char (conf_key demo_conf)) \<and> aes_wf (env_aes env)
    \<and> addr_key (env_addr env) = (length [2, 0 :: u8], [2, 0])"
  by (rule client_starts [where launch = "\<lambda>_. 16"]) simp_all

lemma and_then_returns: "(\<exists>y. and_then r k = Inr y) \<longleftrightarrow> (\<exists>x. r = Inr x \<and> (\<exists>y. k x = Inr y))"
  by (cases r) auto

lemma if_returns: "(\<exists>y. (if c then a else b) = Inr y) = (if c then \<exists>y. a = Inr y else \<exists>y. b = Inr y)"
  by simp

text \<open>Which look-ups the configuration needs: mode, key and device always, then the address and port
  to bind for the mode \<open>server\<close>, and the remote address and port for every other word.\<close>

theorem conf_needs:
  "(\<exists>conf. ether_bridge_conf_new rport bport node = Inr conf) \<longleftrightarrow>
   (\<exists>mode key dev. as_string node ''mode'' = Inr mode \<and> as_string node ''key'' = Inr key
     \<and> as_string node ''tap_dev'' = Inr dev
     \<and> (if mode = ''server''
        then (\<exists>a p. as_string node ''bind_addr'' = Inr a \<and> as_uint16 node ''bind_port'' = Inr p)
        else (\<exists>a p. as_string node ''remote_addr'' = Inr a \<and> as_uint16 node ''remote_port'' = Inr p)))"
  by (simp add: ether_bridge_conf_new_def Let_def and_then_returns if_returns cong: if_cong)

lemma strncpy_zero:
  assumes "n \<le> N"
  shows "strncpy (replicate N 0) src n =
    Inr (take n (takeWhile (\<lambda>c. c \<noteq> 0) src) @ replicate (N - min n (length (takeWhile (\<lambda>c. c \<noteq> 0) src))) 0)"
proof -
  let ?s = "takeWhile (\<lambda>c. c \<noteq> 0) src"
  have "take n (?s @ replicate n 0) = take n ?s @ replicate (n - length ?s) 0" by simp
  moreover have "replicate (n - length ?s) (0 :: u8) @ replicate (N - n) 0 = replicate (N - min n (length ?s)) 0"
    using assms by (simp flip: replicate_add add: min_def)
  ultimately show ?thesis using assms by (simp add: strncpy_def mem_simps min_def)
qed

lemma c_string_replicate:
  "\<forall>x \<in> set xs. x \<noteq> 0 \<Longrightarrow> takeWhile (\<lambda>c. c \<noteq> 0) (xs @ replicate n (0 :: u8)) = xs"
  by (cases n) simp_all

text \<open>The device name. A tap asks for the first 15 bytes of its name and always ends them with a
  zero; it is refused, with the descriptor closed again, exactly when \<open>open\<close> or \<open>ioctl\<close> fails. A tun
  leaves the name without a terminator when it has 16 bytes or more.\<close>

theorem tap_device_name:
  fixes name :: block
  defines "s \<equiv> takeWhile (\<lambda>c. c \<noteq> 0) name"
  shows "(\<exists>ifr. tap_request name = Inr ifr \<and> length (ifr_name ifr) = 16
      \<and> takeWhile (\<lambda>c. c \<noteq> 0) (ifr_name ifr) = take 15 s \<and> 0 \<in> set (ifr_name ifr)
      \<and> tap_new fd ioctl name fds =
          (if fd < 0 then (fds, Inl (Runtime_Error ''unable to open /dev/net/tun''))
           else if ioctl fd ifr < 0 then (fds, Inl (Runtime_Error ''ioctl failed''))
           else (fd # fds, Inr fd)))
    \<and> (\<exists>ifr. tun_request name = Inr ifr \<and> (0 \<in> set (ifr_name ifr) \<longleftrightarrow> length s < 16))"
proof -
  have nz: "\<forall>x \<in> set (take n s). x \<noteq> 0" for n
    unfolding s_def by (auto dest: in_set_takeD set_takeWhileD)
  have z: "0 \<in> set (take n s @ replicate k 0) \<longleftrightarrow> 0 < k" for n k using nz by (auto simp: in_set_replicate)
  have "tap_request name = Inr \<lparr>ifr_name = take 15 s @ replicate (16 - min 15 (length s)) 0, ifr_flags = 0x1002\<rparr>"
    by (simp add: tap_request_def strncpy_zero s_def)
  moreover have "tun_request name = Inr \<lparr>ifr_name = take 16 s @ replicate (16 - min 16 (length s)) 0, ifr_flags = 0x1001\<rparr>"
    by (simp add: tun_request_def strncpy_zero s_def)
  ultimately show ?thesis
    using c_string_replicate [OF nz] z
    by (auto simp: tap_new_def device_new_def tuntap_new_def tuntap_delete_def)
qed

text \<open>Both ends set up the same key from the same configured string.\<close>

lemma server_udp_setup_key:
  assumes "ctl \<noteq> -1" "0 \<le> ret" "length info \<le> 128"
  shows "\<exists>p' a. server_udp_setup ctl sfd k g len ret info bound conf p = Inr (p', a) \<and> aes_wf a
    \<and> aes_key a = AES_key (map of_char (conf_key conf))"
  using assms
  by (simp add: server_udp_setup_def async_event_create_def add_event_def address_resolve_def
      address_host_port_def mem_simps udp_bind_def aes_new_def aes_wf_def AES_key_def key_fill_append)

text \<open>Every accepted connection gets a coroutine of its own behind the ready ones.\<close>

lemma socks5_accept_spawns:
  assumes "co_inv 0 w" "addr + 65536 < size_max" "ctl \<noteq> -1"
  shows "\<exists>p' w'. socks5_accept im ctl sfd k k' junk fd addr g launch func p w = Inr (p', w')
    \<and> co_started im launch func w w'"
proof -
  obtain p' where "accept_socket ctl sfd k k' junk fd p = Inr p'"
    using assms(3) by (auto simp: accept_socket_def async_event_create_def add_event_def Let_def)
  then show ?thesis
    using start_co_ok [OF assms(1,2), of im g launch func] by (auto simp: socks5_accept_def)
qed

text \<open>Without exactly one argument \<open>main\<close> never reads a configuration.\<close>

lemma main_without_file:
  "argc \<noteq> 2 \<Longrightarrow> main_start im addr g argc tap1 load arg rport bport w \<noteq> Inr (Some x)"
  by (simp add: main_start_def and_then_Inr_iff)

end
