(* ===== verification/Io_Wakeup.thy ===== *)
theory Io_Wakeup
  imports Poll_Loop
begin

text \<open>
  One asynchronous wait from end to end: a coroutine registers itself with its descriptor's object and
  yields (\<open>async_read_some\<close> and the other operations of \<open>epoll.hpp\<close>), the others and the main coroutine
  run, an event of the descriptor arrives, \<open>poll_forever\<close> posts the coroutine, and the round of the
  ready coroutines brings it back where it was.
\<close>

section \<open>What a step leaves to the coroutines that do not run\<close>

text \<open>A coroutine that stands in the queue stays there, and as it is, until its turn comes.\<close>

lemma turns_queue:
  assumes "co_turns im m u v n ps" "co_inv m u" "l = current u # the (sched u)" "k < length l" "l ! k = Some j"
  shows "n < k \<Longrightarrow> current v \<noteq> Some j \<and> j \<in> dom (cos v)" "n = k \<Longrightarrow> current v = Some j"
proof -
  from co_turns_pops [OF assms(1,2)] assms(3) have v: "co_inv m v" "current v # the (sched v) = drop n (l @ ps)" by simp_all
  then obtain q where q: "sched v = Some q" "distinct (current v # q)" "set q \<subseteq> Some ` dom (cos v)"
    by (auto simp: co_inv_def queue_ok_def)
  have at: "(current v # q) ! (k - n) = Some j" if "n \<le> k"
    using v(2) q(1) that assms(4,5) by (simp add: nth_append diff_less_mono)
  show "current v = Some j" if "n = k" using at that by simp
  have "length (current v # q) = length (l @ ps) - n" using arg_cong [OF v(2), of length] q(1) by simp
  then have "k - n - 1 < length q" if "n < k" using that assms(4) by simp
  then have "Some j \<in> set q" if "n < k" using at that by (metis Suc_diff_Suc diff_Suc_1 less_imp_le nth_Cons_Suc nth_mem diff_Suc_eq_diff_pred One_nat_def)
  then show "current v \<noteq> Some j \<and> j \<in> dom (cos v)" if "n < k" using that q by auto
qed

lemma turns_kept:
  assumes "co_turns im m u v n ps" "co_inv m u" "l = current u # the (sched u)" "k < length l" "l ! k = Some j" "n < k"
  shows "co_inv m v \<and> kept j u v"
  using assms
proof (induction rule: co_turns.induct)
  case (turns_step u v n ps a w)
  have n: "n < k" using turns_step.prems(5) by (simp split: if_splits)
  then have v: "co_inv m v" "kept j u v" using turns_step by auto
  have w: "co_turns im m u w (if ends_turn a then Suc n else n) (ps @ posted_by a v)"
    using turns_step.hyps by (rule co_turns.turns_step)
  note at = turns_queue(1) [OF turns_step.hyps(1) turns_step.prems(1-4) n]
    turns_queue(1) [OF w turns_step.prems(1-5)]
  from co_do_ok [OF v(1) turns_step.hyps(3), of im] turns_step.hyps(4) at have "co_inv m w" "kept j v w" by auto
  with v(2) show ?case by (auto intro: kept_trans)
qed simp

text \<open>Where a coroutine that is resumed goes on.\<close>

lemma resumed_where:
  assumes "co_inv m x" "resumed x" "current x = Some i" "kept i u x" "saved_registers u i = Some c"
  shows "cpu x = c \<and> live_stack x = stack_image u i"
proof -
  have "cur_ok x" using assms(1) by (simp add: co_inv_def)
  from live_resumed [OF this assms(2,3)] assms(2-5) show ?thesis by (simp add: resumed_def kept_def)
qed

text \<open>The end of the \<open>n\<close>-th turn, before the coroutine whose turn it is has run.\<close>

inductive co_arrive :: "image \<Rightarrow> nat \<Rightarrow> world \<Rightarrow> world \<Rightarrow> nat \<Rightarrow> bool" for im m where
  arrive_first: "co_arrive im m u u 0"
| arrive_next: "co_turns im m u v n ps \<Longrightarrow> current v \<noteq> Some m \<Longrightarrow> ends_turn a \<Longrightarrow> co_allowed m a v \<Longrightarrow>
    co_do im a v = Inr w \<Longrightarrow> co_arrive im m u w (Suc n)"

lemma arrive_kept:
  assumes "co_arrive im m u x n" "co_inv m u" "resumed u"
    and "n < length (current u # the (sched u))" "(current u # the (sched u)) ! n = Some j"
  shows "co_inv m x \<and> kept j u x \<and> current x = Some j \<and> resumed x"
  using assms(1)
proof cases
  case arrive_first
  with assms show ?thesis by simp
next
  case (arrive_next v k ps a)
  have n: "k < n" using arrive_next(1) by simp
  have x: "co_turns im m u x n (ps @ posted_by a v)"
    using co_turns.turns_step [OF arrive_next(2,3,5,6)] arrive_next(1,4) by simp
  note v = turns_kept [OF arrive_next(2) assms(2) refl assms(4,5) n]
    turns_queue(1) [OF arrive_next(2) assms(2) refl assms(4,5) n]
  have cur: "current x = Some j" by (rule turns_queue(2) [OF x assms(2) refl assms(4,5) refl])
  from co_do_ok [OF _ arrive_next(5), of im] arrive_next(6) v cur have w: "co_inv m x" "resumed x"
    "j \<in> dom (cos x) \<longrightarrow> kept j v x" by auto
  then have "j \<in> dom (cos x)" using cur by (auto simp: co_inv_def cur_ok_def)
  with w v cur show ?thesis by (auto intro: kept_trans)
qed

lemma waits_is_waiter:
  assumes "bit (ev_waited ev) 0 \<and> co_read ev = Some i \<or> bit (ev_waited ev) 1 \<and> co_write ev = Some i"
  shows "Some i \<in> set (waiters ev)"
  using assms by (auto simp: waiters_def)

section \<open>Properties\<close>

text \<open>C7: a wait ends where it began. A coroutine that registered itself for reading or writing and
  yielded, and was left alone by the others, is woken by the next batch with an event of its
  descriptor: the poll posts it, the next poll starts the round of the woken coroutines, and when its
  turn comes it runs with exactly the registers of its \<open>co_yield\<close> and the bytes of its stack.\<close>

theorem io_wait_resumes:
  assumes "co_inv m w" "current w = Some i" "i \<noteq> m" "co_yield im w = Inr (c, u)"
    and "co_away im m i u v" "current v = Some m" "sched v = Some []"
    and "live p" "map_find fd_less fd (handle_map p) = Some k" "ev_objs p k = Some ev"
    and "bit (ev_waited ev) 0 \<and> co_read ev = c \<or> bit (ev_waited ev) 1 \<and> co_write ev = c"
    and "(fd, events) \<in> set batch" "distinct (map fst batch)"
    and "ps = concat (map (waiters_of p \<circ> fst) batch)" "distinct ps" "\<forall>x \<in> set ps. \<exists>j. x = Some j \<and> parked j v"
  shows "\<exists>p1 v1 u1 n. poll_step im batch p v = Inr (p1, v1) \<and> poll_step im batch' p1 v1 = Inr (p1, u1)
    \<and> n < length ps \<and> (\<forall>x. co_arrive im m u1 x n \<longrightarrow>
        current x = Some i \<and> cpu x = (cpu w)\<lparr>RIP := at_retaddr im\<rparr> \<and> live_stack x = live_stack w)"
proof -
  from Yield_ok [OF assms(1-3), of im] assms(4) have u: "c = Some i" "co_inv m u"
    "stack_image u i = live_stack w" "saved_registers u i = Some ((cpu w)\<lparr>RIP := at_retaddr im\<rparr>)"
    by auto
  from co_away_kept [OF assms(5) u(2)] have v: "co_inv m v" "kept i u v" by auto
  have "Some i \<in> set (waiters_of p fd)"
    using waits_is_waiter assms(9-11) u(1) by (simp add: waiters_of_def)
  then have "Some i \<in> set ps" using assms(12,14) by force
  then obtain n where n: "n < length ps" "ps ! n = Some i" by (auto simp: in_set_conv_nth)
  from co_posts_ok [OF v(1) assms(15,16)] assms(7) obtain v1 where v1: "co_posts ps v = Inr v1" "co_inv m v1"
    "sched v1 = Some ps" "current v1 = Some m" "\<forall>j. kept j v v1" using assms(6) by auto
  from poll_batch_posts [OF assms(8,13), of v] obtain p1 where p1: "poll_step im batch p v = Inr (p1, v1)"
    using v1(1) assms(7,14) by (auto simp: poll_step_def co_num_ready_def rr_num_def)
  from Resched_ok [OF v1(2), of im] obtain u1 where u1: "co_resched im v1 = Inr u1" "co_inv m u1"
    "\<forall>j. current v1 \<noteq> Some j \<longrightarrow> kept j v1 u1" "resumed u1" "current u1 # the (sched u1) = ps @ [Some m]"
    using v1(3,4) by auto
  have step: "poll_step im batch' p1 v1 = Inr (p1, u1)"
    using u1(1) v1(3) n(1) by (cases ps) (auto simp: poll_step_def co_num_ready_def rr_num_def)
  have "kept i v v1" "kept i v1 u1" using v1(4,5) u1(3) assms(3) by auto
  then have k: "kept i u u1" using v(2) kept_trans by blast
  have l: "n < length (current u1 # the (sched u1))" "(current u1 # the (sched u1)) ! n = Some i"
    using n by (simp_all add: u1(5) nth_append)
  have "current x = Some i \<and> cpu x = (cpu w)\<lparr>RIP := at_retaddr im\<rparr> \<and> live_stack x = live_stack w"
    if "co_arrive im m u1 x n" for x
  proof -
    from arrive_kept [OF that u1(2,4) l] have x: "co_inv m x" "kept i u1 x" "current x = Some i" "resumed x" by auto
    from resumed_where [OF x(1,4,3) kept_trans [OF k x(2)] u(4)] x(3) u(3) show ?thesis by simp
  qed
  with p1 step n(1) show ?thesis by blast
qed

lemma demo_both_wait:
  "(case co_script demo_image [Yield, Yield] demo_world of Inl _ \<Rightarrow> False
    | Inr w \<Rightarrow> current w = Some 0 \<and> sched w = Some [])"
  by code_simp

theorem io_wait_resumes_witness:
  "\<exists>u v p1 v1 u1. co_yield demo_image demo_world = Inr (Some 1, u) \<and> co_do demo_image Yield u = Inr v
    \<and> poll_step demo_image [(5, 1)] demo_pool v = Inr (p1, v1) \<and> poll_step demo_image [] p1 v1 = Inr (p1, u1)
    \<and> current u1 = Some 1 \<and> cpu u1 = (cpu demo_world)\<lparr>RIP := at_retaddr demo_image\<rparr>
    \<and> live_stack u1 = live_stack demo_world"
proof -
  have cur: "current demo_world = Some 1" by (simp add: demo_world_def)
  from Yield_ok [OF demo_inv cur, of demo_image] obtain u where
    u: "co_yield demo_image demo_world = Inr (Some 1, u)" "co_inv 0 u" "parked 1 u" by auto
  have cu: "current u = Some 2" using demo_script u(1) by (simp add: eval_nat_numeral)
  from Yield_ok [OF u(2) cu, of demo_image] obtain v where v: "co_do demo_image Yield u = Inr v"
    "kept 1 u v" using cu by auto
  have cv: "current v = Some 0" "sched v = Some []" using demo_both_wait u(1) v(1) by auto
  have d: "1 \<in> dom (cos u)" "1 \<in> dom (cos v)" using u(3) v(2) kept_dom by (auto simp: parked_def)
  have "co_away demo_image 0 1 u u" by (rule away_start) (use cu d in simp_all)
  then have away: "co_away demo_image 0 1 u v"
    by (rule away_step [where a = Yield]) (use cu v(1) cv d in simp_all)
  have pool: "live demo_pool" unfolding live_def demo_waiters by (auto simp: demo_pool_def)
  have obj: "ev_objs demo_pool 0 = Some (begin_wait_read 1 (async_event_new 5))" by (simp add: demo_pool_def)
  have "parked 1 v" using cv d by (simp add: parked_def queued_def)
  then have "\<exists>p1 v1 u1 n. poll_step demo_image [(5, 1)] demo_pool v = Inr (p1, v1)
      \<and> poll_step demo_image [] p1 v1 = Inr (p1, u1) \<and> n < length [Some (1 :: nat)]
      \<and> (\<forall>x. co_arrive demo_image 0 u1 x n \<longrightarrow> current x = Some 1
          \<and> cpu x = (cpu demo_world)\<lparr>RIP := at_retaddr demo_image\<rparr> \<and> live_stack x = live_stack demo_world)"
    by (intro io_wait_resumes [OF demo_inv cur _ u(1) away cv pool, where fd = 5 and events = 1 and k = 0
          and ev = "begin_wait_read 1 (async_event_new 5)"])
      (simp_all add: demo_waiters obj, simp add: begin_wait_read_def async_event_new_def bit_simps)
  with u(1) v(1) show ?thesis by (auto intro: arrive_first)
qed

end
