(* ===== verification/Socks5_Pipe.thy ===== *)
theory Socks5_Pipe
  imports Bridge_Main
begin

text \<open>
  The two piping loops that end \<open>socks5_handler\<close> (\<open>bridge/ether_bridge_server.cpp\<close>), one in a coroutine of
  its own from the remote socket to the client's, one from the client's to the remote. Both are
  \<open>pipe_loop\<close> over the asynchronous operations of the two objects; the kernel's answers to the reads and
  the writes are lists. The result is what was handed to the kernel, and where the loop stands: waiting
  for bytes, in the middle of a write, or past its \<open>break\<close>.
\<close>

abbreviation (input) PIPE_BUFFER :: nat where "PIPE_BUFFER \<equiv> 4096"

datatype pipe_state = Pipe_Reading | Pipe_Writing | Pipe_Done

lemma read_some_shorter:
  "async_read_some i as buf count ev = Inr (Some (ret, buf', ev', as')) \<Longrightarrow> length as' < length as"
  by (induction i as buf count ev rule: async_read_some.induct)
    (auto simp: and_then_Inr_iff Let_def intro: less_SucI split: if_splits)

function pipe_loop ::
    "nat \<Rightarrow> (nat \<Rightarrow> nat \<Rightarrow> u8) \<Rightarrow> block answer list \<Rightarrow> nat answer list \<Rightarrow> block \<Rightarrow>
     async_file_event \<Rightarrow> async_file_event \<Rightarrow> (block \<times> pipe_state) outcome" where
  "pipe_loop i g reads writes sent src dst =
     (case async_read_some i reads (new_array (g (length reads)) PIPE_BUFFER) PIPE_BUFFER src of
        Inl e \<Rightarrow> Inl e
      | Inr None \<Rightarrow> Inr (sent, Pipe_Reading)
      | Inr (Some (ret, buf, src', reads')) \<Rightarrow>
          let r = size_of_int ret
          in if 0 < r then
               (case async_write i writes buf r 0 [] dst of
                  Inl e \<Rightarrow> Inl e
                | Inr None \<Rightarrow> Inr (sent, Pipe_Writing)
                | Inr (Some (_, out, dst', writes')) \<Rightarrow>
                    pipe_loop i g reads' writes' (sent @ out) src' dst')
             else Inr (sent, Pipe_Done))"
  by pat_completeness auto
termination
  by (relation "measure (\<lambda>(i, g, reads, _). length reads)") (auto dest: read_some_shorter)

declare pipe_loop.simps [simp del]

text \<open>After the reply: the coroutine for one direction, and the handler's own loop for the other.\<close>

definition socks5_piping ::
    "image \<Rightarrow> nat \<Rightarrow> (nat \<Rightarrow> u8) \<Rightarrow> u64 \<Rightarrow> u64 \<Rightarrow> nat \<Rightarrow> (nat \<Rightarrow> nat \<Rightarrow> u8) \<Rightarrow> block answer list \<Rightarrow> nat answer list \<Rightarrow>
     async_file_event \<Rightarrow> async_file_event \<Rightarrow> world \<Rightarrow> (world \<times> block \<times> pipe_state) outcome" where
  "socks5_piping im addr gs launch func i g reads writes sock rsock w =
     and_then (start_co im addr gs launch func w) (\<lambda>w.
     and_then (pipe_loop i g reads writes [] sock rsock) (\<lambda>r. Inr (w, r)))"

section \<open>What one write takes\<close>

text \<open>The answers left after \<open>n\<close> bytes were taken, \<open>None\<close> when they run out before.\<close>

fun write_rest :: "nat \<Rightarrow> nat answer list \<Rightarrow> nat answer list option" where
  "write_rest n [] = None"
| "write_rest n (Done k # as) = (if k = n then Some as else write_rest (n - k) as)"
| "write_rest n (Try_Again # as) = write_rest n as"
| "write_rest n (Failed # as) = None"

text \<open>The kernel's contract over a sequence of writes of the sizes \<open>ns\<close>: no call takes more than it
  was offered, and none fails.\<close>

fun writes_ok :: "nat list \<Rightarrow> nat answer list \<Rightarrow> bool" where
  "writes_ok [] as = True"
| "writes_ok (n # ns) as =
     (write_ok n as \<and> Failed \<notin> set as \<and> (case write_rest n as of None \<Rightarrow> True | Some rest \<Rightarrow> writes_ok ns rest))"

lemma write_all:
  assumes "write_ok (count - offset) as" "Failed \<notin> set as" "offset < count" "count \<le> length buf" "write_idle ev"
  shows "async_write i as buf count offset sent ev =
    Inr (map_option (\<lambda>rest. (to_int32 count, sent @ drop offset (take count buf), ev, rest))
      (write_rest (count - offset) as))"
  using assms
proof (induction i as buf count offset sent ev rule: async_write.induct)
  case (2 i n as buf count offset sent ev)
  have le: "offset + n \<le> count" using "2.prems"(1,3) by (auto split: if_splits)
  with "2.prems"(4) have ld: "mem_load buf offset n = Inr (take n (drop offset buf))" by (simp add: mem_simps)
  show ?case
  proof (cases "offset + n = count")
    case True
    with ld show ?thesis by (auto simp: drop_take)
  next
    case False
    with le have "n \<noteq> count - offset" by simp
    have "async_write i as buf count (offset + n) (sent @ take n (drop offset buf)) ev =
      Inr (map_option (\<lambda>rest. (to_int32 count, (sent @ take n (drop offset buf)) @ drop (offset + n) (take count buf), ev, rest))
        (write_rest (count - (offset + n)) as))"
      using "2.prems" False le by (intro "2.IH") (auto split: if_splits)
    moreover have "take n (drop offset buf) @ drop (offset + n) (take count buf) = drop offset (take count buf)"
      using le by (rule take_then_drop)
    ultimately show ?thesis using False ld \<open>n \<noteq> count - offset\<close> by (simp add: Let_def)
  qed
next
  case (3 i as buf count offset sent ev)
  then show ?case by (auto simp: wait_simps)
qed auto

section \<open>The bytes of a connection\<close>

text \<open>The pieces a healthy connection delivers, none larger than the buffer.\<close>

definition reads_ok :: "block answer list \<Rightarrow> bool" where
  "reads_ok as \<longleftrightarrow> (\<forall>a \<in> set as. case a of Done bs \<Rightarrow> length bs \<le> PIPE_BUFFER | Try_Again \<Rightarrow> True | Failed \<Rightarrow> False)"

fun pieces :: "block answer list \<Rightarrow> block list" where
  "pieces [] = []"
| "pieces (Done bs # as) = (if bs = [] then pieces as else bs # pieces as)"
| "pieces (a # as) = pieces as"

lemma reads_ok_simps [simp]:
  "reads_ok []" "reads_ok (Done bs # as) \<longleftrightarrow> length bs \<le> PIPE_BUFFER \<and> reads_ok as"
  "reads_ok (Try_Again # as) = reads_ok as" "\<not> reads_ok (Failed # as)"
  by (auto simp: reads_ok_def)

lemma read_some_piece:
  assumes "reads_ok as" "read_idle ev" "length buf = PIPE_BUFFER"
  shows "(pieces as = [] \<and> async_read_some i as buf PIPE_BUFFER ev = Inr None) \<or>
    (\<exists>bs ps rest. pieces as = bs # ps \<and> bs \<noteq> [] \<and> length bs \<le> PIPE_BUFFER \<and> pieces rest = ps \<and> reads_ok rest
      \<and> async_read_some i as buf PIPE_BUFFER ev =
          Inr (Some (int (length bs), bs @ drop (length bs) buf, ev, rest)))"
  using assms
proof (induction as)
  case (Cons a as)
  show ?case
  proof (cases a)
    case (Done bs)
    with Cons show ?thesis by (cases "bs = []") (auto simp: mem_simps)
  next
    case Try_Again
    with Cons show ?thesis by (simp add: wait_simps)
  next
    case Failed
    with Cons.prems show ?thesis by simp
  qed
qed simp

lemma read_some_nonzero:
  "async_read_some i as buf count ev = Inr (Some (ret, buf', ev', as')) \<Longrightarrow> length buf < 2 ^ 31 \<Longrightarrow>
   0 < size_of_int ret"
proof (induction i as buf count ev rule: async_read_some.induct)
  case (2 i bs as buf count ev)
  from "2.prems" obtain m where m: "mem_store buf 0 bs = Inr m" by (auto simp: and_then_Inr_iff)
  have len: "length m = length buf" by (rule mem_store_length [OF m])
  have le: "length bs < 2 ^ 31" using m "2.prems"(2) by (simp add: mem_store_def split: if_splits)
  show ?case
  proof (cases "bs = []")
    case True
    with "2.IH" [of m] "2.prems" m len show ?thesis by simp
  next
    case False
    with "2.prems"(1) m have "ret = to_int32 (length bs)" by simp
    with False le show ?thesis by simp
  qed
next
  case (4 i as buf count ev)
  then show ?case by (auto simp: size_of_int_def)
qed auto

section \<open>Properties\<close>

text \<open>C17: a pipe copies its stream: while neither connection fails, the bytes handed to the kernel are a
  prefix of those read, whole pieces in order, nothing lost, doubled or exchanged, however reads and
  writes are cut up and however often they wait; and all of them are handed on when the loop waits
  for more.\<close>

theorem pipe_relays:
  assumes "reads_ok reads" "writes_ok (map length (pieces reads)) writes" "read_idle src" "write_idle dst"
  shows "\<exists>n st. pipe_loop i g reads writes sent src dst = Inr (sent @ concat (take n (pieces reads)), st)
    \<and> (if st = Pipe_Reading then n = length (pieces reads) else st = Pipe_Writing \<and> n < length (pieces reads))"
  using assms(1,2)
proof (induction "pieces reads" arbitrary: reads writes sent)
  case Nil
  let ?buf = "new_array (g (length reads)) PIPE_BUFFER"
  have "async_read_some i reads ?buf PIPE_BUFFER src = Inr None"
    using read_some_piece [OF Nil.prems(1) assms(3), of ?buf] Nil.hyps by auto
  then show ?case using Nil.hyps by (subst pipe_loop.simps) auto
next
  case (Cons bs ps)
  let ?buf = "new_array (g (length reads)) PIPE_BUFFER"
  have "length ?buf = PIPE_BUFFER" by simp
  from read_some_piece [OF Cons.prems(1) assms(3) this, of i] Cons.hyps(2) obtain rest where
    r: "bs \<noteq> []" "length bs \<le> PIPE_BUFFER" "pieces rest = ps" "reads_ok rest"
      "async_read_some i reads ?buf PIPE_BUFFER src = Inr (Some (int (length bs), bs @ drop (length bs) ?buf, src, rest))"
    by auto
  have w: "write_ok (length bs) writes" "Failed \<notin> set writes"
    "case write_rest (length bs) writes of None \<Rightarrow> True | Some ws \<Rightarrow> writes_ok (map length ps) ws"
    using Cons.prems(2) Cons.hyps(2) [symmetric] by simp_all
  have out: "async_write i writes (bs @ drop (length bs) ?buf) (length bs) 0 [] dst =
      Inr (map_option (\<lambda>ws. (to_int32 (length bs), bs, dst, ws)) (write_rest (length bs) writes))"
    using write_all [of "length bs" 0 writes "bs @ drop (length bs) ?buf" dst i "[]"] w r(1,2) assms(4) by simp
  have size: "size_of_int (int (length bs)) = length bs" using r(2) by simp
  show ?case
  proof (cases "write_rest (length bs) writes")
    case None
    then show ?thesis using r out size Cons.hyps(2) [symmetric]
      by (subst pipe_loop.simps) (auto intro: exI [of _ 0])
  next
    case (Some ws)
    with w(3) r(3) have "writes_ok (map length (pieces rest)) ws" by simp
    note ih = Cons.hyps(1) [OF r(3) [symmetric] r(4) this, of "sent @ bs", unfolded r(3)]
    then obtain n st where
      ih: "pipe_loop i g rest ws (sent @ bs) src dst = Inr ((sent @ bs) @ concat (take n ps), st)"
        "if st = Pipe_Reading then n = length ps else st = Pipe_Writing \<and> n < length ps"
      by blast
    have "pipe_loop i g reads writes sent src dst = pipe_loop i g rest ws (sent @ bs) src dst"
      using r out size Some by (subst pipe_loop.simps) simp
    with ih Cons.hyps(2) [symmetric] show ?thesis
      by (intro exI [of _ "Suc n"] exI [of _ st]) (auto split: if_splits)
  qed
qed

theorem pipe_relays_witness:
  "\<exists>n st. pipe_loop 1 (\<lambda>_ _. 0) [Try_Again, Done [1, 2, 3], Done [4]] [Done 2, Try_Again, Done 1, Done 1] []
      (async_event_new 5) (async_event_new 6) =
        Inr ([] @ concat (take n (pieces [Try_Again, Done [1, 2, 3], Done [4]])), st)
    \<and> (if st = Pipe_Reading then n = length (pieces [Try_Again, Done [1, 2, 3], Done [4 :: u8]])
       else st = Pipe_Writing \<and> n < length (pieces [Try_Again, Done [1, 2, 3], Done [4 :: u8]]))"
  by (rule pipe_relays) (simp_all add: read_idle_def write_idle_def async_event_new_def)

text \<open>C34: no pipe ever ends: whatever the reads and the writes answer, the \<open>break\<close> is not reached,
  because the end of a stream is retried and an error is a size above 0; an error of the read is
  followed by a write of \<open>2 ^ 64 - 1\<close> bytes, whose failure is followed by the next read.\<close>

theorem pipe_never_ends:
  "(\<nexists>out. pipe_loop i g reads writes sent src dst = Inr (out, Pipe_Done))
   \<and> pipe_loop i g (Failed # reads) (Failed # writes) sent src dst = pipe_loop i g reads writes sent src dst"
proof
  have "pipe_loop i g reads writes sent src dst \<noteq> Inr (out, Pipe_Done)" for out
  proof (induction i g reads writes sent src dst rule: pipe_loop.induct)
    case (1 i g reads writes sent src dst)
    let ?buf = "new_array (g (length reads)) PIPE_BUFFER"
    have "length ?buf < 2 ^ 31" by simp
    note nz = read_some_nonzero [OF _ this]
    show ?case
    proof (cases "async_read_some i reads ?buf PIPE_BUFFER src")
      case (Inr r)
      show ?thesis
      proof (cases r)
        case (Some x)
        obtain ret buf src' reads' where x: "x = (ret, buf, src', reads')" by (cases x)
        with Inr Some have rd: "async_read_some i reads ?buf PIPE_BUFFER src = Inr (Some (ret, buf, src', reads'))" by simp
        show ?thesis
        proof (cases "async_write i writes buf (size_of_int ret) 0 [] dst")
          case Inl
          with rd nz [OF rd] show ?thesis by (subst pipe_loop.simps) (simp add: Let_def)
        next
          case wr: (Inr y)
          with rd nz [OF rd] "1.IH" [OF Inr Some x [symmetric] refl refl refl nz [OF rd] wr] show ?thesis
            by (subst pipe_loop.simps) (auto simp: Let_def split: option.splits)
        qed
      qed (use Inr in \<open>subst pipe_loop.simps, simp\<close>)
    qed (subst pipe_loop.simps, simp)
  qed
  then show "\<nexists>out. pipe_loop i g reads writes sent src dst = Inr (out, Pipe_Done)" by blast
  have "size_of_int (-1) = 2 ^ 64 - 1" by (simp add: size_of_int_def)
  then show "pipe_loop i g (Failed # reads) (Failed # writes) sent src dst = pipe_loop i g reads writes sent src dst"
    by (subst pipe_loop.simps) (simp add: Let_def)
qed

end
