(* ===== verification/Socket_Life.thy ===== *)
theory Socket_Life
  imports Sockets
begin

text \<open>
  Who owns a descriptor. The constructors, move constructors and destructors of \<open>udp_socket\<close> and
  \<open>tcp_socket\<close> (\<open>network/socket.hpp\<close>; the two classes have the same ones), \<open>tcp_socket::accept\<close> with what
  it opens, and \<open>async_timer_event\<close> (\<open>network/timer.hpp\<close>). The state is the event pool with its objects and
  the descriptors the process has open. An object with \<open>ev_fd = -1\<close> has none.
\<close>

record sock_state =
  so_pool :: event_pool
  so_open :: "int list"

section \<open>Operations\<close>

text \<open>\<open>socket(\<dots>)\<close> returned \<open>fd\<close>, \<open>epoll_ctl\<close> returned \<open>ctl\<close>.\<close>

definition socket_new :: "int \<Rightarrow> int \<Rightarrow> nat \<Rightarrow> sock_state \<Rightarrow> sock_state outcome" where
  "socket_new ctl fd k S =
     and_then (async_event_create ctl fd k (so_pool S)) (\<lambda>p.
     Inr (S\<lparr>so_pool := p, so_open := (if fd = -1 then so_open S else fd # so_open S)\<rparr>))"

definition socket_move :: "async_file_event \<Rightarrow> nat \<Rightarrow> nat \<Rightarrow> sock_state \<Rightarrow> sock_state outcome" where
  "socket_move junk k k' S =
     (case ev_objs (so_pool S) k of None \<Rightarrow> Inl Undefined_Behaviour
      | Some sock \<Rightarrow>
          Inr (S\<lparr>so_pool := (so_pool S)\<lparr>ev_objs := (ev_objs (so_pool S))
            (k' := Some (async_event_move junk sock), k := Some (sock\<lparr>ev_fd := -1\<rparr>))\<rparr>\<rparr>))"

definition socket_delete :: "nat \<Rightarrow> sock_state \<Rightarrow> sock_state outcome" where
  "socket_delete k S =
     (case ev_objs (so_pool S) k of None \<Rightarrow> Inl Undefined_Behaviour
      | Some sock \<Rightarrow>
          Inr (S\<lparr>so_pool := async_event_destroy k (so_pool S),
            so_open := (if ev_fd sock \<noteq> -1 then remove1 (ev_fd sock) (so_open S) else so_open S)\<rparr>))"

text \<open>The members of \<open>udp_socket\<close> are written out a second time in the sources, with the same text.\<close>

definition udp_new :: "int \<Rightarrow> int \<Rightarrow> nat \<Rightarrow> sock_state \<Rightarrow> sock_state outcome" where
  "udp_new ctl fd k S = socket_new ctl fd k S"

definition udp_move :: "async_file_event \<Rightarrow> nat \<Rightarrow> nat \<Rightarrow> sock_state \<Rightarrow> sock_state outcome" where
  "udp_move junk k k' S = socket_move junk k k' S"

definition udp_delete :: "nat \<Rightarrow> sock_state \<Rightarrow> sock_state outcome" where
  "udp_delete k S = socket_delete k S"

text \<open>\<open>accept()\<close> once \<open>::accept\<close> has delivered \<open>fd\<close>, and its caller: a socket \<open>sfd\<close> at \<open>k\<close>, the overwritten
  descriptor, the move to \<open>k'\<close> and the end of \<open>k\<close>.\<close>

definition set_handle :: "nat \<Rightarrow> int \<Rightarrow> sock_state \<Rightarrow> sock_state outcome" where
  "set_handle k fd S =
     (case ev_objs (so_pool S) k of None \<Rightarrow> Inl Undefined_Behaviour
      | Some sock \<Rightarrow>
          Inr (S\<lparr>so_pool := (so_pool S)\<lparr>ev_objs := (ev_objs (so_pool S))(k := Some (sock\<lparr>ev_fd := fd\<rparr>))\<rparr>\<rparr>))"

definition tcp_accept ::
    "int \<Rightarrow> int \<Rightarrow> nat \<Rightarrow> nat \<Rightarrow> async_file_event \<Rightarrow> int \<Rightarrow> sock_state \<Rightarrow> sock_state outcome" where
  "tcp_accept ctl sfd k k' junk fd S =
     and_then (socket_new ctl sfd k (S\<lparr>so_open := fd # so_open S\<rparr>)) (\<lambda>S.
     and_then (set_handle k fd S) (\<lambda>S.
     and_then (socket_move junk k k' S) (\<lambda>S. socket_delete k S)))"

text \<open>The timer's constructor is that of a socket with the descriptor of \<open>timerfd_create\<close>; its destructor
  does nothing.\<close>

definition timer_new :: "int \<Rightarrow> int \<Rightarrow> nat \<Rightarrow> sock_state \<Rightarrow> sock_state outcome" where
  "timer_new ctl fd k S = socket_new ctl fd k S"

definition timer_delete :: "nat \<Rightarrow> sock_state \<Rightarrow> sock_state outcome" where
  "timer_delete k S =
     (case ev_objs (so_pool S) k of None \<Rightarrow> Inl Undefined_Behaviour
      | Some ev \<Rightarrow> Inr (S\<lparr>so_pool := async_event_destroy k (so_pool S)\<rparr>))"

section \<open>Ownership\<close>

definition owns :: "sock_state \<Rightarrow> nat \<Rightarrow> int \<Rightarrow> bool" where
  "owns S k fd \<longleftrightarrow> fd \<noteq> -1 \<and> (\<exists>ev. ev_objs (so_pool S) k = Some ev \<and> ev_fd ev = fd)"

text \<open>Each descriptor an object holds is open, and no two objects hold the same.\<close>

definition sock_inv :: "sock_state \<Rightarrow> bool" where
  "sock_inv S \<longleftrightarrow> distinct (so_open S) \<and> (\<forall>k fd. owns S k fd \<longrightarrow> fd \<in> set (so_open S))
     \<and> (\<forall>k j fd. owns S k fd \<and> owns S j fd \<longrightarrow> k = j)"

definition leaked :: "sock_state \<Rightarrow> int set" where
  "leaked S = {fd \<in> set (so_open S). \<forall>k. \<not> owns S k fd}"

lemma sock_invD:
  assumes "sock_inv S"
  shows "distinct (so_open S)" "owns S k fd \<Longrightarrow> fd \<in> set (so_open S)" "owns S k fd \<Longrightarrow> owns S j fd \<Longrightarrow> k = j"
  using assms unfolding sock_inv_def by blast+

lemma socket_new_owns:
  assumes "socket_new ctl fd k S = Inr S'"
  shows "owns S' j x \<longleftrightarrow> (if j = k then x = fd \<and> fd \<noteq> -1 else owns S j x)"
    "so_open S' = (if fd = -1 then so_open S else fd # so_open S)"
  using assms
  by (auto simp: socket_new_def async_event_create_def add_event_def and_then_Inr_iff owns_def
      async_event_new_def split: if_splits)

lemma socket_move_owns:
  assumes "socket_move junk k k' S = Inr S'" "k \<noteq> k'"
  shows "owns S' j x \<longleftrightarrow> (if j = k' then owns S k x else j \<noteq> k \<and> owns S j x)" "so_open S' = so_open S"
  using assms
  by (auto simp: socket_move_def owns_def async_event_move_def split: option.splits if_splits)

lemma socket_delete_owns:
  assumes "socket_delete k S = Inr S'" "sock_inv S"
  shows "owns S' j x \<longleftrightarrow> j \<noteq> k \<and> owns S j x" "distinct (so_open S')"
    "set (so_open S') = {x \<in> set (so_open S). \<not> owns S k x}"
proof -
  show "owns S' j x \<longleftrightarrow> j \<noteq> k \<and> owns S j x"
    using assms(1) by (auto simp: socket_delete_def owns_def async_event_destroy_def split: option.splits if_splits)
  have d: "distinct (so_open S)" by (rule sock_invD(1) [OF assms(2)])
  with assms(1) show "distinct (so_open S')" by (auto simp: socket_delete_def split: option.splits)
  from d assms(1) show "set (so_open S') = {x \<in> set (so_open S). \<not> owns S k x}"
    by (auto simp: socket_delete_def owns_def split: option.splits if_splits)
qed

text \<open>\<open>accept\<close> in one step.\<close>

lemma tcp_accept_Inr:
  assumes "ctl \<noteq> -1" "sfd \<noteq> -1" "k \<noteq> k'"
  shows "tcp_accept ctl sfd k k' junk fd S = Inr (S\<lparr>
    so_pool := (so_pool S)\<lparr>handle_map := map_emplace fd_less sfd k (handle_map (so_pool S)),
      ev_objs := (ev_objs (so_pool S))(k' := Some (junk\<lparr>ev_fd := fd\<rparr>), k := None)\<rparr>,
    so_open := sfd # fd # so_open S\<rparr>)"
  using assms
  by (simp add: tcp_accept_def socket_new_def async_event_create_def add_event_def set_handle_def
      socket_move_def socket_delete_def async_event_move_def async_event_destroy_def async_event_new_def fun_upd_twist)

text \<open>What must hold of the numbers a round brings: those the kernel returns are not in use, and the
  objects are new.\<close>

definition accept_fresh :: "int \<times> nat \<times> nat \<times> int \<Rightarrow> sock_state \<Rightarrow> bool" where
  "accept_fresh r S = (case r of (sfd, k, k', fd) \<Rightarrow>
     sfd \<noteq> -1 \<and> fd \<noteq> -1 \<and> sfd \<noteq> fd \<and> sfd \<notin> set (so_open S) \<and> fd \<notin> set (so_open S) \<and> k \<noteq> k'
     \<and> ev_objs (so_pool S) k = None \<and> ev_objs (so_pool S) k' = None)"

lemma accept_leaks_one:
  assumes "sock_inv S" "accept_fresh (sfd, k, k', fd) S" "ctl \<noteq> -1"
  shows "\<exists>S'. tcp_accept ctl sfd k k' junk fd S = Inr S' \<and> sock_inv S' \<and> owns S' k' fd
    \<and> leaked S' = insert sfd (leaked S) \<and> so_open S' = sfd # fd # so_open S"
proof -
  obtain S' where S': "tcp_accept ctl sfd k k' junk fd S = Inr S'" "so_open S' = sfd # fd # so_open S"
    "ev_objs (so_pool S') = (ev_objs (so_pool S))(k' := Some (junk\<lparr>ev_fd := fd\<rparr>), k := None)"
    using tcp_accept_Inr [of ctl sfd k k' junk fd S] assms by (auto simp: accept_fresh_def)
  have o: "owns S' j x \<longleftrightarrow> (if j = k' then x = fd else owns S j x)" for j x
    using assms(2) S'(3) by (auto simp: owns_def accept_fresh_def)
  have "\<not> owns S j sfd" "\<not> owns S j fd" "\<not> owns S k' x" for j x
    using assms(1,2) sock_invD(2) [OF assms(1)] by (auto simp: accept_fresh_def) (auto simp: owns_def)
  note n = this
  have new: "sfd \<notin> set (so_open S)" "fd \<notin> set (so_open S)" "sfd \<noteq> fd"
    using assms(2) by (auto simp: accept_fresh_def)
  have "distinct (so_open S')" using sock_invD(1) [OF assms(1)] new by (simp add: S'(2))
  moreover have "x \<in> set (so_open S')" if "owns S' j x" for j x
    using that sock_invD(2) [OF assms(1)] by (auto simp: o S'(2) split: if_splits)
  moreover have "i = j" if "owns S' i x" "owns S' j x" for i j x
    using that n(2) sock_invD(3) [OF assms(1), of i x j] by (simp add: o split: if_splits)
  ultimately have "sock_inv S'" unfolding sock_inv_def by blast
  moreover have "(\<forall>j. \<not> owns S' j x) \<longleftrightarrow> x \<noteq> fd \<and> (\<forall>j. \<not> owns S j x)" for x
    unfolding o using n(3) by (metis (full_types))
  then have "leaked S' = insert sfd (leaked S)"
    using n(1) new unfolding leaked_def S'(2) by auto
  ultimately show ?thesis using S' o by auto
qed

text \<open>Rounds of the accept loop.\<close>

fun tcp_accepts :: "(int \<times> nat \<times> nat \<times> int) list \<Rightarrow> async_file_event \<Rightarrow> sock_state \<Rightarrow> sock_state outcome" where
  "tcp_accepts [] junk S = Inr S"
| "tcp_accepts ((sfd, k, k', fd) # rs) junk S =
     and_then (tcp_accept 0 sfd k k' junk fd S) (tcp_accepts rs junk)"

fun rounds_fresh :: "(int \<times> nat \<times> nat \<times> int) list \<Rightarrow> async_file_event \<Rightarrow> sock_state \<Rightarrow> bool" where
  "rounds_fresh [] junk S = True"
| "rounds_fresh ((sfd, k, k', fd) # rs) junk S =
     (accept_fresh (sfd, k, k', fd) S
      \<and> (case tcp_accept 0 sfd k k' junk fd S of Inl _ \<Rightarrow> False | Inr S' \<Rightarrow> rounds_fresh rs junk S'))"

text \<open>The calls of a program that uses its sockets well.\<close>

datatype sock_call = Sock_New int int nat | Sock_Move async_file_event nat nat | Sock_Delete nat

fun sock_do :: "sock_call \<Rightarrow> sock_state \<Rightarrow> sock_state outcome" where
  "sock_do (Sock_New ctl fd k) S = socket_new ctl fd k S"
| "sock_do (Sock_Move junk k k') S = socket_move junk k k' S"
| "sock_do (Sock_Delete k) S = socket_delete k S"

text \<open>The kernel returns a descriptor that is not open, and an object is made where there is none.\<close>

fun sock_allowed :: "sock_call \<Rightarrow> sock_state \<Rightarrow> bool" where
  "sock_allowed (Sock_New ctl fd k) S \<longleftrightarrow> ev_objs (so_pool S) k = None \<and> fd \<notin> set (so_open S)"
| "sock_allowed (Sock_Move junk k k') S \<longleftrightarrow> ev_objs (so_pool S) k' = None \<and> k \<noteq> k'"
| "sock_allowed (Sock_Delete k) S \<longleftrightarrow> True"

inductive sock_reach :: "sock_state \<Rightarrow> sock_state \<Rightarrow> bool" for S0 where
  sock_start: "sock_reach S0 S0"
| sock_step: "sock_reach S0 S \<Longrightarrow> sock_allowed c S \<Longrightarrow> sock_do c S = Inr S' \<Longrightarrow> sock_reach S0 S'"

lemma sock_do_inv:
  assumes "sock_inv S" "sock_allowed c S" "sock_do c S = Inr S'"
  shows "sock_inv S' \<and> leaked S' = leaked S"
proof (cases c)
  case (Sock_New ctl fd k)
  with assms(2,3) have new: "socket_new ctl fd k S = Inr S'" "fd \<notin> set (so_open S)" "\<not> owns S k x" for x
    by (auto simp: owns_def)
  note o = socket_new_owns [OF new(1)]
  have out: "\<not> owns S j fd" for j using new(2) sock_invD(2) [OF assms(1)] by blast
  have "distinct (so_open S')" using sock_invD(1) [OF assms(1)] new(2) by (simp add: o(2))
  moreover have "x \<in> set (so_open S')" if "owns S' j x" for j x
    using that sock_invD(2) [OF assms(1)] by (auto simp: o split: if_splits)
  moreover have "i = j" if "owns S' i x" "owns S' j x" for i j x
    using that out sock_invD(3) [OF assms(1), of i x j] by (simp add: o(1) split: if_splits)
  ultimately have "sock_inv S'" unfolding sock_inv_def by blast
  moreover have "(\<forall>j. \<not> owns S' j x) \<longleftrightarrow> (x = -1 \<or> x \<noteq> fd) \<and> (\<forall>j. \<not> owns S j x)" for x
    unfolding o(1) using new(3) by (metis (full_types))
  then have "leaked S' = leaked S" unfolding leaked_def o(2) using new(2) by auto
  ultimately show ?thesis by simp
next
  case (Sock_Move junk k k')
  with assms(2,3) have mv: "socket_move junk k k' S = Inr S'" "k \<noteq> k'" "\<not> owns S k' x" for x
    by (auto simp: owns_def)
  have "(\<forall>j. \<not> owns S' j x) \<longleftrightarrow> (\<forall>j. \<not> owns S j x)" for x
    unfolding socket_move_owns [OF mv(1,2)] using mv(2,3) by (metis (full_types))
  moreover have "i = j" if "owns S' i x" "owns S' j x" for i j x
    using that mv(2,3) sock_invD(3) [OF assms(1)] by (simp add: socket_move_owns [OF mv(1,2)] split: if_splits) blast+
  then have "sock_inv S'"
    using sock_invD(1,2) [OF assms(1)] unfolding sock_inv_def socket_move_owns [OF mv(1,2)] by (metis (full_types))
  ultimately show ?thesis by (simp add: leaked_def socket_move_owns(2) [OF mv(1,2)])
next
  case (Sock_Delete k)
  with assms(3) have del: "socket_delete k S = Inr S'" by simp
  note o = socket_delete_owns [OF del assms(1)]
  have "sock_inv S'"
    unfolding sock_inv_def o using sock_invD(2,3) [OF assms(1)] o(2) by blast
  moreover have "leaked S' = leaked S" unfolding leaked_def o by (metis (lifting) mem_Collect_eq)
  ultimately show ?thesis by simp
qed

text \<open>\<open>accept\<close> on these states is \<open>accept_socket\<close> on the pool.\<close>

lemma tcp_accept_pool:
  assumes "sfd \<noteq> -1" "k \<noteq> k'"
  shows "map_sum id so_pool (tcp_accept ctl sfd k k' junk fd S) = accept_socket ctl sfd k k' junk fd (so_pool S)"
  by (simp add: tcp_accept_def accept_socket_def socket_new_def async_event_create_def add_event_def
      set_handle_def socket_move_def socket_delete_def async_event_move_def async_event_destroy_def
      async_event_new_def fun_upd_twist [OF assms(2)] Let_def)

lemma accept_keeps_owners:
  assumes "accept_fresh (sfd, k, k', fd) S" "tcp_accept 0 sfd k k' junk fd S = Inr S'" "owns S j x"
  shows "owns S' j x"
  using assms tcp_accept_Inr [of 0 sfd k k' junk fd S] by (auto simp: accept_fresh_def owns_def)

lemma accepts_keep_owners:
  "tcp_accepts rs junk S = Inr S' \<Longrightarrow> rounds_fresh rs junk S \<Longrightarrow> owns S j x \<Longrightarrow> owns S' j x"
  by (induction rs junk S arbitrary: S' rule: tcp_accepts.induct)
    (auto simp: and_then_Inr_iff, blast intro: accept_keeps_owners)

lemma reach_inv: "sock_reach S0 S \<Longrightarrow> sock_inv S0 \<Longrightarrow> sock_inv S \<and> leaked S = leaked S0"
  by (induction rule: sock_reach.induct) (auto dest: sock_do_inv)

section \<open>Properties\<close>

text \<open>C18: opening, moving and closing sockets in any order keeps the ownership of descriptors: an open
  descriptor is held by at most one object, the descriptors held are open, and none is lost.\<close>

theorem sockets_own:
  assumes "sock_reach S0 S" "sock_inv S0" "leaked S0 = {}"
  shows "distinct (so_open S) \<and> (\<forall>fd. fd \<in> set (so_open S) \<longleftrightarrow> (\<exists>!k. owns S k fd))"
proof -
  from reach_inv [OF assms(1,2)] assms(3) have S: "sock_inv S" "leaked S = {}" by auto
  have "fd \<in> set (so_open S) \<longleftrightarrow> (\<exists>!k. owns S k fd)" for fd
    using S(2) sock_invD(2,3) [OF S(1)] unfolding leaked_def by blast
  with sock_invD(1) [OF S(1)] show ?thesis by blast
qed

definition demo_sockets :: sock_state where
  "demo_sockets = \<lparr>so_pool = \<lparr>handle_map = [], ev_objs = \<lambda>_. None\<rparr>, so_open = []\<rparr>"

lemma demo_sockets_inv: "sock_inv demo_sockets" "leaked demo_sockets = {}"
  by (simp_all add: demo_sockets_def sock_inv_def leaked_def owns_def)

theorem sockets_own_witness:
  "\<exists>S1 S. socket_new 0 5 0 demo_sockets = Inr S1 \<and> socket_move (async_event_new 0) 0 1 S1 = Inr S
    \<and> so_open S = [5] \<and> distinct (so_open S) \<and> (\<forall>fd. fd \<in> set (so_open S) \<longleftrightarrow> (\<exists>!k. owns S k fd))"
proof -
  obtain S1 S where S: "socket_new 0 5 0 demo_sockets = Inr S1"
    "socket_move (async_event_new 0) 0 1 S1 = Inr S" "ev_objs (so_pool S1) 1 = None" "so_open S = [5]"
    by (simp add: demo_sockets_def socket_new_def async_event_create_def add_event_def socket_move_def)
  have "sock_reach demo_sockets S1"
    by (rule sock_step [OF sock_start, where c = "Sock_New 0 5 0"]) (use S in \<open>simp_all add: demo_sockets_def\<close>)
  then have "sock_reach demo_sockets S"
    by (rule sock_step [where c = "Sock_Move (async_event_new 0) 0 1"]) (use S in simp_all)
  from sockets_own [OF this demo_sockets_inv] S show ?thesis by blast
qed

text \<open>C32: every accepted connection costs two descriptors and gives back one: after \<open>n\<close> rounds of the
  accept loop each connection has its descriptor, and the \<open>n\<close> sockets opened on the way are open, held
  by nobody and never closed. When the kernel has no descriptor left, the next \<open>accept\<close> ends the program.\<close>

theorem accepts_leak:
  assumes "sock_inv S" "rounds_fresh rs junk S"
  shows "\<exists>S'. tcp_accepts rs junk S = Inr S' \<and> sock_inv S' \<and> leaked S' = fst ` set rs \<union> leaked S
    \<and> length (so_open S') = 2 * length rs + length (so_open S)
    \<and> (\<forall>(sfd, k, k', fd) \<in> set rs. owns S' k' fd)
    \<and> tcp_accept (-1) (-1) k k' junk fd S' = Inl Exited"
  using assms
proof (induction rs junk S rule: tcp_accepts.induct)
  case (1 junk S)
  then show ?case by (simp add: tcp_accept_def socket_new_def async_event_create_def add_event_def)
next
  case (2 sfd j j' nfd rs junk S)
  then have fresh: "accept_fresh (sfd, j, j', nfd) S" by simp
  from accept_leaks_one [OF 2(2) fresh, of 0 junk] obtain S1 where S1:
    "tcp_accept 0 sfd j j' junk nfd S = Inr S1" "sock_inv S1" "owns S1 j' nfd"
    "leaked S1 = insert sfd (leaked S)" "so_open S1 = sfd # nfd # so_open S" by auto
  with 2(3) have "rounds_fresh rs junk S1" by simp
  with 2(1) [OF S1(2)] obtain S' where S': "tcp_accepts rs junk S1 = Inr S'" "sock_inv S'"
    "leaked S' = fst ` set rs \<union> leaked S1" "length (so_open S') = 2 * length rs + length (so_open S1)"
    "\<forall>(sfd, k, k', fd) \<in> set rs. owns S' k' fd" "tcp_accept (-1) (-1) k k' junk fd S' = Inl Exited"
    by blast
  have "owns S' j' nfd" by (rule accepts_keep_owners [OF S'(1) \<open>rounds_fresh rs junk S1\<close> S1(3)])
  with S' S1 show ?case by auto
qed

theorem accepts_leak_witness:
  "\<exists>S'. tcp_accepts [(8, 0, 1, 9), (10, 0, 2, 11)] (async_event_new 0) demo_sockets = Inr S'
    \<and> leaked S' = {8, 10} \<and> length (so_open S') = 4 \<and> owns S' 1 9 \<and> owns S' 2 11"
proof -
  have "rounds_fresh [(8, 0, 1, 9), (10, 0, 2, 11)] (async_event_new 0) demo_sockets"
    by (simp add: tcp_accept_Inr accept_fresh_def demo_sockets_def)
  moreover have "so_open demo_sockets = []" by (simp add: demo_sockets_def)
  ultimately show ?thesis using accepts_leak [OF demo_sockets_inv(1), of _ _ 0 0 0] demo_sockets_inv(2) by fastforce
qed

text \<open>A timer never closes its descriptor: when its object ends, the descriptor stays open and is held by
  nobody.\<close>

theorem timer_leaks:
  assumes "sock_inv S" "fd \<noteq> -1" "fd \<notin> set (so_open S)" "timer_new ctl fd k S = Inr S1" "timer_delete k S1 = Inr S2"
  shows "fd \<in> leaked S2"
proof -
  have "\<not> owns S j fd" for j using sock_invD(2) [OF assms(1)] assms(3) by blast
  then have "\<not> owns S2 j fd" for j
    using assms(4,5) socket_new_owns(1) [of ctl fd k S S1 j fd]
    by (auto simp: timer_new_def timer_delete_def owns_def async_event_destroy_def split: option.splits if_splits)
  moreover have "fd \<in> set (so_open S2)"
    using assms(2,4,5) socket_new_owns(2) [of ctl fd k S S1]
    by (auto simp: timer_new_def timer_delete_def split: option.splits)
  ultimately show ?thesis by (simp add: leaked_def)
qed

theorem timer_leaks_witness:
  "\<exists>S1 S2. timer_new 0 7 0 demo_sockets = Inr S1 \<and> timer_delete 0 S1 = Inr S2 \<and> 7 \<in> leaked S2"
proof -
  obtain S1 S2 where S: "timer_new 0 7 0 demo_sockets = Inr S1" "timer_delete 0 S1 = Inr S2"
    by (simp add: timer_new_def timer_delete_def demo_sockets_def socket_new_def async_event_create_def add_event_def)
  from timer_leaks [OF demo_sockets_inv(1) _ _ S] S show ?thesis by (simp add: demo_sockets_def)
qed

text \<open>C36: Handlers outlive their objects. A socket is opened and destroyed, which closes its descriptor; a
  second socket then gets the same number. Its registration is ignored, because the pool still maps the
  number to the first object, so the first event of the new socket calls the handler of the dead one.\<close>

theorem reopened_socket_undefined:
  assumes "map_ordered fd_less (handle_map (so_pool S))" "map_find fd_less fd (handle_map (so_pool S)) = None"
    and "k \<noteq> j" "fd \<noteq> -1" "fd \<notin> set (so_open S)"
  shows "\<exists>S1 S2 S3. socket_new 0 fd k S = Inr S1 \<and> socket_delete k S1 = Inr S2 \<and> so_open S2 = so_open S
    \<and> socket_new 0 fd j S2 = Inr S3 \<and> owns S3 j fd
    \<and> map_find fd_less fd (handle_map (so_pool S3)) = Some k
    \<and> (\<forall>events w. dispatch fd events (so_pool S3) w = Inl Undefined_Behaviour)"
proof -
  let ?m = "map_emplace fd_less fd k (handle_map (so_pool S))"
  have o: "map_ordered fd_less ?m" using assms(1) by (rule fds.ordered_emplace)
  have k: "map_find fd_less fd ?m = Some k"
    using fds.find_emplace [OF assms(1), of fd fd k] assms(2) by simp
  have "map_find fd_less fd (map_emplace fd_less fd j ?m) = Some k"
    using fds.find_emplace [OF o, of fd fd j] k by simp
  then show ?thesis using assms(3-5)
    by (simp add: socket_new_def socket_delete_def async_event_create_def add_event_def
        async_event_destroy_def dispatch_def owns_def async_event_new_def)
qed

theorem reopened_socket_undefined_witness:
  "\<exists>S1 S2 S3. socket_new 0 7 0 demo_sockets = Inr S1 \<and> socket_delete 0 S1 = Inr S2
    \<and> socket_new 0 7 1 S2 = Inr S3 \<and> dispatch 7 1 (so_pool S3) demo_world = Inl Undefined_Behaviour"
proof -
  have "map_ordered fd_less (handle_map (so_pool demo_sockets))"
    "map_find fd_less 7 (handle_map (so_pool demo_sockets)) = None" "7 \<notin> set (so_open demo_sockets)"
    by (simp_all add: demo_sockets_def)
  moreover have "(0::nat) \<noteq> 1" "(7::int) \<noteq> -1" by simp_all
  ultimately show ?thesis using reopened_socket_undefined [of demo_sockets 7 0 1] by blast
qed

end
