(* ===== verification/Tunnel_Faults.thy ===== *)
theory Tunnel_Faults
  imports Tunnel_Session
begin

text \<open>
  What a stranger's datagram does to the tunnel. Neither loop authenticates a datagram or catches an
  exception, so the cipher's refusal of a ciphertext is the end of the loop and with it of the program.
\<close>

text \<open>The behaviour of OpenSSL's decryption with padding. \<open>EVP_DecryptUpdate\<close> writes at most one block more than
  it read. \<open>EVP_DecryptFinal_ex\<close> fails when the final block is missing or incomplete: when there was no input, or
  not a multiple of the block size.\<close>

definition evp_refuses :: "evp \<Rightarrow> bool" where
  "evp_refuses e \<longleftrightarrow> ctx_new e \<and> (\<forall>k iv. length k = AES_KEY_SIZE \<longrightarrow> length iv = AES_BLOCK_SIZE \<longrightarrow>
     dec_init e k iv \<and> (\<forall>n mem. n < 2 ^ 31 \<longrightarrow> n = 0 \<or> n mod AES_BLOCK_SIZE \<noteq> 0 \<longrightarrow>
       (\<exists>u. dec_update e k iv (int n) mem = Some u \<and> length u \<le> n + AES_BLOCK_SIZE)
       \<and> dec_final e k iv (int n) mem = None))"

text \<open>What the manual leaves open: a negative length. The legacy ciphers of OpenSSL refuse it.\<close>

definition evp_no_negative :: "evp \<Rightarrow> bool" where
  "evp_no_negative e \<longleftrightarrow> (\<forall>k iv n mem. n < 0 \<longrightarrow> dec_update e k iv n mem = None)"

text \<open>The length field cut short: the size of the ciphertext wraps to a negative \<open>int\<close>.\<close>

lemma cipher_size_negative:
  assumes "AES_BLOCK_SIZE \<le> buf_size b" "buf_size b < CIPHER_OFF"
  shows "sint (cipher_size b) < 0"
proof -
  have "buf_size b \<in> {16, 17, 18, 19}" using assms by auto
  then show ?thesis by (auto simp: cipher_size_def size_sub_def to_u32_def)
qed

lemma AES_decrypt_no_length:
  assumes "evp_refuses e" "evp_no_negative e" "aes_wf a" "buf_wf b" "AES_BLOCK_SIZE \<le> buf_size b" "buf_size b < CIPHER_OFF"
  shows "AES_decrypt e g a b = Inl (Ssl_Internal_Error ''EVP_DecryptUpdate'')"
proof -
  define iv where "iv = take AES_BLOCK_SIZE (buf_bytes b)"
  let ?c = "\<lparr>buf_ptr = Some (buf_bytes b), buf_size = buf_size b\<rparr>"
  have bs: "length (buf_bytes b) = buf_size b" using assms(4) by (simp add: buf_simps)
  then have "length iv = AES_BLOCK_SIZE" using assms(5) by (simp add: iv_def)
  with assms(1-3) have e: "ctx_new e" "dec_init e (aes_key a) iv" "\<And>n mem. n < 0 \<Longrightarrow> dec_update e (aes_key a) iv n mem = None"
    unfolding evp_refuses_def evp_no_negative_def aes_wf_def by blast+
  have n: "sint (cipher_size ?c) < 0" using assms(5,6) by (intro cipher_size_negative) simp_all
  obtain c' where "buf_double (g 1) ?c = Inr c'"
    using buf_double_Inr [of ?c "g 1"] bs assms(6) by (auto simp: buf_wf_def)
  then show ?thesis
    using assms(4-6) bs e n
    by (simp add: AES_decrypt_def cipher_of_def buf_copy_Inr cipher_iv_def mem_simps cipher_ptr_def buf_index_def
        evp_call_def iv_def Let_def)
qed

lemma AES_decrypt_refused:
  assumes "evp_refuses e" "aes_wf a" "buf_wf b" "CIPHER_OFF \<le> buf_size b" "buf_size b \<le> BRIDGE_MTU"
    and "buf_size b = CIPHER_OFF \<or> (buf_size b - CIPHER_OFF) mod AES_BLOCK_SIZE \<noteq> 0"
  shows "AES_decrypt e g a b = Inl (Ssl_Internal_Error ''EVP_DecryptFinal_ex'')"
proof -
  define iv where "iv = take AES_BLOCK_SIZE (buf_bytes b)"
  define n where "n = buf_size b - CIPHER_OFF"
  have bs: "length (buf_bytes b) = buf_size b" using assms(3) by (simp add: buf_simps)
  then have iv: "length iv = AES_BLOCK_SIZE" using assms(4) by (simp add: iv_def)
  have "n < 2 ^ 31" "n = 0 \<or> n mod AES_BLOCK_SIZE \<noteq> 0" using assms(5,6) by (auto simp: n_def)
  with assms(1,2) iv obtain u where e: "ctx_new e" "dec_init e (aes_key a) iv"
    "dec_update e (aes_key a) iv (int n) (drop CIPHER_OFF (buf_bytes b)) = Some u" "length u \<le> n + AES_BLOCK_SIZE"
    "dec_final e (aes_key a) iv (int n) (drop CIPHER_OFF (buf_bytes b)) = None"
    unfolding evp_refuses_def aes_wf_def by blast
  have "sint (cipher_size b) = int n"
    using assms(4,5) to_int32_small [of n] by (simp add: cipher_size_def n_def to_int32_def to_u32_def)
  then show ?thesis
    using assms(3,4) bs e
    by (simp add: AES_decrypt_def cipher_of_def buf_copy_Inr cipher_iv_def mem_simps cipher_size_def
        cipher_ptr_def buf_index_def evp_call_def buf_sized_def n_def iv_def Let_def)
qed

section \<open>Properties\<close>


text \<open>A padding-only cipher that also refuses incomplete blocks.\<close>

definition strict_evp :: evp where
  "strict_evp = pad_evp\<lparr>dec_update := (\<lambda>k iv n mem. if n < 0 then None else Some []),
     dec_final := (\<lambda>k iv n mem. if n = 0 \<or> n mod 16 \<noteq> 0 then None else dec_final pad_evp k iv n mem)\<rparr>"

lemma strict_evp_ok: "evp_refuses strict_evp" "evp_cbc_ok strict_evp" "evp_no_negative strict_evp"
proof -
  have "int n mod 16 \<noteq> 0 \<longleftrightarrow> n mod 16 \<noteq> 0" for n by presburger
  then show "evp_refuses strict_evp" by (simp add: evp_refuses_def strict_evp_def pad_evp_def)
  have "int (padded n) mod 16 = 0" "padded n \<noteq> 0" for n unfolding padded_def by presburger+
  note pad = this
  show "evp_cbc_ok strict_evp"
    by (auto simp: pad evp_cbc_ok_def strict_evp_def pad_evp_def length_pkcs_pad pkcs_strip_pad)
  show "evp_no_negative strict_evp" by (simp add: evp_no_negative_def strict_evp_def)
qed


end
