(* ===== verification/Program_Start.thy ===== *)
theory Program_Start
  imports Bridge_Main
begin

text \<open>
  \<open>main\<close> of \<open>bridge/main.cpp\<close> as a whole, up to the first round of \<open>poll_forever\<close>: the configuration file
  decides which of \<open>server\<close> and \<open>client\<close> runs.
\<close>

text \<open>What the system gives the program: the blocks of the stacks, the descriptors, the results of the
  calls and the library's answers.\<close>

record host =
  h_image :: image
  h_pool_block :: nat
  h_block :: "loop_routine \<Rightarrow> nat"
  h_junk :: "nat \<Rightarrow> u8"
  h_rport :: u16
  h_bport :: u16
  h_epollfd :: int
  h_tapfd :: int
  h_ioctl :: "int \<Rightarrow> ifreq \<Rightarrow> int"
  h_sock :: int
  h_ctl :: "nat \<Rightarrow> int"
  h_len :: nat
  h_ret :: int
  h_info :: block
  h_launch :: "loop_routine \<Rightarrow> u64"
  h_func :: "loop_routine \<Rightarrow> u64"
  h_protocol :: "int outcome"

datatype started =
    Protocol_Test
  | Server_Started event_pool world
  | Client_Started client_env event_pool world

definition main_program ::
    "host \<Rightarrow> int \<Rightarrow> (string \<Rightarrow> yaml_node outcome) \<Rightarrow> string \<Rightarrow> world \<Rightarrow> started outcome" where
  "main_program h argc load_file arg w =
     and_then (main_start (h_image h) (h_pool_block h) (h_junk h) argc (h_protocol h) load_file arg
       (h_rport h) (h_bport h) w) (\<lambda>r.
     case r of
       None \<Rightarrow> Inr Protocol_Test
     | Some (conf, w) \<Rightarrow>
         (case conf_mode conf of
            SERVER \<Rightarrow>
              and_then (server_start (h_image h) (h_epollfd h) (h_block h) (h_junk h) (h_launch h) (h_func h) w)
                (\<lambda>(p, w). Inr (Server_Started p w))
          | CLIENT \<Rightarrow>
              and_then (client_start (h_image h) (h_epollfd h)
                (snd (tap_new (h_tapfd h) (h_ioctl h) (map of_char (conf_tap_device conf)) [])) (h_sock h) (h_ctl h)
                (h_junk h) (h_len h) (h_ret h) (h_info h) (h_launch h) (h_func h) conf w)
                (\<lambda>(env, p, w). Inr (Client_Started env p w))))"

section \<open>Lemmas\<close>

text \<open>A system on which every call succeeds.\<close>

definition host_ok :: "host \<Rightarrow> bool" where
  "host_ok h \<longleftrightarrow> h_pool_block h + 1024 * 1024 < size_max \<and> (\<forall>i. h_block h i + 65536 < size_max)
     \<and> h_epollfd h \<noteq> -1 \<and> h_ctl h 0 \<noteq> -1 \<and> h_ctl h 1 \<noteq> -1 \<and> 0 \<le> h_tapfd h \<and> h_tapfd h \<noteq> h_sock h
     \<and> (\<forall>ifr. 0 \<le> h_ioctl h (h_tapfd h) ifr) \<and> 0 \<le> h_ret h \<and> length (h_info h) \<le> 128"

lemma tap_opens: "0 \<le> fd \<Longrightarrow> \<forall>ifr. 0 \<le> ioctl fd ifr \<Longrightarrow> snd (tap_new fd ioctl name fds) = Inr fd"
  by (simp add: tap_new_def device_new_def tuntap_new_def tap_request_def strncpy_zero flip: not_less)

lemma main_start_reads:
  assumes "load_file arg = Inr node" "ether_bridge_conf_new rport bport node = Inr conf"
  shows "main_start im addr g 2 tap1 load_file arg rport bport w = Inr (Some (conf, co_init im addr g w))"
  using assms by (simp add: main_start_def)

section \<open>Properties\<close>

text \<open>C19: with one argument, a file that can be read and a system that serves it, the program starts as
  configured. In the mode \<open>server\<close> the ready queue is \<open>read_tap\<close>, \<open>read_udp\<close> and \<open>socks5_server\<close>, in this
  order, each about to be launched with its own function object, and the first poll runs \<open>co_launch\<close> of
  \<open>read_tap\<close>; in any other mode the queue is the client's \<open>read_tap\<close> and \<open>read_udp\<close>, in this order, its
  descriptors are registered and it has the configured key.\<close>

theorem program_runs:
  assumes "host_ok h" "load_file arg = Inr node" "as_string node ''mode'' = Inr mode"
    and "as_string node ''key'' = Inr key" "as_string node ''tap_dev'' = Inr dev"
    and "as_string node (if mode = ''server'' then ''bind_addr'' else ''remote_addr'') = Inr addr"
    and "as_uint16 node (if mode = ''server'' then ''bind_port'' else ''remote_port'') = Inr port"
  shows "if mode = ''server''
    then \<exists>p w a b c. main_program h 2 load_file arg (co_boot ctx) = Inr (Server_Started p w)
      \<and> co_inv 0 w \<and> sched w = Some [Some a, Some b, Some c]
      \<and> launchable (h_image h) (h_launch h Read_Tap) (h_func h Read_Tap) a w
      \<and> launchable (h_image h) (h_launch h Read_Udp) (h_func h Read_Udp) b w
      \<and> launchable (h_image h) (h_launch h Socks5_Server) (h_func h Socks5_Server) c w
      \<and> (\<exists>w'. poll_step (h_image h) batch p w = Inr (p, w') \<and> current w' = Some a \<and> RIP (cpu w') = at_co_launch (h_image h)
          \<and> co_launch w' = Inr (h_launch h Read_Tap, h_func h Read_Tap))
    else \<exists>env p w a b. main_program h 2 load_file arg (co_boot ctx) = Inr (Client_Started env p w)
      \<and> co_inv 0 w \<and> sched w = Some [Some a, Some b]
      \<and> launchable (h_image h) (h_launch h Read_Tap) (h_func h Read_Tap) a w
      \<and> launchable (h_image h) (h_launch h Read_Udp) (h_func h Read_Udp) b w
      \<and> map_find fd_less (h_tapfd h) (handle_map p) = Some 0 \<and> map_find fd_less (h_sock h) (handle_map p) = Some 1
      \<and> aes_key (env_aes env) = AES_key (map of_char key)"
proof (cases "mode = ''server''")
  case True
  define conf where "conf = \<lparr>conf_mode = SERVER, conf_key = key, conf_tap_device = dev, conf_remote_addr = [],
    conf_remote_port = h_rport h, conf_bind_addr = addr, conf_bind_port = port\<rparr>"
  have "ether_bridge_conf_new (h_rport h) (h_bport h) node = Inr conf"
    using True assms(3-7) by (simp add: ether_bridge_conf_new_def conf_def)
  note conf = main_start_reads [where load_file = load_file and arg = arg, OF assms(2) this]
  have "conf_mode conf = SERVER" by (simp add: conf_def)
  moreover from assms(1) server_starts [of "h_pool_block h" "h_block h" "h_epollfd h" "h_image h" "h_junk h" "h_launch h"
      "h_func h" ctx batch]
  obtain p w a b c where "server_start (h_image h) (h_epollfd h) (h_block h) (h_junk h) (h_launch h) (h_func h)
      (co_init (h_image h) (h_pool_block h) (h_junk h) (co_boot ctx)) = Inr (p, w)" "co_inv 0 w"
    "sched w = Some [Some a, Some b, Some c]"
    "launchable (h_image h) (h_launch h Read_Tap) (h_func h Read_Tap) a w"
    "launchable (h_image h) (h_launch h Read_Udp) (h_func h Read_Udp) b w"
    "launchable (h_image h) (h_launch h Socks5_Server) (h_func h Socks5_Server) c w"
    "\<exists>w'. poll_step (h_image h) batch p w = Inr (p, w') \<and> current w' = Some a \<and> RIP (cpu w') = at_co_launch (h_image h)
      \<and> co_launch w' = Inr (h_launch h Read_Tap, h_func h Read_Tap)"
    unfolding host_ok_def by blast
  ultimately show ?thesis using True by (simp add: main_program_def conf)
next
  case False
  define conf where "conf = \<lparr>conf_mode = CLIENT, conf_key = key, conf_tap_device = dev, conf_remote_addr = addr,
    conf_remote_port = port, conf_bind_addr = [], conf_bind_port = h_bport h\<rparr>"
  have "ether_bridge_conf_new (h_rport h) (h_bport h) node = Inr conf"
    using False assms(3-7) by (simp add: ether_bridge_conf_new_def conf_def)
  note conf = main_start_reads [where load_file = load_file and arg = arg, OF assms(2) this]
  have "conf_mode conf = CLIENT" "conf_key conf = key" by (simp_all add: conf_def)
  moreover have "snd (tap_new (h_tapfd h) (h_ioctl h) (map of_char (conf_tap_device conf)) []) = Inr (h_tapfd h)"
    using assms(1) by (simp add: host_ok_def tap_opens)
  moreover from assms(1) client_starts [of "h_pool_block h" "h_epollfd h" "h_ctl h" "h_tapfd h" "h_sock h" "h_ret h"
      "h_info h" "h_image h" "h_junk h" "h_len h" "h_launch h" "h_func h" conf ctx]
  obtain env p w a b where "client_start (h_image h) (h_epollfd h) (Inr (h_tapfd h)) (h_sock h) (h_ctl h) (h_junk h)
      (h_len h) (h_ret h) (h_info h) (h_launch h) (h_func h) conf
      (co_init (h_image h) (h_pool_block h) (h_junk h) (co_boot ctx)) = Inr (env, p, w)" "co_inv 0 w"
    "sched w = Some [Some a, Some b]"
    "launchable (h_image h) (h_launch h Read_Tap) (h_func h Read_Tap) a w"
    "launchable (h_image h) (h_launch h Read_Udp) (h_func h Read_Udp) b w"
    "map_find fd_less (h_tapfd h) (handle_map p) = Some 0" "map_find fd_less (h_sock h) (handle_map p) = Some 1"
    "aes_key (env_aes env) = AES_key (map of_char (conf_key conf))"
    unfolding host_ok_def by blast
  ultimately show ?thesis using False by (simp add: main_program_def conf)
qed

definition demo_node :: "string \<Rightarrow> yaml_node" where
  "demo_node mode = \<lparr>as_string = (\<lambda>k. Inr (if k = ''mode'' then mode else k)), as_uint16 = (\<lambda>_. Inr 1079)\<rparr>"

definition demo_host :: host where
  "demo_host = \<lparr>h_image = demo_image, h_pool_block = 65536, h_block = (\<lambda>i. 4194304), h_junk = (\<lambda>_. 0),
     h_rport = 0, h_bport = 0, h_epollfd = 3, h_tapfd = 4, h_ioctl = (\<lambda>_ _. 0), h_sock = 5, h_ctl = (\<lambda>_. 0),
     h_len = 0, h_ret = 0, h_info = [2, 0], h_launch = (\<lambda>_. 16), h_func = demo_func, h_protocol = Inr 0\<rparr>"

lemma demo_host_ok: "host_ok demo_host"
  by (simp add: host_ok_def demo_host_def)

theorem program_runs_witness:
  "(\<exists>p w a b c w'. main_program demo_host 2 (\<lambda>_. Inr (demo_node ''server'')) ''conf'' (co_boot zero_ctx) = Inr (Server_Started p w)
      \<and> sched w = Some [Some a, Some b, Some c] \<and> launchable demo_image 16 3 c w
      \<and> poll_step demo_image [] p w = Inr (p, w') \<and> co_launch w' = Inr (16, 1))
    \<and> (\<exists>env p w. main_program demo_host 2 (\<lambda>_. Inr (demo_node ''client'')) ''conf'' (co_boot zero_ctx)
        = Inr (Client_Started env p w) \<and> map_find fd_less 4 (handle_map p) = Some 0)"
proof -
  have h: "h_tapfd demo_host = 4" "h_image demo_host = demo_image" "h_launch demo_host l = 16" "h_func demo_host = demo_func" for l
    by (simp_all add: demo_host_def)
  from program_runs [OF demo_host_ok, of "\<lambda>_. Inr (demo_node ''server'')" "''conf''" "demo_node ''server''" "''server''"
      "''key''" "''tap_dev''" "''bind_addr''" 1079 zero_ctx "[]"]
    program_runs [OF demo_host_ok, of "\<lambda>_. Inr (demo_node ''client'')" "''conf''" "demo_node ''client''" "''client''"
      "''key''" "''tap_dev''" "''remote_addr''" 1079 zero_ctx "[]"]
  show ?thesis by (simp add: demo_node_def h) blast
qed

end
