(* ===== verification/Asm_Machine.thy ===== *)
theory Asm_Machine
  imports Net_Prelude
begin

text \<open>
  The x86-64 instructions that \<open>coroutine/src/asm\<close> uses, on registers and a flat memory. The routines
  are straight-line code, so a routine is a list of instructions; a jump or a return at its end sets \<open>rip\<close>.
  Flags are left out, because no instruction of the routines reads one.
\<close>

section \<open>Memory\<close>

text \<open>Addresses wrap around at the end of the address space.\<close>

definition ram_put :: "u64 \<Rightarrow> block \<Rightarrow> (u64 \<Rightarrow> u8) \<Rightarrow> u64 \<Rightarrow> u8" where
  "ram_put a bs m = (\<lambda>x. if unat (x - a) < length bs then bs ! unat (x - a) else m x)"

definition ram_get :: "u64 \<Rightarrow> nat \<Rightarrow> (u64 \<Rightarrow> u8) \<Rightarrow> block" where
  "ram_get a n m = map (\<lambda>i. m (a + of_nat i)) [0..<n]"

lemma length_ram_get [simp]: "length (ram_get a n m) = n"
  by (simp add: ram_get_def)

lemma unat_offset: "i < 2 ^ 64 \<Longrightarrow> unat (a + of_nat i - a :: u64) = i"
  by (simp add: unat_of_nat)

lemma ram_get_put:
  assumes "length bs \<le> 2 ^ 64"
  shows "ram_get a (length bs) (ram_put a bs m) = bs"
proof (rule nth_equalityI)
  fix i assume "i < length (ram_get a (length bs) (ram_put a bs m))"
  with assms have "i < length bs" "unat (a + of_nat i - a) = i" using unat_offset [of i a] by simp_all
  then show "ram_get a (length bs) (ram_put a bs m) ! i = bs ! i" by (simp add: ram_get_def ram_put_def)
qed simp

text \<open>Consecutive stores are one store.\<close>

lemma unat_minus_of_nat:
  assumes "l \<le> 2 ^ 64 - 1"
  shows "unat (d - of_nat l :: u64) = (if l \<le> unat d then unat d - l else unat d + 2 ^ 64 - l)"
proof -
  have "unat (of_nat l :: u64) = l" using assms by (simp add: unat_of_nat)
  then show ?thesis by (simp add: unat_sub_if')
qed

lemma ram_put_append:
  assumes "length bs + length cs < 2 ^ 64"
  shows "ram_put (a + of_nat (length bs)) cs (ram_put a bs m) = ram_put a (bs @ cs) m"
proof
  fix x
  have d: "x - (a + of_nat (length bs)) = (x - a) - of_nat (length bs)" by simp
  have "length bs \<le> 2 ^ 64 - 1" using assms by simp
  note u = unat_minus_of_nat [OF this, of "x - a", folded d]
  show "ram_put (a + of_nat (length bs)) cs (ram_put a bs m) x = ram_put a (bs @ cs) m x"
    using assms unfolding ram_put_def u by (auto simp: nth_append)
qed

lemma ram_get_slice:
  assumes "off + n \<le> N"
  shows "ram_get (a + of_nat off) n m = take n (drop off (ram_get a N m))"
  by (rule nth_equalityI) (use assms in \<open>simp_all add: ram_get_def add.assoc\<close>)

text \<open>Two regions that do not overlap.\<close>

definition separate :: "u64 \<Rightarrow> nat \<Rightarrow> u64 \<Rightarrow> nat \<Rightarrow> bool" where
  "separate a n b k \<longleftrightarrow> n \<le> unat (b - a) \<and> k \<le> unat (a - b)"

lemma separate_sym: "separate a n b k \<longleftrightarrow> separate b k a n"
  by (auto simp: separate_def)

lemma unat_plus_of_nat:
  "i < 2 ^ 64 \<Longrightarrow> unat (d + of_nat i :: u64) = (if unat d + i < 2 ^ 64 then unat d + i else unat d + i - 2 ^ 64)"
  using unat_plus_if' [of d "of_nat i"] by (simp add: unat_of_nat)

lemma separate_outside:
  assumes "separate a n b k" "i < k"
  shows "n \<le> unat (b + of_nat i - a)"
proof -
  have below: "unat (w :: u64) < 2 ^ 64" for w using unsigned_less [of w, where ?'a = nat] by simp
  have "i < 2 ^ 64" using assms below [of "a - b"] by (simp add: separate_def)
  note u = unat_plus_of_nat [OF this, of "b - a"]
  have eq: "b + of_nat i - a = (b - a) + of_nat i" by simp
  have "unat (b - a) + unat (a - b) \<le> 2 ^ 64"
    using unat_sub_if' [of a b] unat_sub_if' [of b a] below [of a] below [of b] by (auto split: if_splits)
  with assms show ?thesis unfolding eq u separate_def by auto
qed

lemma separate_within:
  assumes "separate a n b k" "off + n' \<le> n" "0 < n'"
  shows "separate (a + of_nat off) n' b k"
proof -
  have below: "unat (x :: u64) < 2 ^ 64" for x using unsigned_less [of x, where ?'a = nat] by simp
  have off: "off \<le> 2 ^ 64 - 1" "off < 2 ^ 64"
    using assms(1,2) below [of "b - a"] by (auto simp: separate_def)
  have "b - (a + of_nat off) = (b - a) - of_nat off" "a + of_nat off - b = (a - b) + of_nat off" by simp_all
  note eqs = this
  have "a \<noteq> b" using assms by (auto simp: separate_def)
  then have "unat a \<noteq> unat b" by (simp add: word_unat_eq_iff)
  then have "unat (b - a) + unat (a - b) = 2 ^ 64"
    using unat_sub_if' [of a b] unat_sub_if' [of b a] below [of a] below [of b] by (auto split: if_splits)
  then show ?thesis
    using assms unfolding separate_def eqs unat_minus_of_nat [OF off(1)] unat_plus_of_nat [OF off(2)] by auto
qed

lemma separate_below: "separate (a - x) n (a - y) k \<longleftrightarrow> n \<le> unat (x - y) \<and> k \<le> unat (y - x)"
  by (simp add: separate_def)

lemma ram_get_put_separate:
  assumes "separate a (length bs) b k"
  shows "ram_get b k (ram_put a bs m) = ram_get b k m"
  by (rule nth_equalityI)
    (use separate_outside [OF assms] in \<open>simp_all add: ram_get_def ram_put_def flip: not_le\<close>)

section \<open>Instructions\<close>

datatype reg = Rax | Rbx | Rcx | Rdx | Rbp | Rsp | Rsi | Rdi | Xr12 | Xr13 | Xr14 | Xr15

record machine =
  regs :: "reg \<Rightarrow> u64"
  rip :: u64
  mx :: u32
  x87 :: u16
  ram :: "u64 \<Rightarrow> u8"

text \<open>In the order of the AT&T syntax: source first. \<open>lea label(%rip), r\<close> has the label's address.\<close>

datatype instr =
    Store reg u64 reg
  | Load u64 reg reg
  | Move reg reg
  | Lea u64 reg
  | Push reg
  | Pop reg
  | Sub u64 reg
  | Add u64 reg
  | Stmxcsr u64 reg
  | Ldmxcsr u64 reg
  | Fnstcw u64 reg
  | Fldcw u64 reg
  | Jmp reg
  | Ret
  | Rep_Movsb

definition le16_put :: "u16 \<Rightarrow> block" where
  "le16_put w = [ucast w, ucast (drop_bit 8 w)]"

fun le16_get :: "block \<Rightarrow> u16" where
  "le16_get (a # b # _) = ucast a OR push_bit 8 (ucast b)"
| "le16_get _ = 0"

interpretation le16: codec le16_put le16_get 2
proof unfold_locales
  fix x :: u16
  show "le16_get (le16_put x) = x"
    unfolding le16_put_def le16_get.simps
    by (rule bit_word_eqI) (auto simp: bit_simps)
qed (simp_all add: le16_put_def)

declare le16.get_put [codec_simps] le16.length_put [codec_simps]

abbreviation put_reg :: "reg \<Rightarrow> u64 \<Rightarrow> machine \<Rightarrow> machine" where
  "put_reg r v M \<equiv> M\<lparr>regs := (regs M)(r := v)\<rparr>"

abbreviation put_mem :: "u64 \<Rightarrow> block \<Rightarrow> machine \<Rightarrow> machine" where
  "put_mem a bs M \<equiv> M\<lparr>ram := ram_put a bs (ram M)\<rparr>"

abbreviation load64 :: "u64 \<Rightarrow> machine \<Rightarrow> u64" where
  "load64 a M \<equiv> le64_get (ram_get a 8 (ram M))"

text \<open>\<open>rep movsb\<close> with the direction flag clear, as the calling convention has it.\<close>

fun rep_movsb :: "nat \<Rightarrow> u64 \<Rightarrow> u64 \<Rightarrow> (u64 \<Rightarrow> u8) \<Rightarrow> u64 \<Rightarrow> u8" where
  "rep_movsb 0 src dst m = m"
| "rep_movsb (Suc n) src dst m = rep_movsb n (src + 1) (dst + 1) (m(dst := m src))"

fun exec :: "instr \<Rightarrow> machine \<Rightarrow> machine" where
  "exec (Store r off b) M = put_mem (regs M b + off) (le64_put (regs M r)) M"
| "exec (Load off b r) M = put_reg r (load64 (regs M b + off) M) M"
| "exec (Move s d) M = put_reg d (regs M s) M"
| "exec (Lea a r) M = put_reg r a M"
| "exec (Push r) M = put_reg Rsp (regs M Rsp - 8) (put_mem (regs M Rsp - 8) (le64_put (regs M r)) M)"
| "exec (Pop r) M = put_reg r (load64 (regs M Rsp) M) (put_reg Rsp (regs M Rsp + 8) M)"
| "exec (Sub n r) M = put_reg r (regs M r - n) M"
| "exec (Add n r) M = put_reg r (regs M r + n) M"
| "exec (Stmxcsr off b) M = put_mem (regs M b + off) (le32_put (mx M)) M"
| "exec (Ldmxcsr off b) M = M\<lparr>mx := le32_get (ram_get (regs M b + off) 4 (ram M))\<rparr>"
| "exec (Fnstcw off b) M = put_mem (regs M b + off) (le16_put (x87 M)) M"
| "exec (Fldcw off b) M = M\<lparr>x87 := le16_get (ram_get (regs M b + off) 2 (ram M))\<rparr>"
| "exec (Jmp r) M = M\<lparr>rip := regs M r\<rparr>"
| "exec Ret M = put_reg Rsp (regs M Rsp + 8) (M\<lparr>rip := load64 (regs M Rsp) M\<rparr>)"
| "exec Rep_Movsb M =
     M\<lparr>ram := rep_movsb (unat (regs M Rcx)) (regs M Rsi) (regs M Rdi) (ram M),
       regs := (regs M)(Rsi := regs M Rsi + regs M Rcx, Rdi := regs M Rdi + regs M Rcx, Rcx := 0)\<rparr>"

definition exec_all :: "instr list \<Rightarrow> machine \<Rightarrow> machine" where
  "exec_all is M = fold exec is M"

lemma exec_all_simps [simp]:
  "exec_all [] M = M"
  "exec_all (i # is) M = exec_all is (exec i M)"
  by (simp_all add: exec_all_def)

text \<open>The copy, when no byte is overwritten before it is read.\<close>

lemma rep_movsb_outside:
  "(\<And>i. i < n \<Longrightarrow> x \<noteq> dst + of_nat i) \<Longrightarrow> rep_movsb n src dst m x = m x"
proof (induction n arbitrary: src dst m)
  case (Suc n)
  have "x \<noteq> dst + 1 + of_nat i" if "i < n" for i
    using Suc.prems [of "Suc i"] that by (simp add: add.assoc)
  then have "rep_movsb n (src + 1) (dst + 1) (m(dst := m src)) x = (m(dst := m src)) x" by (rule Suc.IH)
  with Suc.prems [of 0] show ?case by simp
qed simp

lemma rep_movsb_byte:
  assumes "\<And>i j. i < n \<Longrightarrow> j < n \<Longrightarrow> dst + of_nat i \<noteq> src + of_nat j" "j < n" "n < 2 ^ 64"
  shows "rep_movsb n src dst m (dst + of_nat j) = m (src + of_nat j)"
  using assms
proof (induction n arbitrary: src dst m j)
  case (Suc n)
  show ?case
  proof (cases j)
    case 0
    have "dst \<noteq> dst + 1 + of_nat i" if "i < n" for i
    proof -
      have "unat (of_nat (Suc i) :: u64) = Suc i" using Suc.prems(3) that by (simp only: unat_of_nat) simp
      then have "(of_nat (Suc i) :: u64) \<noteq> 0" by (metis nat.distinct(1) unsigned_0)
      then show ?thesis by (simp add: add.assoc)
    qed
    then have "rep_movsb n (src + 1) (dst + 1) (m(dst := m src)) dst = (m(dst := m src)) dst"
      by (rule rep_movsb_outside)
    with 0 show ?thesis by simp
  next
    case (Suc k)
    have "dst + 1 + of_nat i \<noteq> src + 1 + of_nat j" if "i < n" "j < n" for i j
      using Suc.prems(1) [of "Suc i" "Suc j"] that by (simp add: algebra_simps)
    then have "rep_movsb n (src + 1) (dst + 1) (m(dst := m src)) (dst + 1 + of_nat k) =
        (m(dst := m src)) (src + 1 + of_nat k)"
      by (rule Suc.IH) (use Suc Suc.prems(2,3) in simp_all)
    moreover have "src + 1 + of_nat k \<noteq> dst"
      using Suc.prems(1) [of 0 "Suc k"] Suc.prems(2) Suc by (simp add: add.assoc)
    ultimately show ?thesis by (simp add: Suc add.assoc)
  qed
qed simp

lemma rep_movsb_copies:
  assumes "separate dst n src n" "n < 2 ^ 64"
  shows "rep_movsb n src dst m = ram_put dst (ram_get src n m) m"
proof
  fix x
  have away: "dst + of_nat i \<noteq> src + of_nat j" if "i < n" "j < n" for i j
    using separate_outside [OF assms(1) that(2)] unat_offset [of i dst] that(1) assms(2) by force
  have x: "x = dst + of_nat (unat (x - dst))" by simp
  show "rep_movsb n src dst m x = ram_put dst (ram_get src n m) m x"
  proof (cases "unat (x - dst) < n")
    case True
    from rep_movsb_byte [OF away True assms(2), where m = m] x True show ?thesis
      by (simp add: ram_put_def ram_get_def)
  next
    case False
    have "x \<noteq> dst + of_nat i" if "i < n" for i
      using False that unat_offset [of i dst] assms(2) by force
    with False show ?thesis by (simp add: rep_movsb_outside ram_put_def)
  qed
qed

end
