(* ===== verification/Asm_Switch.thy ===== *)
theory Asm_Switch
  imports Asm_Machine Co_Library
begin

text \<open>
  The routines of \<open>coroutine/src/asm\<close> instruction by instruction, and what they do to a saved context:
  \<open>save_context\<close> and \<open>load_context\<close> of the model of the coroutine library are what the instructions of
  \<open>swapper.s\<close> do on a \<open>context_t\<close> in memory.
\<close>

section \<open>The routines\<close>

definition save_context_code :: "u64 \<Rightarrow> instr list" where
  "save_context_code retaddr =
     [Store Rbx 0 Rdi, Store Rbp 8 Rdi, Store Xr12 16 Rdi, Store Xr13 24 Rdi, Store Xr14 32 Rdi, Store Xr15 40 Rdi,
      Lea retaddr Rax, Store Rsp 48 Rdi, Store Rax 56 Rdi, Stmxcsr 64 Rdi, Fnstcw 68 Rdi,
      Move Rsi Rsp, Jmp Rdx]"

definition retaddr_code :: "instr list" where
  "retaddr_code = [Ret]"

definition load_context_code :: "instr list" where
  "load_context_code =
     [Load 0 Rdi Rbx, Load 8 Rdi Rbp, Load 16 Rdi Xr12, Load 24 Rdi Xr13, Load 32 Rdi Xr14, Load 40 Rdi Xr15,
      Load 48 Rdi Rsp, Load 56 Rdi Rax, Ldmxcsr 64 Rdi, Fldcw 68 Rdi, Jmp Rax]"

definition call_with_new_stack_code :: "instr list" where
  "call_with_new_stack_code = [Move Rdi Rsp, Jmp Rsi]"

definition co_memcpy_code :: "instr list" where
  "co_memcpy_code = [Move Rdx Rcx, Rep_Movsb, Ret]"

text \<open>\<open>context_switch\<close> of \<open>ctx_switch.s\<close>, which no source calls.\<close>

definition context_switch_code :: "instr list" where
  "context_switch_code =
     [Push Xr15, Push Xr14, Push Xr13, Push Xr12, Push Rbp, Push Rbx,
      Sub 4 Rsp, Fnstcw 0 Rsp, Sub 4 Rsp, Stmxcsr 0 Rsp,
      Store Rsp 0 Rsi, Load 0 Rdi Rsp,
      Ldmxcsr 0 Rsp, Add 4 Rsp, Fldcw 0 Rsp, Add 4 Rsp,
      Pop Rbx, Pop Rbp, Pop Xr12, Pop Xr13, Pop Xr14, Pop Xr15, Ret]"

section \<open>A context in memory\<close>

text \<open>The layout of \<open>context_t\<close>: 72 bytes.\<close>

definition ctx_at :: "u64 \<Rightarrow> (u64 \<Rightarrow> u8) \<Rightarrow> co_context" where
  "ctx_at p m = (let b = ram_get p 72 m in
     \<lparr>RBX = le64_get b, RBP = le64_get (drop 8 b), R12 = le64_get (drop 16 b), R13 = le64_get (drop 24 b),
      R14 = le64_get (drop 32 b), R15 = le64_get (drop 40 b), RSP = unat (le64_get (drop 48 b)),
      RIP = le64_get (drop 56 b), mxcsr = le32_get (drop 64 b), x87_cw = le32_get (drop 68 b)\<rparr>)"

definition cpu_of :: "machine \<Rightarrow> co_context" where
  "cpu_of M = \<lparr>RBX = regs M Rbx, RBP = regs M Rbp, R12 = regs M Xr12, R13 = regs M Xr13, R14 = regs M Xr14,
     R15 = regs M Xr15, RSP = unat (regs M Rsp), RIP = rip M, mxcsr = mx M, x87_cw = ucast (x87 M)\<rparr>"

text \<open>What \<open>save_context\<close> stores: the control word has two bytes, so the last two of the context stay.\<close>

definition saved_bytes :: "u64 \<Rightarrow> machine \<Rightarrow> block" where
  "saved_bytes retaddr M =
     le64_put (regs M Rbx) @ le64_put (regs M Rbp) @ le64_put (regs M Xr12) @ le64_put (regs M Xr13)
     @ le64_put (regs M Xr14) @ le64_put (regs M Xr15) @ le64_put (regs M Rsp) @ le64_put retaddr
     @ le32_put (mx M) @ le16_put (x87 M)"

lemma length_saved_bytes [simp]: "length (saved_bytes retaddr M) = 70"
  by (simp add: saved_bytes_def codec_simps)

lemma puts_append:
  assumes "n = of_nat (length bs)" "length bs + length cs < 2 ^ 64"
  shows "ram_put (a + n) cs (ram_put a bs m) = ram_put a (bs @ cs) m"
  using ram_put_append [OF assms(2)] assms(1) by simp

lemma save_context_exec:
  "exec_all (save_context_code retaddr) M =
     M\<lparr>regs := (regs M)(Rax := retaddr, Rsp := regs M Rsi), rip := regs M Rdx,
       ram := ram_put (regs M Rdi) (saved_bytes retaddr M) (ram M)\<rparr>"
  by (simp add: save_context_code_def saved_bytes_def puts_append codec_simps)

lemma ram_get_append: "ram_get a (n + k) m = ram_get a n m @ ram_get (a + of_nat n) k m"
  by (rule nth_equalityI) (auto simp: ram_get_def nth_append add.assoc simp flip: of_nat_add)

lemma ctx_bytes_saved:
  "ram_get p 72 (ram_put p (saved_bytes ra M) m) = saved_bytes ra M @ ram_get (p + 70) 2 m"
proof -
  have "separate p (length (saved_bytes ra M)) (p + 70) 2" by (simp add: separate_def)
  then have "ram_get (p + 70) 2 (ram_put p (saved_bytes ra M) m) = ram_get (p + 70) 2 m" by (rule ram_get_put_separate)
  moreover have "ram_get p 70 (ram_put p (saved_bytes ra M) m) = saved_bytes ra M"
    using ram_get_put [of "saved_bytes ra M" p m] by simp
  ultimately show ?thesis using ram_get_append [of p 70 2] by simp
qed

lemma get_put_append [simp]:
  "le64_get (le64_put v @ r) = v" "le32_get (le32_put u @ r) = u" "le16_get (le16_put x @ r) = x"
  by (simp_all add: le64.get_prefix le64.get_put le32.get_prefix le32.get_put le16.get_prefix le16.get_put)

lemma le32_of_le16: "le32_get (le16_put x @ [0, 0]) = ucast x"
  unfolding le16_put_def
  by simp (rule bit_word_eqI, auto simp: bit_simps dest: bit_imp_le_length)

lemma ctx_at_saved:
  assumes "ram_get (p + 70) 2 m = [0, 0]"
  shows "ctx_at p (ram_put p (saved_bytes ra M) m) = (cpu_of M)\<lparr>RIP := ra\<rparr>"
  unfolding ctx_at_def ctx_bytes_saved assms
  using le32_of_le16 [of "x87 M"] by (simp add: saved_bytes_def cpu_of_def codec_simps)

text \<open>Reading the fields of a context.\<close>

lemma ctx_field:
  assumes "b = ram_get p 72 m"
  shows "ram_get (p + 8) 8 m = take 8 (drop 8 b)" "ram_get (p + 16) 8 m = take 8 (drop 16 b)"
    "ram_get (p + 24) 8 m = take 8 (drop 24 b)" "ram_get (p + 32) 8 m = take 8 (drop 32 b)"
    "ram_get (p + 40) 8 m = take 8 (drop 40 b)" "ram_get (p + 48) 8 m = take 8 (drop 48 b)"
    "ram_get (p + 56) 8 m = take 8 (drop 56 b)" "ram_get (p + 64) 4 m = take 4 (drop 64 b)"
    "ram_get (p + 68) 2 m = take 2 (drop 68 b)" "ram_get p 8 m = take 8 b"
  using ram_get_slice [of 8 8 72 p m] ram_get_slice [of 16 8 72 p m] ram_get_slice [of 24 8 72 p m]
    ram_get_slice [of 32 8 72 p m] ram_get_slice [of 40 8 72 p m] ram_get_slice [of 48 8 72 p m]
    ram_get_slice [of 56 8 72 p m] ram_get_slice [of 64 4 72 p m] ram_get_slice [of 68 2 72 p m]
    ram_get_slice [of 0 8 72 p m] by (simp_all add: assms)

lemma field_take:
  "8 \<le> length b \<Longrightarrow> le64_get (take 8 b) = le64_get b"
  "4 \<le> length b \<Longrightarrow> le32_get (take 4 b) = le32_get b"
proof -
  have four: "4 \<le> length c \<Longrightarrow> le32_get (take n c) = le32_get c" if "4 \<le> n" for n c
    using that by (cases c rule: le32_get.cases) (auto simp: take_Cons' numeral_eq_Suc split: nat.splits)
  show "4 \<le> length b \<Longrightarrow> le32_get (take 4 b) = le32_get b" by (rule four) simp_all
  show "8 \<le> length b \<Longrightarrow> le64_get (take 8 b) = le64_get b"
    using four [of 8 b] four [of 4 "drop 4 b"] by (simp add: le64_get_def drop_take)
qed

lemma low_half:
  "ucast (ucast x OR push_bit 8 (ucast y) OR push_bit 16 (ucast z) OR push_bit 24 (ucast v) :: u32)
    = (ucast (x :: u8) OR push_bit 8 (ucast (y :: u8)) :: u16)"
  for z v :: u8
  by (rule bit_word_eqI) (auto simp: bit_simps dest: bit_imp_le_length)

lemma le16_of_le32: "4 \<le> length b \<Longrightarrow> ucast (le32_get b) = le16_get (take 2 b)"
  by (cases b rule: le32_get.cases) (auto simp: low_half)

lemma load_context_exec:
  "cpu_of (exec_all load_context_code M) =
     (ctx_at (regs M Rdi) (ram M))\<lparr>x87_cw := ucast (ucast (x87_cw (ctx_at (regs M Rdi) (ram M))) :: u16)\<rparr>"
  by (simp add: load_context_code_def ctx_field(1-9) [OF refl] ctx_field(10) [of _ "regs M Rdi", OF refl] field_take le16_of_le32 cpu_of_def ctx_at_def Let_def)

section \<open>The routine on the stack\<close>

text \<open>\<open>context_switch\<close> up to the new stack pointer, and from there.\<close>

definition push_code :: "instr list" where "push_code = take 11 context_switch_code"

definition pop_code :: "instr list" where "pop_code = drop 11 context_switch_code"

lemma switch_code: "exec_all context_switch_code M = exec_all pop_code (exec_all push_code M)"
  by (simp add: context_switch_code_def push_code_def pop_code_def)

definition frame_below :: "machine \<Rightarrow> (u64 \<Rightarrow> u8) \<Rightarrow> bool" where
  "frame_below M m \<longleftrightarrow> (let sp = regs M Rsp in
     le32_get (ram_get (sp - 56) 4 m) = mx M \<and> le16_get (ram_get (sp - 52) 2 m) = x87 M
     \<and> le64_get (ram_get (sp - 48) 8 m) = regs M Rbx \<and> le64_get (ram_get (sp - 40) 8 m) = regs M Rbp
     \<and> le64_get (ram_get (sp - 32) 8 m) = regs M Xr12 \<and> le64_get (ram_get (sp - 24) 8 m) = regs M Xr13
     \<and> le64_get (ram_get (sp - 16) 8 m) = regs M Xr14 \<and> le64_get (ram_get (sp - 8) 8 m) = regs M Xr15)"

lemma put_get_codec [simp]:
  "ram_get a 8 (ram_put a (le64_put v) m) = le64_put v"
  "ram_get a 4 (ram_put a (le32_put u) m) = le32_put u"
  "ram_get a 2 (ram_put a (le16_put h) m) = le16_put h"
  using ram_get_put [of "le64_put v" a m] ram_get_put [of "le32_put u" a m] ram_get_put [of "le16_put h" a m]
  by (simp_all add: codec_simps)

lemma push_exec:
  obtains m where "exec_all push_code M = M\<lparr>regs := (regs M)(Rsp := regs M Rsp - 56),
      ram := ram_put (regs M Rsi) (le64_put (regs M Rsp - 56)) m\<rparr>"
    "frame_below M m" "\<And>b k. separate (regs M Rsp - 56) 56 b k \<Longrightarrow> ram_get b k m = ram_get b k (ram M)"
proof -
  let ?sp = "regs M Rsp"
  define m where "m = ram_put (?sp - 56) (le32_put (mx M)) (ram_put (?sp - 52) (le16_put (x87 M))
    (ram_put (?sp - 48) (le64_put (regs M Rbx)) (ram_put (?sp - 40) (le64_put (regs M Rbp))
    (ram_put (?sp - 32) (le64_put (regs M Xr12)) (ram_put (?sp - 24) (le64_put (regs M Xr13))
    (ram_put (?sp - 16) (le64_put (regs M Xr14)) (ram_put (?sp - 8) (le64_put (regs M Xr15)) (ram M))))))))"
  show thesis
  proof (rule that [of m])
    show "exec_all push_code M = M\<lparr>regs := (regs M)(Rsp := ?sp - 56), ram := ram_put (regs M Rsi) (le64_put (?sp - 56)) m\<rparr>"
      by (simp add: push_code_def context_switch_code_def m_def)
    show "frame_below M m"
      by (simp add: frame_below_def m_def ram_get_put_separate separate_below codec_simps)
    fix b k assume s: "separate (?sp - 56) 56 b k"
    have "separate (?sp - 56) 4 b k" "separate (?sp - 52) 2 b k" "separate (?sp - 48) 8 b k" "separate (?sp - 40) 8 b k"
      "separate (?sp - 32) 8 b k" "separate (?sp - 24) 8 b k" "separate (?sp - 16) 8 b k" "separate (?sp - 8) 8 b k"
      using separate_within [OF s, of 0 4] separate_within [OF s, of 4 2] separate_within [OF s, of 8 8]
        separate_within [OF s, of 16 8] separate_within [OF s, of 24 8] separate_within [OF s, of 32 8]
        separate_within [OF s, of 40 8] separate_within [OF s, of 48 8] by simp_all
    then show "ram_get b k m = ram_get b k (ram M)" by (simp add: m_def ram_get_put_separate codec_simps)
  qed
qed

lemma pop_exec:
  assumes "load64 (regs N Rdi) N = regs M Rsp - 56" "frame_below M (ram N)" "N' = exec_all pop_code N"
  shows "rip N' = load64 (regs M Rsp) N \<and> regs N' Rsp = regs M Rsp + 8 \<and> mx N' = mx M \<and> x87 N' = x87 M
    \<and> map (regs N') [Rbx, Rbp, Xr12, Xr13, Xr14, Xr15] = map (regs M) [Rbx, Rbp, Xr12, Xr13, Xr14, Xr15]"
  using assms(2) unfolding assms(3) by (simp add: pop_code_def context_switch_code_def assms(1) frame_below_def Let_def)

text \<open>The frame is 56 bytes of memory.\<close>

lemma frame_below_cong:
  assumes "ram_get (regs M Rsp - 56) 56 m = ram_get (regs M Rsp - 56) 56 m'"
  shows "frame_below M m = frame_below M m'"
proof -
  let ?a = "regs M Rsp - 56"
  have "ram_get (?a + of_nat off) n m = ram_get (?a + of_nat off) n m'" if "off + n \<le> 56" for off n
    using assms ram_get_slice [OF that, of ?a] by simp
  from this [of 0 4] this [of 4 2] this [of 8 8] this [of 16 8] this [of 24 8] this [of 32 8] this [of 40 8] this [of 48 8]
  show ?thesis by (simp add: frame_below_def Let_def)
qed

section \<open>The machine under the model\<close>

text \<open>The machine is where the model is: it is about to call a routine on the saved context \<open>p\<close> of the
  running coroutine, whose last two bytes are zero since the constructor. What \<open>p\<close> holds is what the model
  has saved.\<close>

definition context_clean :: "u64 \<Rightarrow> machine \<Rightarrow> bool" where
  "context_clean p M \<longleftrightarrow> regs M Rdi = p \<and> ram_get (p + 70) 2 (ram M) = [0, 0]"

definition same_cpu :: "machine \<Rightarrow> world \<Rightarrow> bool" where
  "same_cpu M w \<longleftrightarrow> (cpu w)\<lparr>RIP := rip M\<rparr> = cpu_of M"

definition holds_context :: "u64 \<Rightarrow> machine \<Rightarrow> world \<Rightarrow> bool" where
  "holds_context p M w \<longleftrightarrow> (\<exists>i. current w = Some i \<and> saved_registers w i = Some (ctx_at p (ram M)))"

lemma x87_of_clean:
  assumes "ram_get (p + 70) 2 m = [0, 0]"
  shows "ucast (ucast (x87_cw (ctx_at p m)) :: u16) = x87_cw (ctx_at p m)"
proof -
  have "ram_get p 72 m = ram_get p 70 m @ [0, 0]" using ram_get_append [of p 70 2 m] assms by simp
  then have "drop 68 (ram_get p 72 m) = drop 68 (ram_get p 70 m) @ [0, 0]" by simp
  moreover obtain a b where "drop 68 (ram_get p 70 m) = [a, b]"
  proof -
    have "length (drop 68 (ram_get p 70 m)) = 2" by simp
    then show thesis using that by (auto simp: numeral_2_eq_2 length_Suc_conv simp del: length_drop)
  qed
  ultimately have "x87_cw (ctx_at p m) = ucast a OR push_bit 8 (ucast b)" by (simp add: ctx_at_def Let_def)
  then show ?thesis by simp (rule bit_word_eqI, auto simp: bit_simps dest: bit_imp_le_length)
qed

section \<open>Properties\<close>

text \<open>C11: the model of the context switch is what the instructions do. After \<open>save_context\<close> the memory
  holds the context the model has saved, the registers are the model's and the handler runs; and
  \<open>load_context\<close> of a context leaves the machine with exactly the registers, the stack pointer and the
  instruction pointer of the model.\<close>

theorem swapper_refines:
  assumes "current w = Some i" "cos w i = Some c" "context_clean p M" "same_cpu M w"
    and "unat (regs M Rsi) = at_static_stack im" "M' = exec_all (save_context_code (at_retaddr im)) M"
    and "holds_context p N v" "context_clean p N" "N' = exec_all load_context_code N"
  shows "(\<exists>w'. save_context im w = Inr w' \<and> holds_context p M' w' \<and> same_cpu M' w' \<and> rip M' = regs M Rdx
      \<and> context_clean p M')
    \<and> (\<exists>v'. load_context v = Inr v' \<and> cpu v' = cpu_of N')"
proof
  have clean: "ram_get (p + 70) 2 (ram M) = [0, 0]" "regs M Rdi = p"
    using assms(3) by (simp_all add: context_clean_def)
  have cpu: "(cpu w)\<lparr>RIP := x\<rparr> = (cpu_of M)\<lparr>RIP := x\<rparr>" for x
    using arg_cong [OF assms(4) [unfolded same_cpu_def], of "RIP_update (\<lambda>_. x)"] by simp
  have "separate p 70 (p + 70) 2" by (simp add: separate_def)
  then have kept: "ram_get (p + 70) 2 (ram_put p (saved_bytes (at_retaddr im) M) (ram M)) = [0, 0]"
    using ram_get_put_separate [of p "saved_bytes (at_retaddr im) M" "p + 70" 2] clean by simp
  have "same_cpu M' (w\<lparr>cpu := (cpu w)\<lparr>RSP := at_static_stack im\<rparr>\<rparr>)"
    using cpu [of "regs M Rdx"] assms(5,6)
    by (cases "cpu w") (simp add: same_cpu_def save_context_exec cpu_of_def)
  then show "\<exists>w'. save_context im w = Inr w' \<and> holds_context p M' w' \<and> same_cpu M' w' \<and> rip M' = regs M Rdx
      \<and> context_clean p M'"
    using assms(1,2,6) clean kept ctx_at_saved [OF clean(1), of "at_retaddr im" M] cpu [of "at_retaddr im"]
    by (simp add: save_context_def deref_def set_co_def holds_context_def same_cpu_def context_clean_def
        saved_registers_def save_context_exec)
  obtain j d where j: "current v = Some j" "cos v j = Some d" "saved_ctx d = ctx_at p (ram N)"
    using assms(7) by (auto simp: holds_context_def saved_registers_def)
  have "cpu_of N' = ctx_at p (ram N)"
    using assms(8,9) x87_of_clean [of p "ram N"] by (simp add: load_context_exec context_clean_def)
  with j show "\<exists>v'. load_context v = Inr v' \<and> cpu v' = cpu_of N'"
    by (simp add: load_context_def deref_def)
qed

definition demo_machine :: machine where
  "demo_machine = \<lparr>regs = (\<lambda>_. 7)(Rdi := 0x1000, Rsi := 0x2000, Rdx := 0x4000, Rsp := 0x8000, Rbx := 1, Xr15 := 15),
     rip = 0x400, mx = 0x1f80, x87 = 0x37f, ram = \<lambda>_. 0\<rparr>"

definition demo_saved :: world where
  "demo_saved = demo_world\<lparr>cos := (cos demo_world)(1 :=
     Some ((coroutine_new demo_image 7 0 True)\<lparr>saved_ctx := ctx_at 0x1000 (ram demo_machine)\<rparr>))\<rparr>"

theorem swapper_refines_witness:
  "(\<exists>w'. save_context demo_image (demo_world\<lparr>cpu := cpu_of demo_machine\<rparr>) = Inr w'
      \<and> holds_context 0x1000 (exec_all (save_context_code (at_retaddr demo_image)) demo_machine) w')
    \<and> (\<exists>v'. load_context demo_saved = Inr v' \<and> cpu v' = cpu_of (exec_all load_context_code demo_machine))"
proof -
  have clean: "context_clean 0x1000 demo_machine"
    by (simp add: context_clean_def demo_machine_def ram_get_def numeral_2_eq_2)
  have cpu: "same_cpu demo_machine (demo_world\<lparr>cpu := cpu_of demo_machine\<rparr>)"
    by (simp add: same_cpu_def cpu_of_def)
  have saved: "holds_context 0x1000 demo_machine demo_saved"
    by (simp add: holds_context_def demo_saved_def demo_world_def saved_registers_def)
  have cos: "current (demo_world\<lparr>cpu := x\<rparr>) = Some 1"
    "cos (demo_world\<lparr>cpu := x\<rparr>) 1 = Some ((coroutine_new demo_image 7 0 True)\<lparr>co_stack_ptr := Some 4, stack_copy := None\<rparr>)"
    for x by (simp_all add: demo_world_def)
  have "unat (regs demo_machine Rsi) = at_static_stack demo_image"
    by (simp add: demo_machine_def demo_image_def)
  from swapper_refines [OF cos clean cpu this refl saved clean refl] show ?thesis by blast
qed

text \<open>C22: a switch away and back is a plain call. If the saved context and the return address on the
  stack are still there when \<open>load_context\<close> runs, the \<open>ret\<close> at \<open>retaddr\<close> returns to the caller of
  \<open>save_context\<close> with its stack pointer, the registers a callee must preserve and both control words.\<close>

theorem save_load_returns:
  assumes "M1 = exec_all (save_context_code ra) M" "regs N Rdi = regs M Rdi"
    and "ram_get (regs M Rdi) 70 (ram N) = ram_get (regs M Rdi) 70 (ram M1)"
    and "load64 (regs M Rsp) N = load64 (regs M Rsp) M"
    and "N1 = exec_all load_context_code N" "N2 = exec_all retaddr_code N1"
  shows "rip N1 = ra \<and> rip N2 = load64 (regs M Rsp) M \<and> regs N2 Rsp = regs M Rsp + 8
    \<and> map (regs N2) [Rbx, Rbp, Xr12, Xr13, Xr14, Xr15] = map (regs M) [Rbx, Rbp, Xr12, Xr13, Xr14, Xr15]
    \<and> mx N2 = mx M \<and> x87 N2 = x87 M"
proof -
  let ?p = "regs M Rdi"
  have "ram_get ?p 70 (ram N) = saved_bytes ra M"
    using assms(1,3) ram_get_put [of "saved_bytes ra M" ?p] by (simp add: save_context_exec)
  then have b: "ram_get ?p 72 (ram N) = saved_bytes ra M @ ram_get (?p + 70) 2 (ram N)"
    using ram_get_append [of ?p 70 2 "ram N"] by simp
  note f = ctx_field(1-9) [OF b [symmetric]] ctx_field(10) [of _ ?p, OF b [symmetric]]
  have "rip N1 = ra" "regs N1 Rsp = regs M Rsp" "mx N1 = mx M" "x87 N1 = x87 M" "ram N1 = ram N"
    "map (regs N1) [Rbx, Rbp, Xr12, Xr13, Xr14, Xr15] = map (regs M) [Rbx, Rbp, Xr12, Xr13, Xr14, Xr15]"
    using assms(2,5) by (simp_all add: load_context_code_def f saved_bytes_def codec_simps)
  then show ?thesis using assms(4,6) by (simp add: retaddr_code_def)
qed

theorem save_load_returns_witness:
  "rip (exec_all retaddr_code (exec_all load_context_code (exec_all (save_context_code 0x500) demo_machine))) = 0
    \<and> regs (exec_all retaddr_code (exec_all load_context_code (exec_all (save_context_code 0x500) demo_machine))) Rsp = 0x8008"
proof -
  let ?N = "exec_all (save_context_code 0x500) demo_machine"
  have "separate 0x1000 (length (saved_bytes 0x500 demo_machine)) 0x8000 8" by (simp add: separate_def)
  note keep = ram_get_put_separate [OF this]
  have "regs ?N Rdi = regs demo_machine Rdi" by (simp add: save_context_exec)
  moreover have "load64 (regs demo_machine Rsp) ?N = load64 (regs demo_machine Rsp) demo_machine"
    using keep [of "ram demo_machine"] by (simp add: save_context_exec demo_machine_def)
  moreover have "load64 (regs demo_machine Rsp) demo_machine = 0"
    by (simp add: demo_machine_def ram_get_def le64_get_def eval_nat_numeral)
  ultimately show ?thesis
    using save_load_returns [of ?N "0x500" demo_machine ?N, OF refl _ refl _ refl refl] by (simp add: demo_machine_def)
qed

text \<open>\<open>co_memcpy\<close> copies, and returns to its caller.\<close>

theorem co_memcpy_copies:
  assumes "separate (regs M Rdi) (unat (regs M Rdx)) (regs M Rsi) (unat (regs M Rdx))"
    and "separate (regs M Rdi) (unat (regs M Rdx)) (regs M Rsp) 8" "M' = exec_all co_memcpy_code M"
  shows "ram M' = ram_put (regs M Rdi) (ram_get (regs M Rsi) (unat (regs M Rdx)) (ram M)) (ram M)
    \<and> rip M' = load64 (regs M Rsp) M \<and> regs M' Rsp = regs M Rsp + 8"
proof -
  have "unat (regs M Rdx) < 2 ^ 64" using unsigned_less [of "regs M Rdx", where ?'a = nat] by simp
  note copy = rep_movsb_copies [OF assms(1) this]
  show ?thesis
    using assms(2,3) ram_get_put_separate [of "regs M Rdi" _ "regs M Rsp" 8] by (simp add: co_memcpy_code_def copy)
qed


text \<open>\<open>context_switch\<close>, called on one stack and called back from another, returns to its first
  caller with its stack pointer, its registers and its control words, when the slots and frames of the
  two calls do not overlap and nobody wrote to the frame in between.\<close>

theorem context_switch_returns:
  assumes "M1 = exec_all push_code M" "N1 = exec_all context_switch_code N"
    and "separate (regs M Rsi) 8 (regs M Rsp - 56) 56" "separate (regs M Rsi) 8 (regs M Rsp) 8"
    and "regs N Rdi = regs M Rsi" "load64 (regs M Rsi) N = load64 (regs M Rsi) M1"
    and "ram_get (regs M Rsp - 56) 56 (ram N) = ram_get (regs M Rsp - 56) 56 (ram M1)"
    and "load64 (regs M Rsp) N = load64 (regs M Rsp) M1"
    and "separate (regs N Rsp - 56) 56 (regs M Rsp - 56) 56" "separate (regs N Rsi) 8 (regs M Rsp - 56) 56"
    and "separate (regs N Rsp - 56) 56 (regs M Rsp) 8" "separate (regs N Rsi) 8 (regs M Rsp) 8"
    and "separate (regs N Rsp - 56) 56 (regs M Rsi) 8" "separate (regs N Rsi) 8 (regs M Rsi) 8"
  shows "rip N1 = load64 (regs M Rsp) M \<and> regs N1 Rsp = regs M Rsp + 8 \<and> mx N1 = mx M \<and> x87 N1 = x87 M
    \<and> map (regs N1) [Rbx, Rbp, Xr12, Xr13, Xr14, Xr15] = map (regs M) [Rbx, Rbp, Xr12, Xr13, Xr14, Xr15]"
proof -
  obtain m where m: "M1 = M\<lparr>regs := (regs M)(Rsp := regs M Rsp - 56), ram := ram_put (regs M Rsi) (le64_put (regs M Rsp - 56)) m\<rparr>"
    "frame_below M m" "\<And>b k. separate (regs M Rsp - 56) 56 b k \<Longrightarrow> ram_get b k m = ram_get b k (ram M)"
    using push_exec [of M] assms(1) by metis
  obtain n where n: "exec_all push_code N = N\<lparr>regs := (regs N)(Rsp := regs N Rsp - 56), ram := ram_put (regs N Rsi) (le64_put (regs N Rsp - 56)) n\<rparr>"
    "\<And>b k. separate (regs N Rsp - 56) 56 b k \<Longrightarrow> ram_get b k n = ram_get b k (ram N)"
    using push_exec [of N] by metis
  let ?N = "exec_all push_code N"
  have keep: "ram_get b k (ram ?N) = ram_get b k (ram N)"
    if "separate (regs N Rsp - 56) 56 b k" "separate (regs N Rsi) 8 b k" for b k
    using that n by (simp add: ram_get_put_separate codec_simps)
  have own: "ram_get b k (ram M1) = ram_get b k m" if "separate (regs M Rsi) 8 b k" for b k
    using that by (simp add: m(1) ram_get_put_separate codec_simps)
  have "separate (regs M Rsp - 56) 56 (regs M Rsp) 8" by (simp add: separate_def)
  then have ret: "load64 (regs M Rsp) ?N = load64 (regs M Rsp) M"
    using assms(4,8) keep [OF assms(11,12)] own m(3) by simp
  have "ram_get (regs M Rsp - 56) 56 (ram ?N) = ram_get (regs M Rsp - 56) 56 m"
    using keep [OF assms(9,10)] own [OF assms(3)] assms(7) by simp
  then have "frame_below M (ram ?N)" using frame_below_cong m(2) by blast
  moreover have "load64 (regs ?N Rdi) ?N = regs M Rsp - 56"
    using keep [OF assms(13,14)] assms(5,6) n(1) by (simp add: m(1) codec_simps)
  ultimately show ?thesis
    using pop_exec [of ?N M N1] assms(2) ret by (simp add: switch_code)
qed

definition demo_other :: machine where
  "demo_other = (exec_all push_code (demo_machine\<lparr>regs := (regs demo_machine)(Rsi := 0x1000)\<rparr>))
     \<lparr>regs := (\<lambda>_. 3)(Rdi := 0x1000, Rsi := 0x1100, Rsp := 0x9000)\<rparr>"

theorem context_switch_returns_witness:
  "let M = demo_machine\<lparr>regs := (regs demo_machine)(Rsi := 0x1000)\<rparr>; N1 = exec_all context_switch_code demo_other
   in rip N1 = load64 0x8000 M \<and> regs N1 Rsp = 0x8008 \<and> regs N1 Rbx = 1 \<and> regs N1 Xr15 = 15"
  using context_switch_returns [of _ "demo_machine\<lparr>regs := (regs demo_machine)(Rsi := 0x1000)\<rparr>" _ demo_other, OF refl refl]
  by (simp add: demo_other_def separate_def demo_machine_def Let_def)

end
