(* ===== verification/Relay_Session.thy ===== *)
theory Relay_Session
  imports Udp_Bridge
begin

text \<open>
  The UDP relay over time: after any sequence of datagrams, those \<open>foward\<close> drops included, the map of peers is
  exactly what the history says, and a DATA message reaches its destination exactly when the destination is in
  it. Were none dropped, the map would hold the addresses heard from within the last 60 seconds.
\<close>

section \<open>Histories\<close>

record datagram =
  d_at :: int
  d_junk :: "int \<times> int"
  d_ip :: block
  d_port :: block
  d_buffer :: byte_buffer

definition d_sender :: "datagram \<Rightarrow> address" where
  "d_sender x = inet_address (d_ip x) (d_port x)"

text \<open>The newest datagram comes first. A call of \<open>foward\<close> reads one time throughout.\<close>

fun relay_run :: "((string \<times> string) list list \<Rightarrow> block) \<Rightarrow> datagram list \<Rightarrow> peer_map outcome" where
  "relay_run dump [] = Inr []"
| "relay_run dump (x # xs) =
     and_then (relay_run dump xs) (\<lambda>m.
     and_then (foward dump (d_junk x) (d_at x) (\<lambda>_. d_at x) (d_buffer x) (d_sender x) m) (\<lambda>(m, b, sent). Inr m))"

fun last_heard :: "datagram list \<Rightarrow> address \<Rightarrow> int option" where
  "last_heard [] a = None"
| "last_heard (x # xs) a = (if same_key address_less a (d_sender x) then Some (d_at x) else last_heard xs a)"

text \<open>The time of the last activity of \<open>a\<close>, when it was not purged since.\<close>

definition active_since :: "datagram list \<Rightarrow> address \<Rightarrow> int option" where
  "active_since xs a =
     (case last_heard xs a of None \<Rightarrow> None | Some t \<Rightarrow> if d_at (hd xs) \<le> t + 60 then Some t else None)"

text \<open>A datagram \<open>foward\<close> accepts, when \<open>known\<close> are the peers: PING, PONG and INFO, and DATA with a payload for the
  sender itself or a peer. The others (of an unknown type, too short, for an unknown address) make it return early.\<close>

definition destination :: "block \<Rightarrow> address" where
  "destination bs = inet_address (take 4 (drop 2 bs)) (take 2 (drop 6 bs))"

definition accepted :: "(address \<Rightarrow> int option) \<Rightarrow> datagram \<Rightarrow> bool" where
  "accepted known x \<longleftrightarrow> (case buf_bytes (d_buffer x) of [] \<Rightarrow> False
     | c # bs \<Rightarrow> c = PING \<or> c = PONG \<or> c = INFO
         \<or> c = DATA \<and> 8 < length (c # bs)
           \<and> (same_key address_less (destination (c # bs)) (d_sender x) \<or> known (destination (c # bs)) \<noteq> None))"

text \<open>What the history makes of one address: the time under which it is filed, if it is. An accepted datagram
  sets the time of its sender and removes every other address older than 60 seconds; a dropped one removes
  nobody, and files an unknown sender under the indeterminate time of its constructor.\<close>

fun peer_time :: "datagram list \<Rightarrow> address \<Rightarrow> int option" where
  "peer_time [] a = None"
| "peer_time (x # xs) a =
     (if accepted (peer_time xs) x then
        if same_key address_less a (d_sender x) then Some (d_at x)
        else (case peer_time xs a of None \<Rightarrow> None | Some t \<Rightarrow> if t + 60 < d_at x then None else Some t)
      else if same_key address_less a (d_sender x) \<and> peer_time xs a = None then Some (fst (d_junk x))
      else peer_time xs a)"

text \<open>The accepted datagrams of a history.\<close>

fun kept :: "datagram list \<Rightarrow> datagram list" where
  "kept [] = []"
| "kept (x # xs) = (if accepted (peer_time xs) x then x # kept xs else kept xs)"

definition datagram_ok :: "datagram \<Rightarrow> bool" where
  "datagram_ok x \<longleftrightarrow> length (d_ip x) = 4 \<and> length (d_port x) = 2 \<and> buf_wf (d_buffer x) \<and> buf_bytes (d_buffer x) \<noteq> []"

section \<open>Lemmas\<close>

lemma peer_time_same_key: "same_key address_less a b \<Longrightarrow> peer_time xs a = peer_time xs b"
  by (induction xs) (auto simp: same_key_address)

lemma length_kept: "length (kept xs) \<le> length xs"
  by (induction xs) auto

text \<open>In terms of the accepted datagrams alone: who was heard from within 60 seconds is filed under that time; and
  nobody else is, when none was dropped.\<close>

lemma peer_time_active:
  assumes "sorted_wrt (\<ge>) (map d_at (kept xs))" "active_since (kept xs) a \<noteq> None \<or> kept xs = xs"
  shows "peer_time xs a = active_since (kept xs) a"
  using assms
proof (induction xs)
  case Nil
  then show ?case by (simp add: active_since_def)
next
  case (Cons x xs)
  show ?case
  proof (cases "accepted (peer_time xs) x")
    case False
    then have k: "kept (x # xs) = kept xs" by simp
    with Cons.prems(2) length_kept [of xs] have act: "active_since (kept xs) a \<noteq> None" by auto
    with Cons.IH Cons.prems(1) k have "peer_time xs a = active_since (kept xs) a" by simp
    with act False show ?thesis by auto
  next
    case True
    then have k: "kept (x # xs) = x # kept xs" by simp
    have sorted: "sorted_wrt (\<ge>) (map d_at (kept xs))" "kept xs \<noteq> [] \<longrightarrow> d_at (hd (kept xs)) \<le> d_at x"
      using Cons.prems(1) k by (cases "kept xs"; simp)+
    show ?thesis
    proof (cases "same_key address_less a (d_sender x)")
      case same: True
      with True k show ?thesis by (simp add: active_since_def)
    next
      case other: False
      then have step: "active_since (x # kept xs) a =
          (case active_since (kept xs) a of None \<Rightarrow> None | Some t \<Rightarrow> if t + 60 < d_at x then None else Some t)"
        using sorted(2) by (cases "kept xs") (auto simp: active_since_def split: option.splits)
      with Cons.prems(2) k have "active_since (kept xs) a \<noteq> None \<or> kept xs = xs" by (auto split: option.splits)
      with Cons.IH [OF sorted(1)] True other step k show ?thesis by simp
    qed
  qed
qed

definition knows :: "datagram list \<Rightarrow> peer_map \<Rightarrow> bool" where
  "knows xs m \<longleftrightarrow> peers_inv m \<and> (\<forall>a. map_option last_active (map_find address_less a m) = peer_time xs a)"

lemma data_split:
  assumes "8 < length bs" "hd bs = DATA"
  obtains t payload where "bs = data_message t (take 4 (drop 2 bs)) (take 2 (drop 6 bs)) payload" "payload \<noteq> []"
proof -
  obtain t rest where bs: "bs = DATA # t # rest" "6 < length rest"
    using assms by (cases bs; cases "tl bs") auto
  have "rest = take 4 rest @ take 2 (drop 4 rest) @ drop 2 (drop 4 rest)"
    by (simp only: append_take_drop_id)
  moreover have "drop 2 (drop 4 rest) \<noteq> []" using bs(2) by simp
  ultimately show thesis using that [of t "drop 2 (drop 4 rest)"] bs(1) by (simp add: data_message_def)
qed

lemma header_fields:
  assumes "buf_wf b" "buf_bytes b = data_message t dip dport payload" "length dip = 4" "length dport = 2"
  shows "buf_load b 2 4 = Inr dip" "buf_load b 6 2 = Inr dport"
proof -
  have blk: "buf_block b = data_message t dip dport payload @ drop (buf_size b) (buf_block b)"
    using assms(2) append_take_drop_id [of "buf_size b" "buf_block b"] by (simp add: buf_bytes_def)
  show "buf_load b 2 4 = Inr dip" "buf_load b 6 2 = Inr dport"
    unfolding buf_load_def by (subst blk, use assms(3,4) in \<open>simp add: mem_load_def data_message_def\<close>)+
qed

lemma relay_data_unknown:
  assumes b: "buf_wf b" "buf_bytes b = data_message t dip dport payload" "payload \<noteq> []"
    and l: "length dip = 4" "length dport = 2" and "map_find address_less (inet_address dip dport) m = None"
  shows "relay_data b a m = Inr None"
proof -
  have "length (buf_bytes b) = buf_size b" using b(1) by (simp add: buf_simps)
  then have "8 < buf_size b" using b(2,3) l by (cases payload) (simp_all add: data_message_def)
  then show ?thesis
    using assms(6) header_fields [OF b(1,2) l] l by (simp add: relay_data_def header_address_inet)
qed

lemma knows_destination:
  assumes "knows xs m"
  shows "(map_find address_less d (with_sender junk a m) = None) \<longleftrightarrow> \<not> same_key address_less d a \<and> peer_time xs d = None"
proof -
  have inv: "peers_inv m" and k: "map_option last_active (map_find address_less d m) = peer_time xs d"
    using assms by (simp_all add: knows_def)
  have "(peer_time xs d = None) \<longleftrightarrow> (map_find address_less d m = None)" by (simp flip: k)
  with inv with_sender(2) [OF inv, of d junk a] with_sender(3) [OF inv, of a junk] adr.find_same_key [of d a "with_sender junk a m"] show ?thesis by auto
qed

lemma foward_refreshes:
  assumes "knows xs m" "datagram_ok x" "accepted (peer_time xs) x"
  shows "\<exists>q b sent. map_find address_less (d_sender x) (with_sender (d_junk x) (d_sender x) m) = Some q
    \<and> foward dump (d_junk x) (d_at x) clock (d_buffer x) (d_sender x) m = Inr (peer_purge clock 0
        (map_assign address_less (d_sender x) (keep_alive (d_at x) q) (with_sender (d_junk x) (d_sender x) m)), b, sent)"
proof -
  let ?a = "d_sender x" and ?m = "with_sender (d_junk x) (d_sender x) m"
  have inv: "peers_inv m" and wf: "buf_wf (d_buffer x)" "length (d_ip x) = 4" "length (d_port x) = 2"
    using assms(1,2) by (simp_all add: knows_def datagram_ok_def)
  obtain q where q: "map_find address_less ?a ?m = Some q" using with_sender(3) [OF inv] by blast
  note r = refresh_ok(1) [OF with_sender(1) [OF inv] q, where now = "d_at x" and clock = clock]
  obtain c bs where bs: "buf_bytes (d_buffer x) = c # bs"
    using assms(3) by (auto simp: accepted_def split: list.splits)
  note h = header_byte [OF wf(1) bs]
  show ?thesis
  proof (cases "c = DATA")
    case False
    then have "c = PING \<or> c = PONG \<or> c = INFO" using assms(3) bs by (auto simp: accepted_def)
    with q r h show ?thesis by (auto simp: foward_def Let_def)
  next
    case True
    let ?d = "destination (c # bs)"
    have len: "8 < length (c # bs)" "same_key address_less ?d ?a \<or> peer_time xs ?d \<noteq> None"
      using assms(3) bs True by (auto simp: accepted_def)
    with knows_destination [OF assms(1), of ?d "d_junk x" ?a]
    obtain p where p: "map_find address_less ?d ?m = Some p" by auto
    have hd: "hd (c # bs) = DATA" using True by simp
    obtain t payload where pl: "c # bs = data_message t (take 4 (drop 2 (c # bs))) (take 2 (drop 6 (c # bs))) payload" "payload \<noteq> []"
      by (rule data_split [OF len(1) hd])
    have dl: "length (take 4 (drop 2 (c # bs))) = 4" "length (take 2 (drop 6 (c # bs))) = 2" using len(1) by simp_all
    have "\<exists>b sent. relay_data (d_buffer x) ?a ?m = Inr (Some (b, sent))"
      unfolding d_sender_def [of x]
      using relay_data_known [OF wf(1) trans [OF bs pl(1)] pl(2) dl wf(2,3), of ?m p] p
      unfolding destination_def d_sender_def by blast
    with q r h True show ?thesis by (auto simp: foward_def Let_def)
  qed
qed

lemma foward_drops:
  assumes "knows xs m" "datagram_ok x" "\<not> accepted (peer_time xs) x"
  shows "foward dump (d_junk x) now clock (d_buffer x) (d_sender x) m =
    Inr (with_sender (d_junk x) (d_sender x) m, d_buffer x, [])"
proof -
  have wf: "buf_wf (d_buffer x)" using assms(2) by (simp add: datagram_ok_def)
  obtain c bs where bs: "buf_bytes (d_buffer x) = c # bs"
    using assms(2) by (cases "buf_bytes (d_buffer x)") (auto simp: datagram_ok_def)
  note h = header_byte [OF wf bs]
  have "relay_data (d_buffer x) (d_sender x) (with_sender (d_junk x) (d_sender x) m) = Inr None" if "c = DATA"
  proof (cases "8 < length (c # bs)")
    case False
    have "length (buf_bytes (d_buffer x)) = buf_size (d_buffer x)" using wf by (simp add: buf_simps)
    with False bs show ?thesis by (simp add: relay_data_def)
  next
    case True
    have hd: "hd (c # bs) = DATA" using that by simp
    obtain t payload where pl: "c # bs = data_message t (take 4 (drop 2 (c # bs))) (take 2 (drop 6 (c # bs))) payload" "payload \<noteq> []"
      by (rule data_split [OF True hd])
    have dl: "length (take 4 (drop 2 (c # bs))) = 4" "length (take 2 (drop 6 (c # bs))) = 2" using True by simp_all
    have "\<not> same_key address_less (destination (c # bs)) (d_sender x) \<and> peer_time xs (destination (c # bs)) = None"
      using assms(3) bs that True by (auto simp: accepted_def)
    then have "map_find address_less (destination (c # bs)) (with_sender (d_junk x) (d_sender x) m) = None"
      using knows_destination [OF assms(1)] by blast
    then show ?thesis
      using relay_data_unknown [OF wf trans [OF bs pl(1)] pl(2) dl] by (simp add: destination_def)
  qed
  moreover have "c \<noteq> PING" "c \<noteq> PONG" "c \<noteq> INFO" using assms(3) bs by (auto simp: accepted_def)
  ultimately show ?thesis using h by (simp add: foward_def Let_def)
qed

lemma purge_now:
  assumes "map_ordered address_less m"
  shows "map_find address_less j (peer_purge (\<lambda>_. now) k m) =
    (case map_find address_less j m of None \<Rightarrow> None | Some p \<Rightarrow> if last_active p + 60 < now then None else Some p)"
  using find_peer_purge [OF assms, of now "\<lambda>_. now" now j k] by (auto split: option.splits)

lemma knows_refresh:
  assumes "knows xs m" "accepted (peer_time xs) x"
    and q: "map_find address_less (d_sender x) (with_sender (d_junk x) (d_sender x) m) = Some q"
  shows "knows (x # xs) (peer_purge (\<lambda>_. d_at x) 0
    (map_assign address_less (d_sender x) (keep_alive (d_at x) q) (with_sender (d_junk x) (d_sender x) m)))"
proof -
  let ?a = "d_sender x" and ?m = "with_sender (d_junk x) (d_sender x) m"
  let ?r = "map_assign address_less ?a (keep_alive (d_at x) q) ?m"
  have inv: "peers_inv m" using assms(1) by (simp add: knows_def)
  note ws = with_sender [OF inv]
  have r: "peers_inv ?r" "map_ordered address_less ?r"
    using peers_inv_refresh [OF ws(1) q] by (simp_all add: peers_inv_def)
  have look: "map_find address_less j ?r = (if same_key address_less j ?a then Some (keep_alive (d_at x) q) else map_find address_less j m)" for j
    using adr.find_assign [of ?a ?m j] q ws(2) [of j] by auto
  have "map_option last_active (map_find address_less j (peer_purge (\<lambda>_. d_at x) 0 ?r)) = peer_time (x # xs) j" for j
  proof -
    have "map_option last_active (map_find address_less j m) = peer_time xs j"
      using assms(1) by (simp add: knows_def)
    with assms(2) show ?thesis
      unfolding purge_now [OF r(2)] look by (auto simp: keep_alive_def split: option.splits)
  qed
  with peers_inv_purge [OF r(1)] show ?thesis unfolding knows_def by blast
qed

lemma knows_dropped:
  assumes "knows xs m" "\<not> accepted (peer_time xs) x"
  shows "knows (x # xs) (with_sender (d_junk x) (d_sender x) m)"
proof -
  have inv: "peers_inv m" using assms(1) by (simp add: knows_def)
  have old: "map_option last_active (map_find address_less j m) = peer_time xs j" for j
    using assms(1) by (simp add: knows_def)
  have "map_option last_active (map_find address_less j (with_sender (d_junk x) (d_sender x) m)) = peer_time (x # xs) j" for j
    using assms(2) old [of j] adr.find_same_key [of j "d_sender x" m]
    unfolding with_sender(2) [OF inv] by (auto simp: peer_new_def simp flip: old)
  with with_sender(1) [OF inv] show ?thesis unfolding knows_def by blast
qed

lemma relay_run_knows: "list_all datagram_ok xs \<Longrightarrow> \<exists>m. relay_run dump xs = Inr m \<and> knows xs m"
proof (induction xs)
  case Nil
  then show ?case by (simp add: knows_def peers_inv_def)
next
  case (Cons x xs)
  then obtain m where m: "relay_run dump xs = Inr m" "knows xs m" and x: "datagram_ok x" by auto
  show ?case
  proof (cases "accepted (peer_time xs) x")
    case True
    from foward_refreshes [OF m(2) x True, where clock = "\<lambda>_. d_at x" and dump = dump]
    obtain q b sent where q: "map_find address_less (d_sender x) (with_sender (d_junk x) (d_sender x) m) = Some q"
      and f: "foward dump (d_junk x) (d_at x) (\<lambda>_. d_at x) (d_buffer x) (d_sender x) m = Inr (peer_purge (\<lambda>_. d_at x) 0
          (map_assign address_less (d_sender x) (keep_alive (d_at x) q) (with_sender (d_junk x) (d_sender x) m)), b, sent)"
      by blast
    from knows_refresh [OF m(2) True q] f m(1) show ?thesis by simp
  next
    case False
    from knows_dropped [OF m(2) False] foward_drops [OF m(2) x False, where dump = dump] m(1) show ?thesis by simp
  qed
qed

section \<open>Properties\<close>

text \<open>C10: over any history of datagrams, dropped ones included, the relay implements the history: its map holds
  exactly the addresses, with exactly the times, of \<open>peer_time\<close>, and a DATA message for another address is sent
  to that address alone, with the sender's address in its header, when the address is one of them, and to nobody
  otherwise. When the clock does not run back, whoever sent an accepted datagram within 60 seconds of the newest
  accepted one is filed under the time of its last one; when no datagram was dropped, these are all. A dropped
  one adds an unknown sender under an indeterminate time.\<close>

theorem relay_delivers_to_active:
  assumes "list_all datagram_ok xs" "buf_wf b" "buf_bytes b = data_message t dip dport payload" "payload \<noteq> []"
    and "length dip = 4" "length dport = 2" "length sip = 4" "length sport = 2"
    and "\<not> same_key address_less (inet_address dip dport) (inet_address sip sport)"
  shows "\<exists>m m' b' sent. relay_run dump xs = Inr m
    \<and> (\<forall>a. map_option last_active (map_find address_less a m) = peer_time xs a)
    \<and> (sorted_wrt (\<ge>) (map d_at (kept xs)) \<longrightarrow> (\<forall>a. active_since (kept xs) a \<noteq> None \<or> kept xs = xs
        \<longrightarrow> peer_time xs a = active_since (kept xs) a))
    \<and> foward dump junk now clock b (inet_address sip sport) m = Inr (m', b', sent)
    \<and> (case peer_time xs (inet_address dip dport) of
         None \<Rightarrow> sent = []
       | Some s \<Rightarrow> \<exists>a. addr_key a = addr_key (inet_address dip dport) \<and> sent = [(a, data_message t sip sport payload)])"
proof -
  let ?d = "inet_address dip dport" and ?a = "inet_address sip sport"
  obtain m where m: "relay_run dump xs = Inr m" "knows xs m" using relay_run_knows [OF assms(1)] by blast
  then have inv: "peers_inv m" and k: "\<forall>j. map_option last_active (map_find address_less j m) = peer_time xs j"
    by (simp_all add: knows_def)
  have d: "map_find address_less ?d (with_sender junk ?a m) = map_find address_less ?d m"
    using with_sender(2) [OF inv, of ?d junk ?a] assms(9) by simp
  have h: "buf_load b 0 HEADER_SIZE = Inr [DATA]"
    by (rule header_byte [OF assms(2), of _ "t # dip @ dport @ payload"]) (simp add: assms(3) data_message_def)
  obtain q where q: "map_find address_less ?a (with_sender junk ?a m) = Some q" using with_sender(3) [OF inv] by blast
  note r = refresh_ok(1) [OF with_sender(1) [OF inv] q, where now = now and clock = clock]
  have "\<exists>m' b' sent. foward dump junk now clock b ?a m = Inr (m', b', sent) \<and> (case peer_time xs ?d of None \<Rightarrow> sent = []
       | Some s \<Rightarrow> \<exists>a. addr_key a = addr_key ?d \<and> sent = [(a, data_message t sip sport payload)])"
  proof (cases "map_find address_less ?d m")
    case None
    then have "peer_time xs ?d = None" using k by (metis option.map(1))
    with relay_data_unknown [OF assms(2-6), of "with_sender junk ?a m" ?a] None d h show ?thesis
      by (simp add: foward_def Let_def)
  next
    case (Some p)
    then have p: "map_find address_less ?d (with_sender junk ?a m) = Some p" using d by simp
    have "addr_key (peer_addr p) = addr_key ?d" using inv Some by (auto simp: peers_inv_def)
    moreover have "peer_time xs ?d = Some (last_active p)" using k Some by (metis option.map(2))
    ultimately show ?thesis
      using relay_data_known [OF assms(2-8) p] h r by (simp add: foward_def Let_def)
  qed
  with m(1) k peer_time_active show ?thesis by blast
qed

text \<open>A PING from one peer at time 10, then a datagram of an unknown type from an address nobody knows, filed under
  an indeterminate time. A minute after the PING, a DATA message for either arrives.\<close>

definition demo_history :: "datagram list" where
  "demo_history = [\<lparr>d_at = 12, d_junk = (7, 7), d_ip = [10, 0, 0, 9], d_port = [0, 9], d_buffer = demo_buffer [9]\<rparr>,
     \<lparr>d_at = 10, d_junk = (0, 0), d_ip = [10, 0, 0, 2], d_port = [1, 2], d_buffer = demo_buffer [0]\<rparr>]"

theorem relay_delivers_to_active_witness:
  "\<exists>m m' b' a. relay_run (\<lambda>_. []) demo_history = Inr m \<and> active_since (kept demo_history) demo_b = Some 10
    \<and> map_option last_active (map_find address_less (inet_address [10, 0, 0, 9] [0, 9]) m) = Some 7
    \<and> foward (\<lambda>_. []) (0, 0) 70 (\<lambda>_. 70) (demo_buffer [3, 0, 10, 0, 0, 2, 1, 2, 65]) demo_a m =
      Inr (m', b', [(a, [3, 0, 10, 0, 0, 1, 3, 4, 65])])"
proof -
  let ?c = "inet_address [10, 0, 0, 9] [0, 9]"
  have ok: "list_all datagram_ok demo_history" by (simp add: demo_history_def datagram_ok_def)
  have keys: "\<not> same_key address_less (inet_address [10, 0, 0, 2] [1, 2]) (inet_address [10, 0, 0, 1] [3, 4])"
    using demo_keys(4) by (simp add: demo_a_def demo_b_def)
  have other: "\<not> same_key address_less ?c demo_b" by (simp add: demo_b_def same_key_address addr_key_def inet_address_def sockaddr_in_def)
  have kept: "kept demo_history = [demo_history ! 1]" by (simp add: demo_history_def accepted_def)
  have act: "active_since (kept demo_history) demo_b = Some 10"
    unfolding kept by (simp add: demo_history_def active_since_def d_sender_def demo_b_def adr.same_key_refl)
  have junk: "peer_time demo_history ?c = Some 7"
    using other by (simp add: demo_history_def accepted_def d_sender_def demo_b_def adr.same_key_refl)
  have l: "[65] \<noteq> ([] :: u8 list)" "length [10, 0, 0, 2 :: u8] = 4" "length [1, 2 :: u8] = 2"
    "length [10, 0, 0, 1 :: u8] = 4" "length [3, 4 :: u8] = 2" by simp_all
  have "buf_wf (demo_buffer [3, 0, 10, 0, 0, 2, 1, 2, 65])"
    "buf_bytes (demo_buffer [3, 0, 10, 0, 0, 2, 1, 2, 65]) = data_message 0 [10, 0, 0, 2] [1, 2] [65]"
    by (simp_all add: data_message_def)
  from relay_delivers_to_active [OF ok this l keys, of "\<lambda>_. []" "(0, 0)" 70 "\<lambda>_. 70"]
  obtain m m' b' sent where m: "relay_run (\<lambda>_. []) demo_history = Inr m"
    "\<forall>a. map_option last_active (map_find address_less a m) = peer_time demo_history a"
    "sorted_wrt (\<ge>) (map d_at (kept demo_history)) \<longrightarrow> (\<forall>a. active_since (kept demo_history) a \<noteq> None
        \<or> kept demo_history = demo_history \<longrightarrow> peer_time demo_history a = active_since (kept demo_history) a)"
    "foward (\<lambda>_. []) (0, 0) 70 (\<lambda>_. 70) (demo_buffer [3, 0, 10, 0, 0, 2, 1, 2, 65]) demo_a m = Inr (m', b', sent)"
    "case peer_time demo_history demo_b of None \<Rightarrow> sent = []
      | Some s \<Rightarrow> \<exists>a. addr_key a = addr_key demo_b \<and> sent = [(a, data_message 0 [10, 0, 0, 1] [3, 4] [65])]"
    unfolding demo_a_def demo_b_def by blast
  have "sorted_wrt (\<ge>) (map d_at (kept demo_history))" by (simp add: kept)
  with m(3) act have "peer_time demo_history demo_b = Some 10" by auto
  with m(5) obtain a where "sent = [(a, [3, 0, 10, 0, 0, 1, 3, 4, 65])]" by (auto simp: data_message_def)
  moreover have "map_option last_active (map_find address_less ?c m) = Some 7" using m(2) junk by simp
  ultimately show ?thesis using m(1,4) act by blast
qed

end
