(* ===== verification/Buffer_Heap.thy ===== *)
theory Buffer_Heap
  imports Byte_Buffer
begin

text \<open>
  \<open>lib/bytebuffer.hpp\<close> with the memory it manages: an object holds the address of its block, every
  \<open>new[]\<close> and \<open>delete[]\<close> of the class is a step on the heap, and objects are made and destroyed. This is the
  level at which a block can leak, be deleted twice or be read after its end. \<open>buffers\<close> reads off the value of
  each object as the record of \<open>Byte_Buffer\<close>, on which the rest of the development works.
  An address is one the allocator returned; \<open>new[]\<close> is taken to succeed.
\<close>

section \<open>State\<close>

record buf_obj =
  obj_ptr :: "nat option"
  obj_size :: nat

record buf_heap =
  blocks :: "nat \<Rightarrow> block option"
  objs :: "nat \<Rightarrow> buf_obj option"

text \<open>The object \<open>k\<close>, the memory a pointer points to, and a store to it. Nothing is readable at the null
  pointer; a pointer to a block that is gone may not be used.\<close>

definition obj_at :: "buf_heap \<Rightarrow> nat \<Rightarrow> buf_obj outcome" where
  "obj_at h k = (case objs h k of None \<Rightarrow> Inl Undefined_Behaviour | Some ob \<Rightarrow> Inr ob)"

definition mem_at :: "buf_heap \<Rightarrow> nat option \<Rightarrow> block outcome" where
  "mem_at h p =
     (case p of None \<Rightarrow> Inr []
      | Some a \<Rightarrow> (case blocks h a of None \<Rightarrow> Inl Undefined_Behaviour | Some m \<Rightarrow> Inr m))"

definition set_mem :: "nat option \<Rightarrow> block \<Rightarrow> buf_heap \<Rightarrow> buf_heap" where
  "set_mem p m h = (case p of None \<Rightarrow> h | Some a \<Rightarrow> h\<lparr>blocks := (blocks h)(a := Some m)\<rparr>)"

definition set_obj :: "nat \<Rightarrow> buf_obj \<Rightarrow> buf_heap \<Rightarrow> buf_heap" where
  "set_obj k ob h = h\<lparr>objs := (objs h)(k := Some ob)\<rparr>"

text \<open>\<open>delete[] p\<close>: the null pointer is ignored, a block that is gone may not be deleted.\<close>

definition delete_array :: "nat option \<Rightarrow> buf_heap \<Rightarrow> buf_heap outcome" where
  "delete_array p h =
     (case p of None \<Rightarrow> Inr h
      | Some a \<Rightarrow> (case blocks h a of None \<Rightarrow> Inl Undefined_Behaviour
                  | Some m \<Rightarrow> Inr (h\<lparr>blocks := (blocks h)(a := None)\<rparr>)))"

section \<open>Constructors and destructor\<close>

definition heap_default :: "nat \<Rightarrow> buf_heap \<Rightarrow> buf_heap outcome" where
  "heap_default k h = Inr (set_obj k \<lparr>obj_ptr = None, obj_size = 0\<rparr> h)"

definition heap_sized :: "nat \<Rightarrow> (nat \<Rightarrow> u8) \<Rightarrow> nat \<Rightarrow> nat \<Rightarrow> buf_heap \<Rightarrow> buf_heap outcome" where
  "heap_sized a g n k h =
     Inr (set_obj k \<lparr>obj_ptr = Some a, obj_size = n\<rparr> (set_mem (Some a) (new_array g n) h))"

definition heap_from_ptr :: "nat \<Rightarrow> (nat \<Rightarrow> u8) \<Rightarrow> block \<Rightarrow> nat \<Rightarrow> nat \<Rightarrow> buf_heap \<Rightarrow> buf_heap outcome" where
  "heap_from_ptr a g src len k h =
     and_then (heap_sized a g len k h) (\<lambda>h.
     and_then (mem_load src 0 len) (\<lambda>bs.
     and_then (mem_at h (Some a)) (\<lambda>m.
     and_then (mem_store m 0 bs) (\<lambda>m.
     Inr (set_mem (Some a) m h)))))"

text \<open>The copy constructor makes \<open>k\<close> from \<open>j\<close>, the move constructor as well.\<close>

definition heap_copy :: "nat \<Rightarrow> (nat \<Rightarrow> u8) \<Rightarrow> nat \<Rightarrow> nat \<Rightarrow> buf_heap \<Rightarrow> buf_heap outcome" where
  "heap_copy a g j k h =
     and_then (obj_at h j) (\<lambda>buffer.
     and_then (mem_at h (obj_ptr buffer)) (\<lambda>src.
     heap_from_ptr a g src (obj_size buffer) k h))"

definition heap_move :: "nat \<Rightarrow> nat \<Rightarrow> buf_heap \<Rightarrow> buf_heap outcome" where
  "heap_move j k h =
     and_then (obj_at h j) (\<lambda>buffer.
     Inr (set_obj j (buffer\<lparr>obj_ptr := None, obj_size := 0\<rparr>)
           (set_obj k \<lparr>obj_ptr = obj_ptr buffer, obj_size = obj_size buffer\<rparr> h)))"

definition heap_delete :: "nat \<Rightarrow> buf_heap \<Rightarrow> buf_heap outcome" where
  "heap_delete k h =
     and_then (obj_at h k) (\<lambda>ob.
     and_then (delete_array (obj_ptr ob) h) (\<lambda>h.
     Inr (h\<lparr>objs := (objs h)(k := None)\<rparr>)))"

section \<open>Access\<close>

text \<open>\<open>new_ptr = new uint8_t[size_ * 2]; bcopy(\<dots>); delete[] ptr_; ptr_ = new_ptr;\<close>.\<close>

definition heap_double :: "nat \<Rightarrow> (nat \<Rightarrow> u8) \<Rightarrow> nat \<Rightarrow> buf_heap \<Rightarrow> buf_heap outcome" where
  "heap_double a g k h =
     and_then (obj_at h k) (\<lambda>ob.
     and_then (mem_at h (obj_ptr ob)) (\<lambda>old.
     and_then (mem_load old 0 (obj_size ob)) (\<lambda>bs.
     and_then (mem_store (new_array g (size_mul (obj_size ob) 2)) 0 bs) (\<lambda>m.
     and_then (delete_array (obj_ptr ob) (set_mem (Some a) m h)) (\<lambda>h.
     Inr (set_obj k (ob\<lparr>obj_ptr := Some a\<rparr>) h))))))"

definition heap_index :: "nat \<Rightarrow> (nat \<Rightarrow> u8) \<Rightarrow> nat \<Rightarrow> nat \<Rightarrow> buf_heap \<Rightarrow> buf_heap outcome" where
  "heap_index a g k index h =
     and_then (obj_at h k) (\<lambda>ob.
     if obj_size ob < index then heap_double a g k h else Inr h)"

definition heap_resize :: "nat \<Rightarrow> (nat \<Rightarrow> u8) \<Rightarrow> nat \<Rightarrow> nat \<Rightarrow> buf_heap \<Rightarrow> buf_heap outcome" where
  "heap_resize a g k n h =
     and_then (obj_at h k) (\<lambda>ob.
     and_then (if obj_size ob < n then heap_double a g k h else Inr h) (\<lambda>h.
     and_then (obj_at h k) (\<lambda>ob.
     Inr (set_obj k (ob\<lparr>obj_size := n\<rparr>) h))))"

definition heap_fill :: "nat \<Rightarrow> block \<Rightarrow> nat \<Rightarrow> nat \<Rightarrow> buf_heap \<Rightarrow> buf_heap outcome" where
  "heap_fill k buf n offset h =
     and_then (obj_at h k) (\<lambda>ob.
     let to_copy = size_sub (obj_size ob) offset;
         to_copy = (if n < to_copy then n else to_copy)
     in and_then (mem_load buf 0 to_copy) (\<lambda>bs.
        and_then (mem_at h (obj_ptr ob)) (\<lambda>m.
        and_then (mem_store m offset bs) (\<lambda>m.
        Inr (set_mem (obj_ptr ob) m h)))))"

section \<open>What a program does with its buffers\<close>

datatype buf_call =
    B_Default nat
  | B_Sized nat "nat \<Rightarrow> u8" nat nat
  | B_From nat "nat \<Rightarrow> u8" block nat nat
  | B_Copy nat "nat \<Rightarrow> u8" nat nat
  | B_Move nat nat
  | B_Delete nat
  | B_Index nat "nat \<Rightarrow> u8" nat nat
  | B_Resize nat "nat \<Rightarrow> u8" nat nat
  | B_Fill nat block nat nat

fun heap_do :: "buf_call \<Rightarrow> buf_heap \<Rightarrow> buf_heap outcome" where
  "heap_do (B_Default k) h = heap_default k h"
| "heap_do (B_Sized a g n k) h = heap_sized a g n k h"
| "heap_do (B_From a g src n k) h = heap_from_ptr a g src n k h"
| "heap_do (B_Copy a g j k) h = heap_copy a g j k h"
| "heap_do (B_Move j k) h = heap_move j k h"
| "heap_do (B_Delete k) h = heap_delete k h"
| "heap_do (B_Index a g k i) h = heap_index a g k i h"
| "heap_do (B_Resize a g k n) h = heap_resize a g k n h"
| "heap_do (B_Fill k src n off) h = heap_fill k src n off h"

fun heap_run :: "buf_call list \<Rightarrow> buf_heap \<Rightarrow> buf_heap outcome" where
  "heap_run [] h = Inr h"
| "heap_run (c # cs) h = and_then (heap_do c h) (heap_run cs)"

text \<open>The same calls on values: the operations of \<open>Byte_Buffer\<close>.\<close>

type_synonym buf_values = "nat \<Rightarrow> byte_buffer option"

definition at_obj :: "buf_values \<Rightarrow> nat \<Rightarrow> (byte_buffer \<Rightarrow> buf_values outcome) \<Rightarrow> buf_values outcome" where
  "at_obj V k f = (case V k of None \<Rightarrow> Inl Undefined_Behaviour | Some b \<Rightarrow> f b)"

fun value_do :: "buf_call \<Rightarrow> buf_values \<Rightarrow> buf_values outcome" where
  "value_do (B_Default k) V = Inr (V(k \<mapsto> buf_default))"
| "value_do (B_Sized a g n k) V = Inr (V(k \<mapsto> buf_sized g n))"
| "value_do (B_From a g src n k) V = and_then (buf_from_ptr src n) (\<lambda>b. Inr (V(k \<mapsto> b)))"
| "value_do (B_Copy a g j k) V = at_obj V j (\<lambda>b. and_then (buf_copy b) (\<lambda>c. Inr (V(k \<mapsto> c))))"
| "value_do (B_Move j k) V = at_obj V j (\<lambda>b. Inr (V(k \<mapsto> fst (buf_move b), j \<mapsto> snd (buf_move b))))"
| "value_do (B_Delete k) V = at_obj V k (\<lambda>b. Inr (V(k := None)))"
| "value_do (B_Index a g k i) V = at_obj V k (\<lambda>b. and_then (buf_index g b i) (\<lambda>b. Inr (V(k \<mapsto> b))))"
| "value_do (B_Resize a g k n) V = at_obj V k (\<lambda>b. and_then (buf_resize g b n) (\<lambda>b. Inr (V(k \<mapsto> b))))"
| "value_do (B_Fill k src n off) V =
     at_obj V k (\<lambda>b. and_then (buf_fill b src n off) (\<lambda>(b, _). Inr (V(k \<mapsto> b))))"

fun value_run :: "buf_call list \<Rightarrow> buf_values \<Rightarrow> buf_values outcome" where
  "value_run [] V = Inr V"
| "value_run (c # cs) V = and_then (value_do c V) (value_run cs)"

text \<open>\<open>new[]\<close> returns an address that is not in use, and an object is made where there is none.\<close>

fun buf_allowed :: "buf_call \<Rightarrow> buf_heap \<Rightarrow> bool" where
  "buf_allowed (B_Default k) h = (objs h k = None)"
| "buf_allowed (B_Sized a g n k) h = (objs h k = None \<and> blocks h a = None)"
| "buf_allowed (B_From a g src n k) h = (objs h k = None \<and> blocks h a = None)"
| "buf_allowed (B_Copy a g j k) h = (objs h k = None \<and> blocks h a = None)"
| "buf_allowed (B_Move j k) h = (objs h k = None)"
| "buf_allowed (B_Delete k) h = True"
| "buf_allowed (B_Index a g k i) h = (blocks h a = None)"
| "buf_allowed (B_Resize a g k n) h = (blocks h a = None)"
| "buf_allowed (B_Fill k src n off) h = True"

fun run_allowed_on :: "buf_call list \<Rightarrow> buf_heap \<Rightarrow> bool" where
  "run_allowed_on [] h = True"
| "run_allowed_on (c # cs) h =
     (buf_allowed c h \<and> (case heap_do c h of Inl _ \<Rightarrow> True | Inr h' \<Rightarrow> run_allowed_on cs h'))"

section \<open>Values and ownership\<close>

definition value_of :: "buf_heap \<Rightarrow> buf_obj \<Rightarrow> byte_buffer" where
  "value_of h ob =
     \<lparr>buf_ptr = (case obj_ptr ob of None \<Rightarrow> None | Some a \<Rightarrow> blocks h a), buf_size = obj_size ob\<rparr>"

definition buffers :: "buf_heap \<Rightarrow> buf_values" where
  "buffers h k = map_option (value_of h) (objs h k)"

definition owner :: "buf_heap \<Rightarrow> nat \<Rightarrow> nat \<Rightarrow> bool" where
  "owner h k a \<longleftrightarrow> (\<exists>ob. objs h k = Some ob \<and> obj_ptr ob = Some a)"

text \<open>Each block has exactly one owner, and no object points to a block that is gone.\<close>

definition heap_ok :: "buf_heap \<Rightarrow> bool" where
  "heap_ok h \<longleftrightarrow> (\<forall>a. blocks h a \<noteq> None \<longleftrightarrow> (\<exists>k. owner h k a)) \<and> (\<forall>j k a. owner h j a \<and> owner h k a \<longrightarrow> j = k)"

lemma heap_okD:
  assumes "heap_ok h" "objs h k = Some ob" "obj_ptr ob = Some a"
  shows "\<exists>m. blocks h a = Some m"
    "objs h j = Some ob' \<Longrightarrow> obj_ptr ob' = Some a \<Longrightarrow> j = k"
  using assms unfolding heap_ok_def owner_def by blast+

text \<open>A step after which the object \<open>k\<close> is \<open>q\<close>, on a new block or the one it had, with contents \<open>m\<close>; a block
  it had and has no longer is gone.\<close>

definition step_on :: "nat \<Rightarrow> buf_obj option \<Rightarrow> block \<Rightarrow> buf_heap \<Rightarrow> buf_heap \<Rightarrow> bool" where
  "step_on k q m h h' \<longleftrightarrow> objs h' = (objs h)(k := q)
     \<and> (\<forall>a. blocks h' a = (if q \<noteq> None \<and> obj_ptr (the q) = Some a then Some m
                          else if owner h k a then None else blocks h a))
     \<and> (\<forall>a. q \<noteq> None \<and> obj_ptr (the q) = Some a \<longrightarrow> blocks h a = None \<or> owner h k a)"

lemma step_on_ok:
  assumes ok: "heap_ok h" and st: "step_on k q m h h'"
  shows "heap_ok h'"
    "buffers h' = (buffers h)(k := map_option (\<lambda>ob. \<lparr>buf_ptr = map_option (\<lambda>_. m) (obj_ptr ob), buf_size = obj_size ob\<rparr>) q)"
proof -
  let ?new = "\<lambda>a. q \<noteq> None \<and> obj_ptr (the q) = Some a"
  have used: "blocks h a \<noteq> None \<longleftrightarrow> (\<exists>j. owner h j a)" and one: "owner h i a \<Longrightarrow> owner h j a \<Longrightarrow> i = j" for i j a
    using ok unfolding heap_ok_def by blast+
  have o: "owner h' j a \<longleftrightarrow> (if j = k then ?new a else owner h j a)" for j a
    using st by (auto simp: step_on_def owner_def)
  have b: "blocks h' a = (if ?new a then Some m else if owner h k a then None else blocks h a)" for a
    using st by (simp add: step_on_def)
  have free: "\<not> ?new a" if "owner h j a" "j \<noteq> k" for j a
    using st that used one unfolding step_on_def by metis
  have "blocks h' a \<noteq> None \<longleftrightarrow> (\<exists>j. owner h' j a)" for a
    unfolding o b using used one by (metis option.distinct(1))
  moreover have "i = j" if "owner h' i a" "owner h' j a" for i j a
    using that free one unfolding o by (metis (full_types))
  ultimately show "heap_ok h'" unfolding heap_ok_def by blast
  show "buffers h' = (buffers h)(k := map_option (\<lambda>ob. \<lparr>buf_ptr = map_option (\<lambda>_. m) (obj_ptr ob), buf_size = obj_size ob\<rparr>) q)"
  proof
    fix j
    have obj: "objs h' j = (if j = k then q else objs h j)" using st by (simp add: step_on_def)
    show "buffers h' j = ((buffers h)(k := map_option (\<lambda>ob. \<lparr>buf_ptr = map_option (\<lambda>_. m) (obj_ptr ob), buf_size = obj_size ob\<rparr>) q)) j"
    proof (cases "j = k")
      case True
      then show ?thesis using obj b by (cases q) (auto simp: buffers_def value_of_def split: option.splits)
    next
      case False
      have "blocks h' a = blocks h a" if "objs h j = Some ob" "obj_ptr ob = Some a" for ob a
      proof -
        have "owner h j a" using that by (auto simp: owner_def)
        with False show ?thesis using free one b by metis
      qed
      then show ?thesis using False obj
        by (cases "objs h j") (auto simp: buffers_def value_of_def split: option.splits)
    qed
  qed
qed

lemma owner_other: "heap_ok h \<Longrightarrow> blocks h a = None \<Longrightarrow> \<not> owner h k a"
  unfolding heap_ok_def by blast

lemma mem_at_value:
  "heap_ok h \<Longrightarrow> objs h k = Some ob \<Longrightarrow> mem_at h (obj_ptr ob) = Inr (buf_block (value_of h ob))"
  using heap_okD(1) by (fastforce simp: mem_at_def value_of_def buf_block_def split: option.splits)

section \<open>Each call\<close>

text \<open>What a call on the heap does is what it does on the values, and ownership is kept.\<close>

definition refines :: "buf_values outcome \<Rightarrow> buf_heap outcome \<Rightarrow> bool" where
  "refines v r \<longleftrightarrow> (case r of Inl e \<Rightarrow> v = Inl e | Inr h' \<Rightarrow> heap_ok h' \<and> v = Inr (buffers h'))"

lemma and_then_assoc: "and_then (and_then r f) g = and_then r (\<lambda>x. and_then (f x) g)"
  by (cases r) simp_all

lemma refines_Inl [simp]: "refines v (Inl e) \<longleftrightarrow> v = Inl e"
  by (simp add: refines_def)

lemma refines_step:
  assumes "heap_ok h" "step_on k q m h h'"
    and "V = (buffers h)(k := map_option (\<lambda>ob. \<lparr>buf_ptr = map_option (\<lambda>_. m) (obj_ptr ob), buf_size = obj_size ob\<rparr>) q)"
  shows "refines (Inr V) (Inr h')"
  using step_on_ok [OF assms(1,2)] assms(3) by (simp add: refines_def)

lemma obj_at_buffers:
  "at_obj (buffers h) k f = and_then (obj_at h k) (\<lambda>ob. f (value_of h ob))"
  by (simp add: at_obj_def buffers_def obj_at_def split: option.splits)

lemma value_of_objs [simp]: "value_of (h\<lparr>objs := x\<rparr>) = value_of h"
  by (auto simp: value_of_def fun_eq_iff split: option.split)

lemma obj_at_Inr: "obj_at h k = Inr ob \<longleftrightarrow> objs h k = Some ob"
  by (auto simp: obj_at_def split: option.splits)

lemmas heap_ops = set_obj_def set_mem_def step_on_def

lemma refines_default:
  assumes "heap_ok h" "objs h k = None"
  shows "refines (value_do (B_Default k) (buffers h)) (heap_default k h)"
  unfolding heap_default_def value_do.simps
  by (rule refines_step [OF assms(1), where k = k and q = "Some \<lparr>obj_ptr = None, obj_size = 0\<rparr>"])
    (use assms(2) in \<open>auto simp: heap_ops buf_default_def owner_def\<close>)

lemma refines_new:
  assumes "heap_ok h" "objs h k = None" "blocks h a = None"
  shows "refines (value_do (B_Sized a g n k) (buffers h)) (heap_sized a g n k h)"
    "refines (value_do (B_From a g src n k) (buffers h)) (heap_from_ptr a g src n k h)"
proof -
  have own: "\<not> owner h k x" for x using assms(2) by (simp add: owner_def)
  show "refines (value_do (B_Sized a g n k) (buffers h)) (heap_sized a g n k h)" unfolding heap_sized_def value_do.simps
    by (rule refines_step [OF assms(1), where k = k and q = "Some \<lparr>obj_ptr = Some a, obj_size = n\<rparr>"
          and m = "new_array g n"])
      (auto simp: heap_ops own buf_sized_def assms(3))
  show "refines (value_do (B_From a g src n k) (buffers h)) (heap_from_ptr a g src n k h)"
  proof (cases "n \<le> length src")
    case True
    then have "heap_from_ptr a g src n k h = Inr (set_obj k \<lparr>obj_ptr = Some a, obj_size = n\<rparr> (set_mem (Some a) (take n src) h))"
      by (simp add: heap_from_ptr_def heap_sized_def mem_simps mem_at_def heap_ops)
    moreover have "refines (value_do (B_From a g src n k) (buffers h))
        (Inr (set_obj k \<lparr>obj_ptr = Some a, obj_size = n\<rparr> (set_mem (Some a) (take n src) h)))"
      unfolding value_do.simps buf_from_ptr_Inr [OF True] and_then_simps
      by (rule refines_step [OF assms(1), where k = k and q = "Some \<lparr>obj_ptr = Some a, obj_size = n\<rparr>"
            and m = "take n src"])
        (auto simp: heap_ops own assms(3))
    ultimately show ?thesis by simp
  next
    case False
    then show ?thesis by (simp add: heap_from_ptr_def heap_sized_def buf_from_ptr_def mem_load_def)
  qed
qed

lemma refines_copy:
  assumes "heap_ok h" "objs h k = None" "blocks h a = None"
  shows "refines (value_do (B_Copy a g j k) (buffers h)) (heap_copy a g j k h)"
proof (cases "objs h j")
  case (Some ob)
  then have "value_do (B_Copy a g j k) (buffers h) =
      value_do (B_From a g (buf_block (value_of h ob)) (obj_size ob) k) (buffers h)"
    by (simp add: obj_at_buffers obj_at_def buf_copy_def value_of_def)
  then show ?thesis
    using Some refines_new(2) [OF assms] mem_at_value [OF assms(1) Some]
    by (simp add: heap_copy_def obj_at_def)
qed (simp add: heap_copy_def obj_at_buffers obj_at_def)

lemma refines_delete:
  assumes "heap_ok h"
  shows "refines (value_do (B_Delete k) (buffers h)) (heap_delete k h)"
proof (cases "objs h k")
  case (Some ob)
  obtain h' where h': "heap_delete k h = Inr h'" "step_on k None [] h h'"
    using Some heap_okD(1) [OF assms Some]
    by (cases "obj_ptr ob") (auto simp: heap_delete_def delete_array_def obj_at_def heap_ops owner_def)
  have "value_do (B_Delete k) (buffers h) = Inr ((buffers h)(k := None))"
    using Some by (simp add: obj_at_buffers obj_at_def)
  then show ?thesis using refines_step [OF assms h'(2)] h'(1) by simp
qed (simp add: heap_delete_def obj_at_buffers obj_at_def)

lemma refines_move:
  assumes "heap_ok h" "objs h k = None"
  shows "refines (value_do (B_Move j k) (buffers h)) (heap_move j k h)"
proof (cases "objs h j")
  case (Some ob)
  then have jk: "j \<noteq> k" using assms(2) by auto
  define h' where "h' = set_obj j (ob\<lparr>obj_ptr := None, obj_size := 0\<rparr>)
    (set_obj k \<lparr>obj_ptr = obj_ptr ob, obj_size = obj_size ob\<rparr> h)"
  have o: "owner h' i a \<longleftrightarrow> (if i = k then owner h j a else i \<noteq> j \<and> owner h i a)" for i a
    using Some jk by (auto simp: h'_def heap_ops owner_def)
  have no: "\<not> owner h k a" for a using assms(2) by (simp add: owner_def)
  have used: "blocks h a \<noteq> None \<longleftrightarrow> (\<exists>i. owner h i a)" and one: "owner h i a \<Longrightarrow> owner h l a \<Longrightarrow> i = l" for i l a
    using assms(1) unfolding heap_ok_def by blast+
  have "(\<exists>i. owner h' i a) \<longleftrightarrow> (\<exists>i. owner h i a)" for a
  proof (cases "owner h j a")
    case True
    then show ?thesis using o [of k a] by auto
  next
    case False
    then show ?thesis using o no [of a] by (metis (full_types))
  qed
  moreover have "i = l" if "owner h' i a" "owner h' l a" for i l a
  proof (cases "owner h j a")
    case True
    then have "owner h' n a \<Longrightarrow> n = k" for n using o [of n a] one [of j a n] by (auto split: if_splits)
    with that show ?thesis by blast
  next
    case False
    then have "owner h' n a \<Longrightarrow> owner h n a" for n using o [of n a] by (auto split: if_splits)
    with that one show ?thesis by blast
  qed
  moreover have "blocks h' = blocks h" by (simp add: h'_def heap_ops)
  ultimately have "heap_ok h'" using used unfolding heap_ok_def by metis
  moreover have "buffers h' = (buffers h)(k \<mapsto> fst (buf_move (value_of h ob)), j \<mapsto> snd (buf_move (value_of h ob)))"
    using Some jk by (auto simp: h'_def heap_ops buffers_def buf_move_def fun_eq_iff) (simp_all add: value_of_def)
  ultimately show ?thesis
    using Some by (simp add: refines_def heap_move_def obj_at_buffers obj_at_def h'_def)
qed (simp add: heap_move_def obj_at_buffers obj_at_def)

text \<open>The reallocation that \<open>operator[]\<close> and \<open>resize\<close> share.\<close>

lemma double_step:
  assumes "heap_ok h" "objs h k = Some ob" "blocks h a = None"
  shows "case heap_double a g k h of
      Inl e \<Rightarrow> buf_double g (value_of h ob) = Inl e
    | Inr h' \<Rightarrow> \<exists>m. step_on k (Some (ob\<lparr>obj_ptr := Some a\<rparr>)) m h h'
        \<and> buf_double g (value_of h ob) = Inr \<lparr>buf_ptr = Some m, buf_size = obj_size ob\<rparr>"
proof -
  let ?b = "value_of h ob"
  have size: "buf_size ?b = obj_size ob" by (simp add: value_of_def)
  have own: "owner h k x \<longleftrightarrow> obj_ptr ob = Some x" for x using assms(2) by (auto simp: owner_def)
  have old: "obj_ptr ob \<noteq> Some a" using heap_okD(1) [OF assms(1,2)] assms(3) by fastforce
  show ?thesis
  proof (cases "and_then (mem_load (buf_block ?b) 0 (obj_size ob)) (\<lambda>bs. mem_store (new_array g (size_mul (obj_size ob) 2)) 0 bs)")
    case (Inl e)
    then show ?thesis
      using mem_at_value [OF assms(1,2)] assms(2) size
      by (cases "mem_load (buf_block ?b) 0 (obj_size ob)") (simp_all add: heap_double_def obj_at_def buf_double_def)
  next
    case (Inr m)
    then obtain bs where bs: "mem_load (buf_block ?b) 0 (obj_size ob) = Inr bs"
      "mem_store (new_array g (size_mul (obj_size ob) 2)) 0 bs = Inr m" by (auto simp: and_then_Inr_iff)
    have val: "buf_double g ?b = Inr \<lparr>buf_ptr = Some m, buf_size = obj_size ob\<rparr>"
      using bs size by (simp add: buf_double_def value_of_def)
    define h1 where "h1 = h\<lparr>blocks := (\<lambda>x. if x = a then Some m else if obj_ptr ob = Some x then None else blocks h x)\<rparr>"
    have B: "(\<lambda>x. if x = a then Some m else if obj_ptr ob = Some x then None else blocks h x) =
      (case obj_ptr ob of None \<Rightarrow> (blocks h)(a \<mapsto> m) | Some p \<Rightarrow> (blocks h)(a \<mapsto> m, p := None))"
      using old by (auto simp: fun_eq_iff split: option.splits)
    have h1: "delete_array (obj_ptr ob) (set_mem (Some a) m h) = Inr h1"
      unfolding h1_def B using heap_okD(1) [OF assms(1,2)] old
      by (cases "obj_ptr ob") (fastforce simp: delete_array_def set_mem_def)+
    have "step_on k (Some (ob\<lparr>obj_ptr := Some a\<rparr>)) m h (set_obj k (ob\<lparr>obj_ptr := Some a\<rparr>) h1)"
      using assms(3) by (auto simp: step_on_def set_obj_def h1_def own)
    moreover have "heap_double a g k h = Inr (set_obj k (ob\<lparr>obj_ptr := Some a\<rparr>) h1)"
      using bs h1 mem_at_value [OF assms(1,2)] assms(2) by (simp add: heap_double_def obj_at_def)
    ultimately show ?thesis using val by auto
  qed
qed

lemma step_on_size:
  "step_on k (Some ob) m h h' \<Longrightarrow> step_on k (Some (ob\<lparr>obj_size := n\<rparr>)) m h (set_obj k (ob\<lparr>obj_size := n\<rparr>) h')"
  by (auto simp: step_on_def set_obj_def)

lemma step_on_set:
  assumes "heap_ok h" "objs h k = Some ob"
  shows "step_on k (Some ob) m h (set_mem (obj_ptr ob) m h)"
  using assms(2) by (cases "obj_ptr ob") (auto simp: heap_ops owner_def fun_upd_idem)

lemma step_on_self:
  assumes "heap_ok h" "objs h k = Some ob"
  shows "step_on k (Some ob) (buf_block (value_of h ob)) h h"
proof -
  have "set_mem (obj_ptr ob) (buf_block (value_of h ob)) h = h"
    using heap_okD(1) [OF assms] by (cases "obj_ptr ob") (auto simp: set_mem_def value_of_def fun_upd_idem)
  then show ?thesis using step_on_set [OF assms, of "buf_block (value_of h ob)"] by simp
qed

lemma buffers_self: "objs h k = Some ob \<Longrightarrow> (buffers h)(k \<mapsto> value_of h ob) = buffers h"
  by (auto simp: buffers_def fun_eq_iff)

lemma value_split:
  assumes "heap_ok h" "objs h k = Some ob"
  shows "value_of h ob = \<lparr>buf_ptr = map_option (\<lambda>_. buf_block (value_of h ob)) (obj_ptr ob), buf_size = obj_size ob\<rparr>"
  using heap_okD(1) [OF assms] by (cases "obj_ptr ob") (auto simp: value_of_def)

lemma refines_index:
  assumes "heap_ok h" "blocks h a = None"
  shows "refines (value_do (B_Index a g k i) (buffers h)) (heap_index a g k i h)"
proof (cases "objs h k")
  case (Some ob)
  have size: "buf_size (value_of h ob) = obj_size ob" by (simp add: value_of_def)
  show ?thesis
  proof (cases "obj_size ob < i")
    case True
    have "refines (and_then (buf_double g (value_of h ob)) (\<lambda>b. Inr ((buffers h)(k \<mapsto> b)))) (heap_double a g k h)"
    proof (cases "heap_double a g k h")
      case (Inr h')
      with double_step [OF assms(1) Some assms(2), of g] obtain m where
        st: "step_on k (Some (ob\<lparr>obj_ptr := Some a\<rparr>)) m h h'"
        and b: "buf_double g (value_of h ob) = Inr \<lparr>buf_ptr = Some m, buf_size = obj_size ob\<rparr>" by auto
      with Inr refines_step [OF assms(1) st refl] show ?thesis by simp
    qed (use double_step [OF assms(1) Some assms(2), of g] in simp)
    with True Some size show ?thesis by (simp add: heap_index_def obj_at_buffers obj_at_def buf_index_def)
  next
    case False
    with Some size assms(1) show ?thesis
      by (simp add: heap_index_def obj_at_buffers obj_at_def buf_index_def refines_def buffers_self)
  qed
qed (simp add: heap_index_def obj_at_buffers obj_at_def)

lemma refines_resize:
  assumes "heap_ok h" "blocks h a = None"
  shows "refines (value_do (B_Resize a g k n) (buffers h)) (heap_resize a g k n h)"
proof (cases "objs h k")
  case (Some ob)
  have size: "buf_size (value_of h ob) = obj_size ob" by (simp add: value_of_def)
  show ?thesis
  proof (cases "obj_size ob < n")
    case True
    have "refines (and_then (buf_double g (value_of h ob)) (\<lambda>b. Inr ((buffers h)(k \<mapsto> b\<lparr>buf_size := n\<rparr>))))
        (and_then (heap_double a g k h) (\<lambda>h. and_then (obj_at h k) (\<lambda>ob. Inr (set_obj k (ob\<lparr>obj_size := n\<rparr>) h))))"
    proof (cases "heap_double a g k h")
      case (Inl e)
      with double_step [OF assms(1) Some assms(2), of g] show ?thesis by simp
    next
      case (Inr h')
      with double_step [OF assms(1) Some assms(2), of g] obtain m where
        st: "step_on k (Some (ob\<lparr>obj_ptr := Some a\<rparr>)) m h h'"
        and b: "buf_double g (value_of h ob) = Inr \<lparr>buf_ptr = Some m, buf_size = obj_size ob\<rparr>" by auto
      from st have "objs h' k = Some (ob\<lparr>obj_ptr := Some a\<rparr>)" by (simp add: step_on_def)
      then show ?thesis using Inr b refines_step [OF assms(1) step_on_size [OF st, of n] refl]
        by (simp add: obj_at_def)
    qed
    with True Some size show ?thesis by (simp add: heap_resize_def obj_at_buffers obj_at_def buf_resize_def
        and_then_assoc)
  next
    case False
    have "(value_of h ob)\<lparr>buf_size := n\<rparr> =
        \<lparr>buf_ptr = map_option (\<lambda>_. buf_block (value_of h ob)) (obj_ptr ob), buf_size = n\<rparr>"
      by (subst value_split [OF assms(1) Some]) simp
    with False Some size refines_step [OF assms(1) step_on_size [OF step_on_self [OF assms(1) Some], of n] refl]
    show ?thesis by (simp add: heap_resize_def obj_at_buffers obj_at_def buf_resize_def)
  qed
qed (simp add: heap_resize_def obj_at_buffers obj_at_def)

lemma refines_fill:
  assumes "heap_ok h"
  shows "refines (value_do (B_Fill k src n off) (buffers h)) (heap_fill k src n off h)"
proof (cases "objs h k")
  case (Some ob)
  let ?b = "value_of h ob"
  let ?n = "let c = size_sub (obj_size ob) off in if n < c then n else c"
  have size: "buf_size ?b = obj_size ob" by (simp add: value_of_def)
  show ?thesis
  proof (cases "and_then (mem_load src 0 ?n) (\<lambda>bs. mem_store (buf_block ?b) off bs)")
    case (Inl e)
    then show ?thesis using Some size mem_at_value [OF assms Some]
      by (cases "mem_load src 0 ?n") (simp_all add: heap_fill_def obj_at_buffers obj_at_def buf_fill_def Let_def and_then_assoc cong: if_cong split del: if_split)
  next
    case (Inr m)
    then obtain bs where bs: "mem_load src 0 ?n = Inr bs" "mem_store (buf_block ?b) off bs = Inr m"
      by (auto simp: and_then_Inr_iff)
    have "?b\<lparr>buf_ptr := map_option (\<lambda>_. m) (buf_ptr ?b)\<rparr> =
        \<lparr>buf_ptr = map_option (\<lambda>_. m) (obj_ptr ob), buf_size = obj_size ob\<rparr>"
      by (subst (1 2) value_split [OF assms Some]) (simp add: option.map_comp comp_def)
    then show ?thesis using Some size bs mem_at_value [OF assms Some] refines_step [OF assms step_on_set [OF assms Some, of m] refl]
      by (simp add: heap_fill_def obj_at_buffers obj_at_def buf_fill_def Let_def cong: if_cong split del: if_split)
  qed
qed (simp add: heap_fill_def obj_at_buffers obj_at_def)

lemma do_refines:
  assumes "heap_ok h" "buf_allowed c h"
  shows "refines (value_do c (buffers h)) (heap_do c h)"
  using assms by (cases c) (simp_all del: value_do.simps add: refines_default refines_new refines_copy refines_move refines_delete
      refines_index refines_resize refines_fill)

section \<open>Properties\<close>

text \<open>C8: over any sequence of constructions, copies, moves, subscripts, resizings, fills and destructions, the
  class with its own \<open>new[]\<close> and \<open>delete[]\<close> does exactly what the buffers of the model do, faults included. Every
  block has one owner at every moment, so none is deleted twice or used after its end, and when all objects
  are gone no block is left.\<close>

theorem buffers_refine:
  assumes "heap_ok h" "run_allowed_on cs h"
  shows "case heap_run cs h of
      Inl e \<Rightarrow> value_run cs (buffers h) = Inl e
    | Inr h' \<Rightarrow> value_run cs (buffers h) = Inr (buffers h') \<and> heap_ok h'
        \<and> (objs h' = (\<lambda>_. None) \<longrightarrow> blocks h' = (\<lambda>_. None))"
  using assms
proof (induction cs arbitrary: h)
  case Nil
  then have "objs h = (\<lambda>_. None) \<Longrightarrow> blocks h a = None" for a
    unfolding heap_ok_def owner_def by auto
  with Nil show ?case by auto
next
  case (Cons c cs)
  from do_refines [OF Cons.prems(1), of c] Cons.prems(2)
  have r: "refines (value_do c (buffers h)) (heap_do c h)" by simp
  show ?case
  proof (cases "heap_do c h")
    case (Inr h')
    with r Cons.prems(2) Cons.IH [of h'] show ?thesis by (simp add: refines_def split: sum.splits)
  qed (use r in simp)
qed

definition empty_heap :: buf_heap where
  "empty_heap = \<lparr>blocks = (\<lambda>_. None), objs = (\<lambda>_. None)\<rparr>"

theorem buffers_refine_witness:
  "\<exists>h'. heap_run [B_From 100 (\<lambda>_. 0) [1, 2, 3] 3 0, B_Copy 200 (\<lambda>_. 0) 0 1, B_Resize 300 (\<lambda>_. 7) 1 5, B_Move 1 2,
      B_Delete 0, B_Delete 1] empty_heap = Inr h'
    \<and> value_run [B_From 100 (\<lambda>_. 0) [1, 2, 3] 3 0, B_Copy 200 (\<lambda>_. 0) 0 1, B_Resize 300 (\<lambda>_. 7) 1 5, B_Move 1 2,
      B_Delete 0, B_Delete 1] (buffers empty_heap) = Inr (buffers h')
    \<and> blocks h' 300 = Some [1, 2, 3, 7, 7, 7] \<and> blocks h' 100 = None \<and> blocks h' 200 = None"
proof -
  let ?cs = "[B_From 100 (\<lambda>_. 0) [1, 2, 3] 3 0, B_Copy 200 (\<lambda>_. 0) 0 1, B_Resize 300 (\<lambda>_. 7) 1 5, B_Move 1 2,
    B_Delete 0, B_Delete 1]"
  note ev = heap_from_ptr_def heap_sized_def heap_copy_def heap_resize_def heap_double_def heap_move_def heap_delete_def
    delete_array_def obj_at_def mem_at_def set_mem_def set_obj_def mem_load_def mem_store_def size_mul_def
    new_array_def empty_heap_def
  have u: "drop (Suc (Suc (Suc 0))) (map (\<lambda>_. 7) [0..<6]) = [7, 7, 7 :: u8]" by (simp add: upt_rec)
  obtain h' where h': "heap_run ?cs empty_heap = Inr h'" "blocks h' 300 = Some [1, 2, 3, 7, 7, 7]"
    "blocks h' 100 = None" "blocks h' 200 = None" using u by (simp add: ev)
  have "heap_ok empty_heap" by (simp add: heap_ok_def empty_heap_def owner_def)
  moreover have "run_allowed_on ?cs empty_heap" by (simp add: ev)
  ultimately show ?thesis using buffers_refine [of empty_heap ?cs] h' by auto
qed

end
