(* ===== verification/Evp_Context.thy ===== *)
theory Evp_Context
  imports Aes_Crypto
begin

text \<open>
  \<open>crypto/AES.cpp\<close> with the cipher contexts it makes. OpenSSL's calls act on a context, whose hidden state
  carries the key, the initial vector and a partial block from one call to the next; the record \<open>evp_lib\<close> holds
  what the calls do to such a state, of any type. \<open>EVP_auto_ptr\<close> makes a context and frees it when its scope is
  left, by a return or by an exception. \<open>evp_of\<close> is the view of \<open>Aes_Crypto\<close>, the results as functions of the
  arguments.
\<close>

section \<open>Contexts and effects\<close>

text \<open>\<open>None\<close> is a null pointer from \<open>EVP_CIPHER_CTX_new\<close>, and a return value other than 1 from the others.\<close>

record 'c evp_lib =
  lib_new :: "'c option"
  lib_enc_init :: "'c \<Rightarrow> block \<Rightarrow> block \<Rightarrow> 'c option"
  lib_enc_update :: "'c \<Rightarrow> int \<Rightarrow> block \<Rightarrow> ('c \<times> block) option"
  lib_enc_final :: "'c \<Rightarrow> ('c \<times> block) option"
  lib_dec_init :: "'c \<Rightarrow> block \<Rightarrow> block \<Rightarrow> 'c option"
  lib_dec_update :: "'c \<Rightarrow> int \<Rightarrow> block \<Rightarrow> ('c \<times> block) option"
  lib_dec_final :: "'c \<Rightarrow> ('c \<times> block) option"

text \<open>The live contexts by address, and a computation on them that may throw.\<close>

type_synonym 'c contexts = "nat \<Rightarrow> 'c option"
type_synonym ('c, 'a) effect = "'c contexts \<Rightarrow> 'a outcome \<times> 'c contexts"

definition bind_eff :: "('c, 'a) effect \<Rightarrow> ('a \<Rightarrow> ('c, 'b) effect) \<Rightarrow> ('c, 'b) effect" where
  "bind_eff m k S = (case m S of (Inl e, S) \<Rightarrow> (Inl e, S) | (Inr x, S) \<Rightarrow> k x S)"

definition pure_eff :: "'a outcome \<Rightarrow> ('c, 'a) effect" where
  "pure_eff r S = (r, S)"

text \<open>\<open>EVP_auto_ptr ctx;\<close> and the rest of its scope: \<open>p\<close> is the address of the new context.\<close>

definition EVP_auto_ptr :: "'c evp_lib \<Rightarrow> nat \<Rightarrow> ('c, 'a) effect \<Rightarrow> ('c, 'a) effect" where
  "EVP_auto_ptr lib p body S =
     (case lib_new lib of None \<Rightarrow> (Inl (Ssl_Internal_Error ''EVP_CIPHER_CTX_new''), S)
      | Some c \<Rightarrow> (case body (S(p \<mapsto> c)) of (r, S) \<Rightarrow> (r, S(p := None))))"

text \<open>A call on the context at \<open>p\<close>. The update calls read \<open>inl\<close> bytes at their input pointer.\<close>

definition ctx_call :: "nat \<Rightarrow> ('c \<Rightarrow> ('c \<times> 'a) option) \<Rightarrow> string \<Rightarrow> ('c, 'a) effect" where
  "ctx_call p f what S =
     (case S p of None \<Rightarrow> (Inl Undefined_Behaviour, S)
      | Some c \<Rightarrow> (case f c of None \<Rightarrow> (Inl (Ssl_Internal_Error what), S)
          | Some (c, out) \<Rightarrow> (Inr out, S(p \<mapsto> c))))"

definition ctx_init :: "nat \<Rightarrow> ('c \<Rightarrow> block \<Rightarrow> block \<Rightarrow> 'c option) \<Rightarrow> string \<Rightarrow> block \<Rightarrow> block \<Rightarrow> ('c, unit) effect" where
  "ctx_init p f what key iv = ctx_call p (\<lambda>c. map_option (\<lambda>c. (c, ())) (f c key iv)) what"

definition ctx_update ::
    "nat \<Rightarrow> ('c \<Rightarrow> int \<Rightarrow> block \<Rightarrow> ('c \<times> block) option) \<Rightarrow> string \<Rightarrow> int \<Rightarrow> block \<Rightarrow> ('c, block) effect" where
  "ctx_update p f what inl mem S =
     (if int (length mem) < inl then (Inl Undefined_Behaviour, S) else ctx_call p (\<lambda>c. f c inl mem) what S)"

section \<open>Encryption and decryption\<close>

definition AES_encrypt_ctx ::
    "'c evp_lib \<Rightarrow> nat \<Rightarrow> (nat \<Rightarrow> nat \<Rightarrow> u8) \<Rightarrow> block option \<Rightarrow> aes \<Rightarrow> byte_buffer \<Rightarrow> ('c, aes \<times> byte_buffer) effect" where
  "AES_encrypt_ctx lib p g rnd a plain =
     (let iv = (case rnd of None \<Rightarrow> aes_iv a | Some r \<Rightarrow> r);
          a = a\<lparr>aes_iv := iv\<rparr>;
          inl = to_int32 (buf_size plain)
      in bind_eff (pure_eff (cipher_new (g 0) iv (to_u32 (buf_size plain)))) (\<lambda>cipher.
         EVP_auto_ptr lib p (
         bind_eff (ctx_init p (lib_enc_init lib) ''EVP_CIPHER_CTX_new'' (aes_key a) iv) (\<lambda>_.
         bind_eff (pure_eff (cipher_ptr (g 1) cipher)) (\<lambda>cipher.
         bind_eff (ctx_update p (lib_enc_update lib) ''EVP_EncryptUpdate'' inl (buf_block plain)) (\<lambda>u.
         bind_eff (pure_eff (mem_store (buf_block cipher) CIPHER_OFF u)) (\<lambda>m.
         bind_eff (pure_eff (cipher_ptr (g 2) (cipher\<lparr>buf_ptr := Some m\<rparr>))) (\<lambda>cipher.
         bind_eff (ctx_call p (lib_enc_final lib) ''EVP_EncryptFinal_ex'') (\<lambda>f.
         bind_eff (pure_eff (mem_store (buf_block cipher) (CIPHER_OFF + length u) f)) (\<lambda>m.
         bind_eff (pure_eff (cipher_resize (g 3) (cipher\<lparr>buf_ptr := Some m\<rparr>)
           (to_u32 (length u + length f)))) (\<lambda>cipher.
         bind_eff (pure_eff (buf_copy cipher)) (\<lambda>out.
         pure_eff (Inr (a, out))))))))))))))"

definition AES_decrypt_ctx ::
    "'c evp_lib \<Rightarrow> nat \<Rightarrow> (nat \<Rightarrow> nat \<Rightarrow> u8) \<Rightarrow> aes \<Rightarrow> byte_buffer \<Rightarrow> ('c, aes \<times> byte_buffer) effect" where
  "AES_decrypt_ctx lib p g a buffer =
     bind_eff (pure_eff (cipher_of buffer)) (\<lambda>cipher.
     bind_eff (pure_eff (cipher_iv cipher)) (\<lambda>iv.
     let a = a\<lparr>aes_iv := iv\<rparr>;
         plain = buf_sized (g 0) (buf_size buffer);
         inl = sint (cipher_size cipher)
     in EVP_auto_ptr lib p (
        bind_eff (ctx_init p (lib_dec_init lib) ''EVP_DecryptInit_ex'' (aes_key a) iv) (\<lambda>_.
        bind_eff (pure_eff (cipher_ptr (g 1) cipher)) (\<lambda>cipher.
        bind_eff (ctx_update p (lib_dec_update lib) ''EVP_DecryptUpdate'' inl
          (drop CIPHER_OFF (buf_block cipher))) (\<lambda>u.
        bind_eff (pure_eff (mem_store (buf_block plain) 0 u)) (\<lambda>m.
        bind_eff (ctx_call p (lib_dec_final lib) ''EVP_DecryptFinal_ex'') (\<lambda>f.
        bind_eff (pure_eff (mem_store m (length u) f)) (\<lambda>m.
        let plain = plain\<lparr>buf_ptr := Some m\<rparr>
        in bind_eff (pure_eff (plaintext_len (g 2) cipher)) (\<lambda>len.
           bind_eff (pure_eff (if unat len < buf_size plain then buf_resize (g 3) plain (unat len)
                               else Inr plain)) (\<lambda>plain.
           pure_eff (Inr (a, plain)))))))))))))"

section \<open>The results as functions of the arguments\<close>

text \<open>What the calls of one scope return when they are made in the order of the code on a new context.\<close>

definition started :: "'c option \<Rightarrow> ('c \<Rightarrow> block \<Rightarrow> block \<Rightarrow> 'c option) \<Rightarrow> block \<Rightarrow> block \<Rightarrow> 'c option" where
  "started c init key iv = Option.bind c (\<lambda>c. init c key iv)"

definition updated ::
    "'c option \<Rightarrow> ('c \<Rightarrow> int \<Rightarrow> block \<Rightarrow> ('c \<times> block) option) \<Rightarrow> int \<Rightarrow> block \<Rightarrow> ('c \<times> block) option" where
  "updated c update inl mem = Option.bind c (\<lambda>c. update c inl mem)"

definition evp_of :: "'c evp_lib \<Rightarrow> evp" where
  "evp_of lib =
     \<lparr>ctx_new = (lib_new lib \<noteq> None),
      enc_init = (\<lambda>k iv. started (lib_new lib) (lib_enc_init lib) k iv \<noteq> None),
      enc_update = (\<lambda>k iv inl mem. map_option snd
        (updated (started (lib_new lib) (lib_enc_init lib) k iv) (lib_enc_update lib) inl mem)),
      enc_final = (\<lambda>k iv inl mem. Option.bind
        (updated (started (lib_new lib) (lib_enc_init lib) k iv) (lib_enc_update lib) inl mem)
        (\<lambda>(c, _). map_option snd (lib_enc_final lib c))),
      dec_init = (\<lambda>k iv. started (lib_new lib) (lib_dec_init lib) k iv \<noteq> None),
      dec_update = (\<lambda>k iv inl mem. map_option snd
        (updated (started (lib_new lib) (lib_dec_init lib) k iv) (lib_dec_update lib) inl mem)),
      dec_final = (\<lambda>k iv inl mem. Option.bind
        (updated (started (lib_new lib) (lib_dec_init lib) k iv) (lib_dec_update lib) inl mem)
        (\<lambda>(c, _). map_option snd (lib_dec_final lib c)))\<rparr>"

section \<open>Lemmas\<close>

named_theorems eff_simps \<open>one equation per outcome of a step\<close>

lemma bind_pure [eff_simps]:
  "bind_eff (pure_eff (Inl e)) k S = (Inl e, S)"
  "bind_eff (pure_eff (Inr x)) k S = k x S"
  by (simp_all add: bind_eff_def pure_eff_def)

lemma bind_call [eff_simps]:
  "bind_eff (ctx_call p f what) k (S(p \<mapsto> c)) =
     (case f c of None \<Rightarrow> (Inl (Ssl_Internal_Error what), S(p \<mapsto> c)) | Some (c, out) \<Rightarrow> k out (S(p \<mapsto> c)))"
  by (simp add: bind_eff_def ctx_call_def split: option.splits)

lemma bind_init [eff_simps]:
  "bind_eff (ctx_init p f what key iv) k (S(p \<mapsto> c)) =
     (case f c key iv of None \<Rightarrow> (Inl (Ssl_Internal_Error what), S(p \<mapsto> c)) | Some c \<Rightarrow> k () (S(p \<mapsto> c)))"
  by (simp add: ctx_init_def bind_call split: option.splits)

lemma bind_update [eff_simps]:
  "bind_eff (ctx_update p f what inl mem) k (S(p \<mapsto> c)) =
     (if int (length mem) < inl then (Inl Undefined_Behaviour, S(p \<mapsto> c))
      else case f c inl mem of None \<Rightarrow> (Inl (Ssl_Internal_Error what), S(p \<mapsto> c))
           | Some (c, out) \<Rightarrow> k out (S(p \<mapsto> c)))"
  by (simp add: bind_eff_def ctx_update_def ctx_call_def split: option.splits)

text \<open>A computation that leaves some state at \<open>p\<close> and the others alone.\<close>

definition leaves :: "nat \<Rightarrow> 'c contexts \<Rightarrow> 'a outcome \<Rightarrow> 'a outcome \<times> 'c contexts \<Rightarrow> bool" where
  "leaves p S r x \<longleftrightarrow> (\<exists>c. x = (r, S(p \<mapsto> c)))"

lemma leaves_simps [eff_simps]:
  "leaves p S r (r', S(p \<mapsto> c)) \<longleftrightarrow> r' = r"
  "leaves p S r (pure_eff r' (S(p \<mapsto> c))) \<longleftrightarrow> r' = r"
  by (auto simp: leaves_def pure_eff_def)

lemma leaves_pure:
  assumes "\<And>x. r = Inr x \<Longrightarrow> leaves p S (f x) (k x (S(p \<mapsto> c)))"
  shows "leaves p S (and_then r f) (bind_eff (pure_eff r) k (S(p \<mapsto> c)))"
  using assms by (cases r) (simp_all add: eff_simps)

lemma auto_ptr_leaves:
  assumes "S p = None"
    and "\<And>c. lib_new lib = Some c \<Longrightarrow> leaves p S r (body (S(p \<mapsto> c)))"
  shows "EVP_auto_ptr lib p body S =
    (if lib_new lib = None then (Inl (Ssl_Internal_Error ''EVP_CIPHER_CTX_new''), S) else (r, S))"
  using assms by (cases "lib_new lib") (auto simp: EVP_auto_ptr_def leaves_def fun_upd_idem)

lemmas evp_of_simps = evp_of_def started_def updated_def

text \<open>An update and the final call after it, in both views.\<close>

lemma leaves_init:
  assumes "b \<longleftrightarrow> f c key iv \<noteq> None" "\<And>c'. f c key iv = Some c' \<Longrightarrow> leaves p S r (k () (S(p \<mapsto> c')))"
  shows "leaves p S (and_then (check b (Ssl_Internal_Error what)) (\<lambda>_. r))
    (bind_eff (ctx_init p f what key iv) k (S(p \<mapsto> c)))"
  using assms by (cases "f c key iv") (simp_all add: eff_simps)

lemma leaves_update:
  assumes "h key iv inl mem = map_option snd (f c inl mem)"
    and "\<And>c' u. \<not> int (length mem) < inl \<Longrightarrow> f c inl mem = Some (c', u) \<Longrightarrow> leaves p S (r u) (k u (S(p \<mapsto> c')))"
  shows "leaves p S (and_then (evp_call h what key iv inl mem) r)
    (bind_eff (ctx_update p f what inl mem) k (S(p \<mapsto> c)))"
  using assms by (cases "f c inl mem") (auto simp: eff_simps evp_call_def)

lemma leaves_final:
  assumes "h key iv inl mem = map_option snd (f c)" "\<not> int (length mem) < inl"
    and "\<And>c' u. f c = Some (c', u) \<Longrightarrow> leaves p S (r u) (k u (S(p \<mapsto> c')))"
  shows "leaves p S (and_then (evp_call h what key iv inl mem) r)
    (bind_eff (ctx_call p f what) k (S(p \<mapsto> c)))"
  using assms by (cases "f c") (auto simp: eff_simps evp_call_def)

lemmas leaves_steps = leaves_pure leaves_init leaves_update leaves_final

lemma auto_ptr_refines:
  assumes "S p = None" "ctx_new e \<longleftrightarrow> lib_new lib \<noteq> None"
    and "\<And>c. lib_new lib = Some c \<Longrightarrow> leaves p S r (body (S(p \<mapsto> c)))"
  shows "EVP_auto_ptr lib p body S =
    (and_then (check (ctx_new e) (Ssl_Internal_Error ''EVP_CIPHER_CTX_new'')) (\<lambda>_. r), S)"
  using auto_ptr_leaves [where lib = lib and body = body and r = r, OF assms(1,3)] assms(2) by auto

lemma bind_pure_refines:
  assumes "\<And>x. r = Inr x \<Longrightarrow> k x S = (f x, S)"
  shows "bind_eff (pure_eff r) k S = (and_then r f, S)"
  using assms by (cases r) (simp_all add: eff_simps)

lemma encrypt_ctx:
  assumes "S p = None"
  shows "AES_encrypt_ctx lib p g rnd a b S = (AES_encrypt (evp_of lib) g rnd a b, S)"
  unfolding AES_encrypt_ctx_def AES_encrypt_def Let_def
  by (intro bind_pure_refines auto_ptr_refines leaves_steps assms)
    (simp_all add: evp_of_simps leaves_simps)

lemma decrypt_ctx:
  assumes "S p = None"
  shows "AES_decrypt_ctx lib p g a b S = (AES_decrypt (evp_of lib) g a b, S)"
  unfolding AES_decrypt_ctx_def AES_decrypt_def Let_def
  by (intro bind_pure_refines auto_ptr_refines leaves_steps assms)
    (simp_all add: evp_of_simps leaves_simps)

section \<open>Properties\<close>

text \<open>C20: on OpenSSL's cipher contexts, whatever state they hide between the calls, encryption and decryption
  give exactly what the functional view of the calls gives, on success and on every exception; no call is made
  on a context that is not live, and each context made is freed, so the live contexts are those from before.\<close>

theorem aes_on_contexts:
  assumes "S p = None"
  shows "AES_encrypt_ctx lib p g rnd a b S = (AES_encrypt (evp_of lib) g rnd a b, S)
    \<and> AES_decrypt_ctx lib p g a b S = (AES_decrypt (evp_of lib) g a b, S)"
  using assms by (simp add: encrypt_ctx decrypt_ctx)

text \<open>A library whose contexts hold back the last bytes of an update for the final call.\<close>

definition demo_lib :: "block evp_lib" where
  "demo_lib = \<lparr>lib_new = Some [], lib_enc_init = (\<lambda>c k iv. Some []),
     lib_enc_update = (\<lambda>c n m. Some (drop 1 (take (nat n) m), take 1 m)), lib_enc_final = (\<lambda>c. Some ([], c)),
     lib_dec_init = (\<lambda>c k iv. None), lib_dec_update = (\<lambda>c n m. None), lib_dec_final = (\<lambda>c. None)\<rparr>"

theorem aes_on_contexts_witness:
  "AES_decrypt_ctx demo_lib 7 (\<lambda>_ _. 0) \<lparr>aes_key = replicate 32 1, aes_iv = replicate 16 2\<rparr>
      \<lparr>buf_ptr = Some (replicate 20 0), buf_size = 20\<rparr> [3 \<mapsto> [1]] =
    (Inl (Ssl_Internal_Error ''EVP_DecryptInit_ex''), [3 \<mapsto> [1]])"
proof -
  have "AES_decrypt (evp_of demo_lib) (\<lambda>_ _. 0) \<lparr>aes_key = replicate 32 1, aes_iv = replicate 16 2\<rparr>
      \<lparr>buf_ptr = Some (replicate 20 0), buf_size = 20\<rparr> = Inl (Ssl_Internal_Error ''EVP_DecryptInit_ex'')"
    by (simp add: AES_decrypt_def cipher_of_def buf_copy_def buf_from_ptr_def cipher_iv_def mem_load_def
        evp_of_simps demo_lib_def Let_def)
  then show ?thesis
    using aes_on_contexts [of "[3 \<mapsto> [1]]" 7 demo_lib "\<lambda>_ _. 0" None
        "\<lparr>aes_key = replicate 32 1, aes_iv = replicate 16 2\<rparr>" "\<lparr>buf_ptr = Some (replicate 20 0), buf_size = 20\<rparr>"]
    by simp
qed

end
