(* ===== verification/Socks5_Async.thy ===== *)
theory Socks5_Async
  imports Socks5_Pipe
begin

text \<open>
  \<open>socks5_handler\<close> (\<open>bridge/ether_bridge_server.cpp\<close>) on the operations it calls: every \<open>async_read\<close> and
  \<open>async_write\<close> of the handshake on the client's socket, with the kernel's answers. \<open>Socks5\<close> describes the same
  handshake as a function of the bytes received; the handler here refines it.
\<close>

section \<open>The handler on the socket\<close>

text \<open>The answers to come, what was handed to the kernel by the writes that returned, and the object.\<close>

record sock_io =
  io_reads :: "block answer list"
  io_writes :: "nat answer list"
  io_sent :: block
  io_ev :: async_file_event

text \<open>A call has not returned while the answers for it run out.\<close>

datatype 'a flow = Blocked block | Going 'a sock_io

type_synonym 'a sock_op = "sock_io \<Rightarrow> 'a flow outcome"

definition bind_io :: "'a sock_op \<Rightarrow> ('a \<Rightarrow> 'b sock_op) \<Rightarrow> 'b sock_op" where
  "bind_io m k s =
     and_then (m s) (\<lambda>r. case r of Blocked out \<Rightarrow> Inr (Blocked out) | Going x s \<Rightarrow> k x s)"

definition io_return :: "'a \<Rightarrow> 'a sock_op" where
  "io_return x s = Inr (Going x s)"

text \<open>\<open>sock->async_read(buf, n)\<close> and \<open>sock->async_write(bs, \<dots>)\<close> by the coroutine \<open>i\<close>; the handler does not look
  at what they return.\<close>

definition io_read :: "nat \<Rightarrow> block \<Rightarrow> nat \<Rightarrow> block sock_op" where
  "io_read i buf n s =
     and_then (async_read i (io_reads s) buf n 0 (io_ev s)) (\<lambda>r.
     case r of None \<Rightarrow> Inr (Blocked (io_sent s))
     | Some (_, buf, ev, reads) \<Rightarrow> Inr (Going buf (s\<lparr>io_reads := reads, io_ev := ev\<rparr>)))"

definition io_write :: "nat \<Rightarrow> block \<Rightarrow> unit sock_op" where
  "io_write i bs s =
     and_then (async_write i (io_writes s) bs (length bs) 0 [] (io_ev s)) (\<lambda>r.
     case r of None \<Rightarrow> Inr (Blocked (io_sent s))
     | Some (_, out, ev, writes) \<Rightarrow>
         Inr (Going () (s\<lparr>io_writes := writes, io_sent := io_sent s @ out, io_ev := ev\<rparr>)))"

datatype socks_end = Handler_Returns | Handler_Pipes string u16

text \<open>The cases of the first \<open>switch\<close>. The outer \<open>None\<close> is the \<open>return\<close> of the type 4, the inner one the null
  pointer an unknown type leaves.\<close>

definition io_address :: "nat \<Rightarrow> (nat \<Rightarrow> nat \<Rightarrow> u8) \<Rightarrow> u8 \<Rightarrow> (string \<times> u16) option option sock_op" where
  "io_address i g atyp =
     (if atyp = 1 then
        bind_io (io_read i (new_array (g 3) 4) 4) (\<lambda>ipv4.
        bind_io (io_read i (new_array (g 4) 2) 2) (\<lambda>port.
        io_return (Some (Some (dotted ipv4, port_of port)))))
      else if atyp = 3 then
        bind_io (io_read i (new_array (g 3) 1) 1) (\<lambda>l.
        let len = unat (hd l) in
        bind_io (io_read i (new_array (g 4) (len + 1)) len) (\<lambda>buf.
        let buf = buf[len := 0] in
        bind_io (io_read i (new_array (g 5) 2) 2) (\<lambda>port.
        io_return (Some (Some (c_string buf, port_of port))))))
      else if atyp = 4 then io_return None
      else io_return (Some None))"

definition io_command ::
    "nat \<Rightarrow> address outcome \<Rightarrow> u8 \<Rightarrow> (string \<times> u16) option \<Rightarrow> socks_end sock_op" where
  "io_command i local cmd addr s =
     (if cmd = 1 then
        and_then local (\<lambda>l.
        case addr of None \<Rightarrow> Inl Undefined_Behaviour
        | Some (host, port) \<Rightarrow>
            bind_io (io_write i (connect_reply (address_ipv4 l) (address_port l))) (\<lambda>_.
            io_return (Handler_Pipes host port)) s)
      else io_return Handler_Returns s)"

definition socks5_on_socket ::
    "nat \<Rightarrow> (nat \<Rightarrow> nat \<Rightarrow> u8) \<Rightarrow> address outcome \<Rightarrow> socks_end sock_op" where
  "socks5_on_socket i g local =
     bind_io (io_read i (new_array (g 0) 2) 2) (\<lambda>buf.
     let len = unat (buf ! 1) in
     bind_io (io_read i (new_array (g 1) len) len) (\<lambda>vers.
     bind_io (io_write i [5, 0]) (\<lambda>_.
     bind_io (io_read i (new_array (g 2) 4) 4) (\<lambda>req.
     bind_io (io_address i g (req ! 3)) (\<lambda>a.
     case a of None \<Rightarrow> io_return Handler_Returns
     | Some addr \<Rightarrow> io_command i local (req ! 1) addr)))))"

section \<open>The kernel's contract over a sequence of reads\<close>

text \<open>The answers left after \<open>n\<close> bytes were read, \<open>None\<close> when they run out before.\<close>

fun read_rest :: "nat \<Rightarrow> block answer list \<Rightarrow> block answer list option" where
  "read_rest n [] = None"
| "read_rest n (Done bs # as) = (if length bs = n then Some as else read_rest (n - length bs) as)"
| "read_rest n (Try_Again # as) = (if n = 0 then Some as else read_rest n as)"
| "read_rest n (Failed # as) = None"

text \<open>Reads of the sizes \<open>ns\<close> are answered one after the other, none with more than it asked for, and a read of
  no byte at once.\<close>

fun served :: "nat list \<Rightarrow> block answer list \<Rightarrow> bool" where
  "served [] as = True"
| "served (n # ns) as =
     (read_ok n as \<and> (n = 0 \<longrightarrow> as \<noteq> []) \<and> (case read_rest n as of None \<Rightarrow> True | Some rest \<Rightarrow> served ns rest))"

text \<open>How a read ends: it has not returned, or it has taken the next bytes of the stream.\<close>

definition read_ends ::
    "nat \<Rightarrow> block answer list \<Rightarrow> block \<Rightarrow> nat \<Rightarrow> nat \<Rightarrow> async_file_event \<Rightarrow> bool" where
  "read_ends i as buf count offset ev \<longleftrightarrow>
     (read_rest (count - offset) as = None \<and> length (delivered as) < count - offset
        \<and> async_read i as buf count offset ev = Inr None) \<or>
     (\<exists>rest. read_rest (count - offset) as = Some rest \<and> set rest \<subseteq> set as \<and> count - offset \<le> length (delivered as)
        \<and> delivered rest = drop (count - offset) (delivered as)
        \<and> async_read i as buf count offset ev = Inr (Some (to_int32 count,
            take offset buf @ take (count - offset) (delivered as) @ drop count buf, ev, rest)))"

lemma read_all:
  assumes "read_ok (count - offset) as" "Failed \<notin> set as" "offset \<le> count" "count \<le> length buf" "read_idle ev"
    and "offset = count \<longrightarrow> as \<noteq> []"
  shows "read_ends i as buf count offset ev"
  using assms
proof (induction i as buf count offset ev rule: async_read.induct)
  case (2 i bs as buf count offset ev)
  let ?buf = "take offset buf @ bs @ drop (offset + length bs) buf"
  have le: "offset + length bs \<le> count" using "2.prems"(1,3) by (auto split: if_splits)
  with "2.prems"(4) have st: "mem_store buf offset bs = Inr ?buf" by (simp add: mem_simps)
  show ?case
  proof (cases "offset + length bs = count")
    case True
    with st show ?thesis by (auto simp: read_ends_def)
  next
    case False
    have "read_ends i as ?buf count (offset + length bs) ev"
      using "2.prems" False le st by (intro "2.IH") (auto split: if_splits)
    moreover have "async_read i (Done bs # as) buf count offset ev = async_read i as ?buf count (offset + length bs) ev"
      using st False by (simp add: Let_def)
    moreover have "read_rest (count - offset) (Done bs # as) = read_rest (count - (offset + length bs)) as"
      using False le by auto
    ultimately show ?thesis using le "2.prems"(3,4) unfolding read_ends_def by auto
  qed
next
  case (3 i as buf count offset ev)
  then show ?case by (auto simp: wait_simps read_ends_def)
qed (auto simp: read_ends_def)

section \<open>One operation\<close>

text \<open>A healthy connection that will answer reads of the sizes \<open>ns\<close>, and the bytes still to come.\<close>

definition conn :: "nat list \<Rightarrow> sock_io \<Rightarrow> bool" where
  "conn ns s \<longleftrightarrow> Failed \<notin> set (io_reads s) \<and> served ns (io_reads s) \<and> read_idle (io_ev s) \<and> write_idle (io_ev s)"

abbreviation stream :: "sock_io \<Rightarrow> block" where
  "stream s \<equiv> delivered (io_reads s)"

definition after_read :: "nat list \<Rightarrow> block \<Rightarrow> sock_io \<Rightarrow> sock_io \<Rightarrow> bool" where
  "after_read ns inp s s' \<longleftrightarrow> conn ns s' \<and> stream s' = inp \<and> io_sent s' = io_sent s \<and> io_writes s' = io_writes s"

lemma io_read_step:
  assumes "conn (n # ns) s" "n \<le> length buf"
  obtains "read_n None k n (stream s) = None" "io_read i buf n s = Inr (Blocked (io_sent s))"
  | a s' where "read_n None k n (stream s) = Some (a, stream s')" "io_read i buf n s = Inr (Going (a @ drop n buf) s')"
      "after_read ns (stream s') s s'" "a = take n (stream s)" "n \<le> length (stream s)" "stream s' = drop n (stream s)"
proof -
  have c: "Failed \<notin> set (io_reads s)" "read_ok n (io_reads s)" "n = 0 \<longrightarrow> io_reads s \<noteq> []" "read_idle (io_ev s)"
    "write_idle (io_ev s)" "case read_rest n (io_reads s) of None \<Rightarrow> True | Some rest \<Rightarrow> served ns rest"
    using assms(1) by (auto simp: conn_def)
  then have "read_ends i (io_reads s) buf n 0 (io_ev s)" using assms(2) by (intro read_all) auto
  then show thesis
  proof (unfold read_ends_def, elim disjE exE conjE)
    assume "length (stream s) < n - 0" "async_read i (io_reads s) buf n 0 (io_ev s) = Inr None"
    then show thesis by (intro that(1)) (simp_all add: read_n_def io_read_def)
  next
    fix rest
    assume r: "read_rest (n - 0) (io_reads s) = Some rest" "set rest \<subseteq> set (io_reads s)" "n - 0 \<le> length (stream s)"
      "delivered rest = drop (n - 0) (stream s)"
      "async_read i (io_reads s) buf n 0 (io_ev s) = Inr (Some (to_int32 n,
        take 0 buf @ take (n - 0) (stream s) @ drop n buf, io_ev s, rest))"
    with c show thesis
      by (intro that(2) [where a = "take n (stream s)" and s' = "s\<lparr>io_reads := rest, io_ev := io_ev s\<rparr>"])
        (auto simp: read_n_def io_read_def after_read_def conn_def)
  qed
qed

lemma io_write_step:
  assumes "conn ns s" "bs \<noteq> []" "writes_ok (length bs # ms) (io_writes s)" "write_rest (length bs) (io_writes s) = Some ws"
  obtains s' where "io_write i bs s = Inr (Going () s')" "conn ns s'" "stream s' = stream s" "io_sent s' = io_sent s @ bs"
    "io_writes s' = ws" "writes_ok ms ws"
proof -
  have "async_write i (io_writes s) bs (length bs) 0 [] (io_ev s) = Inr (Some (to_int32 (length bs), bs, io_ev s, ws))"
    using write_all [of "length bs" 0 "io_writes s" bs "io_ev s" i "[]"] assms by (simp add: conn_def)
  then show thesis using assms
    by (intro that [where s' = "s\<lparr>io_writes := ws, io_sent := io_sent s @ bs, io_ev := io_ev s\<rparr>"])
      (simp_all add: io_write_def conn_def)
qed

section \<open>The handler\<close>

fun agrees :: "socks_result outcome \<Rightarrow> socks_end flow outcome \<Rightarrow> bool" where
  "agrees (Inl e) r = (r = Inl e)"
| "agrees (Inr (Socks_Waiting out)) r = (r = Inr (Blocked (concat out)))"
| "agrees (Inr (Socks_Closed out)) r = (\<exists>s. r = Inr (Going Handler_Returns s) \<and> io_sent s = concat out)"
| "agrees (Inr (Socks_Piping host port out inp)) r =
     (\<exists>s. r = Inr (Going (Handler_Pipes host port) s) \<and> io_sent s = concat out \<and> stream s = inp
        \<and> read_idle (io_ev s) \<and> write_idle (io_ev s) \<and> Failed \<notin> set (io_reads s))"

lemma bind_io_simps [simp]:
  "m s = Inr (Blocked out) \<Longrightarrow> bind_io m k s = Inr (Blocked out)"
  "m s = Inr (Going x s') \<Longrightarrow> bind_io m k s = k x s'"
  by (simp_all add: bind_io_def)

lemma bind_io_assoc: "bind_io (bind_io m f) k s = bind_io m (\<lambda>x. bind_io (f x) k) s"
  by (cases "m s") (auto simp: bind_io_def split: flow.splits)

lemma c_string_end: "c_string ((bs @ [x])[length bs := 0]) = c_string bs"
  by (simp add: c_string_def takeWhile_tail list_update_append)

lemma connect_reply_length [simp]: "length (connect_reply ip port) = 10" "connect_reply ip port \<noteq> []"
  by (simp_all add: connect_reply_def)

lemma command_agrees:
  assumes "conn ns s" "io_sent s = [5, 0]" "writes_ok [10] (io_writes s)" "write_rest 10 (io_writes s) = Some ws"
  shows "agrees (run_command local cmd addr [[5, 0]] (stream s)) (io_command i local cmd addr s)"
proof (cases "cmd = 1 \<and> (\<exists>l. local = Inr l) \<and> addr \<noteq> None")
  case True
  then obtain l host port where c: "cmd = 1" "local = Inr l" "addr = Some (host, port)" by auto
  let ?r = "connect_reply (address_ipv4 l) (address_port l)"
  obtain s' where "io_write i ?r s = Inr (Going () s')" "conn ns s'" "stream s' = stream s" "io_sent s' = io_sent s @ ?r"
    using io_write_step [of ns s ?r "[]" ws] assms by (metis connect_reply_length)
  with c assms(2) show ?thesis by (auto simp: run_command_def io_command_def io_return_def conn_def)
next
  case False
  with assms show ?thesis
    by (cases local; cases addr) (auto simp: run_command_def io_command_def io_return_def)
qed

text \<open>The parts of the handshake that read the address.\<close>

lemma ipv4_agrees:
  assumes "conn [4, 2] s"
  obtains "read_ipv4 None (stream s) = None" "bind_io (io_address i g 1) k s = Inr (Blocked (io_sent s))"
  | addr s' where "read_ipv4 None (stream s) = Some (addr, stream s')" "after_read [] (stream s') s s'"
      "bind_io (io_address i g 1) k s = k (Some (Some addr)) s'"
proof -
  note u = io_address_def bind_io_assoc read_ipv4_def
  show thesis
  proof (rule io_read_step [OF assms, of "new_array (g 3) 4" 3 i])
    fix ip s1
    assume r: "read_n None 3 4 (stream s) = Some (ip, stream s1)"
      "io_read i (new_array (g 3) 4) 4 s = Inr (Going (ip @ drop 4 (new_array (g 3) 4)) s1)"
      "after_read [2] (stream s1) s s1"
    then have c: "conn [2] s1" by (simp add: after_read_def)
    show thesis
    proof (rule io_read_step [OF c, of "new_array (g 4) 2" 4 i])
      fix port s2
      assume "read_n None 4 2 (stream s1) = Some (port, stream s2)"
        "io_read i (new_array (g 4) 2) 2 s1 = Inr (Going (port @ drop 2 (new_array (g 4) 2)) s2)"
        "after_read [] (stream s2) s1 s2"
      with r show thesis by (intro that(2) [of "(dotted ip, port_of port)" s2]) (simp_all add: u io_return_def after_read_def)
    qed (use r that(1) in \<open>simp_all add: u after_read_def\<close>)
  qed (use that(1) in \<open>simp_all add: u\<close>)
qed

lemma name_agrees:
  assumes "conn [1, n, 2] s" "stream s \<noteq> [] \<Longrightarrow> n = unat (hd (stream s))"
  obtains "read_name None (stream s) = None" "bind_io (io_address i g 3) k s = Inr (Blocked (io_sent s))"
  | addr s' where "read_name None (stream s) = Some (addr, stream s')" "after_read [] (stream s') s s'"
      "bind_io (io_address i g 3) k s = k (Some (Some addr)) s'"
proof -
  note u = io_address_def bind_io_assoc read_name_def Let_def
  show thesis
  proof (rule io_read_step [OF assms(1), of "new_array (g 3) 1" 3 i])
    fix l s1
    assume r: "read_n None 3 1 (stream s) = Some (l, stream s1)" "l = take 1 (stream s)" "1 \<le> length (stream s)"
      "io_read i (new_array (g 3) 1) 1 s = Inr (Going (l @ drop 1 (new_array (g 3) 1)) s1)"
      "after_read [n, 2] (stream s1) s s1"
    then have "stream s \<noteq> []" by auto
    with r assms(2) have c: "conn [n, 2] s1" and hd: "hd (take 1 (stream s)) = hd (stream s)" "n = unat (hd (stream s))"
      by (simp_all add: after_read_def)
    show thesis
    proof (rule io_read_step [OF c, of "new_array (g 4) (n + 1)" 4 i])
      fix name s2
      let ?last = "drop n (new_array (g 4) (n + 1))"
      assume nm: "read_n None 4 n (stream s1) = Some (name, stream s2)" "name = take n (stream s1)" "n \<le> length (stream s1)"
        "io_read i (new_array (g 4) (n + 1)) n s1 = Inr (Going (name @ ?last) s2)" "after_read [2] (stream s2) s1 s2"
      then have c2: "conn [2] s2" and len: "length name = n" by (auto simp: after_read_def)
      have "?last = [new_array (g 4) (n + 1) ! n]" by (simp add: new_array_def nth_append)
      then have cs: "c_string ((name @ ?last)[n := 0]) = c_string name" using c_string_end [of name] len by simp
      show thesis
      proof (rule io_read_step [OF c2, of "new_array (g 5) 2" 5 i])
        fix port s3
        assume "read_n None 5 2 (stream s2) = Some (port, stream s3)"
          "io_read i (new_array (g 5) 2) 2 s2 = Inr (Going (port @ drop 2 (new_array (g 5) 2)) s3)"
          "after_read [] (stream s3) s2 s3"
        with r nm hd cs show thesis
          by (intro that(2) [of "(c_string name, port_of port)" s3]) (simp_all add: u io_return_def after_read_def)
      qed (use r nm hd cs that(1) in \<open>simp_all add: u after_read_def\<close>)
    qed (use r hd that(1) in \<open>simp_all add: u after_read_def\<close>)
  qed (use that(1) in \<open>simp_all add: u\<close>)
qed

text \<open>What follows the request \<open>req\<close>.\<close>

definition after_request :: "nat \<Rightarrow> (nat \<Rightarrow> nat \<Rightarrow> u8) \<Rightarrow> address outcome \<Rightarrow> block \<Rightarrow> socks_end sock_op" where
  "after_request i g local req =
     bind_io (io_address i g (req ! 3)) (\<lambda>a.
     case a of None \<Rightarrow> io_return Handler_Returns | Some addr \<Rightarrow> io_command i local (req ! 1) addr)"

definition request_result :: "address outcome \<Rightarrow> block \<Rightarrow> block \<Rightarrow> socks_result outcome" where
  "request_result local req inp =
     (if req ! 3 = 1 then
        (case read_ipv4 None inp of None \<Rightarrow> Inr (Socks_Waiting [[5, 0]])
         | Some (addr, inp) \<Rightarrow> run_command local (req ! 1) (Some addr) [[5, 0]] inp)
      else if req ! 3 = 3 then
        (case read_name None inp of None \<Rightarrow> Inr (Socks_Waiting [[5, 0]])
         | Some (addr, inp) \<Rightarrow> run_command local (req ! 1) (Some addr) [[5, 0]] inp)
      else if req ! 3 = 4 then Inr (Socks_Closed [[5, 0]])
      else run_command local (req ! 1) None [[5, 0]] inp)"

lemma request_agrees:
  assumes "conn (if req ! 3 = 1 then [4, 2] else if req ! 3 = 3 then [1, m, 2] else []) s" "io_sent s = [5, 0]"
    and "writes_ok [10] (io_writes s)" "write_rest 10 (io_writes s) = Some ws"
    and "stream s \<noteq> [] \<Longrightarrow> m = unat (hd (stream s))"
  shows "agrees (request_result local req (stream s)) (after_request i g local req s)"
proof -
  let ?k = "\<lambda>a. case a of None \<Rightarrow> io_return Handler_Returns | Some addr \<Rightarrow> io_command i local (req ! 1) addr"
  have cmd: "agrees (run_command local (req ! 1) addr [[5, 0]] (stream s')) (io_command i local (req ! 1) addr s')"
    if "after_read [] (stream s') s s'" for addr s'
    using that assms(2-4) by (intro command_agrees) (auto simp: after_read_def)
  note u = request_result_def after_request_def
  consider "req ! 3 = 1" | "req ! 3 = 3" | "req ! 3 \<noteq> 1" "req ! 3 \<noteq> 3" by blast
  then show ?thesis
  proof cases
    case 1
    with assms(1) have "conn [4, 2] s" by simp
    then show ?thesis
      by (rule ipv4_agrees [of s i g ?k]) (simp_all add: u 1 assms(2) cmd del: One_nat_def)
  next
    case 2
    with assms(1) have "conn [1, m, 2] s" by simp
    then show ?thesis
      by (rule name_agrees [of m s i g ?k]) (simp_all add: u 2 assms(2,5) cmd del: One_nat_def)
  next
    case 3
    with assms(1) have "after_read [] (stream s) s s" by (simp add: after_read_def)
    from cmd [OF this, of None] 3 show ?thesis
      by (simp add: u io_address_def io_return_def bind_io_def assms(2) del: One_nat_def)
  qed
qed

section \<open>Properties\<close>

text \<open>C12: the handshake on the socket, with every read and write cut up by the kernel and waited for as it may be,
  is the handshake as a function of the bytes: it waits, closes, pipes to a host or uses the null pointer exactly
  when that function says so, after handing the kernel exactly its replies in order, and the pipes start with
  the first byte the handshake did not use.\<close>

theorem socks5_socket_refines:
  assumes "Failed \<notin> set reads" "served (socks5_requests (delivered reads)) reads" "read_idle ev" "write_idle ev"
    and "writes_ok [2, 10] writes" "write_rest 2 writes = Some ws" "write_rest 10 ws = Some ws'"
  shows "agrees (socks5_handler None local (delivered reads))
    (socks5_on_socket i g local \<lparr>io_reads = reads, io_writes = writes, io_sent = [], io_ev = ev\<rparr>)"
proof -
  define s where "s = \<lparr>io_reads = reads, io_writes = writes, io_sent = [], io_ev = ev\<rparr>"
  define inp where "inp = delivered reads"
  define n where "n = unat (inp ! 1)"
  define m where "m = unat (drop (2 + n) inp ! 4)"
  define more where "more = (if drop (2 + n) inp ! 3 = 1 then [4, 2] else
    if drop (2 + n) inp ! 3 = 3 then [1, m, 2] else [])"
  have s: "stream s = inp" "io_sent s = []" "io_writes s = writes" by (simp_all add: s_def inp_def)
  have "socks5_requests inp = 2 # n # 4 # more" by (simp add: socks5_requests_def Let_def more_def m_def n_def)
  then have c: "conn (2 # n # 4 # more) s"
    using assms(1-4) by (simp add: conn_def s_def inp_def)
  have "agrees (socks5_handler None local (stream s)) (socks5_on_socket i g local s)"
  proof (rule io_read_step [OF c, of "new_array (g 0) 2" 0 i])
    fix buf s1
    assume r1: "read_n None 0 2 (stream s) = Some (buf, stream s1)" "buf = take 2 (stream s)" "2 \<le> length (stream s)"
      "io_read i (new_array (g 0) 2) 2 s = Inr (Going (buf @ drop 2 (new_array (g 0) 2)) s1)" "stream s1 = drop 2 (stream s)"
      "after_read (n # 4 # more) (stream s1) s s1"
    then have c1: "conn (n # 4 # more) s1" and b: "unat (buf ! 1) = n" by (auto simp: after_read_def n_def s)
    show ?thesis
    proof (rule io_read_step [OF c1, of "new_array (g 1) n" 1 i])
      fix vers s2
      assume r2: "read_n None 1 n (stream s1) = Some (vers, stream s2)" "stream s2 = drop n (stream s1)"
        "io_read i (new_array (g 1) n) n s1 = Inr (Going (vers @ drop n (new_array (g 1) n)) s2)"
        "after_read (4 # more) (stream s2) s1 s2"
      then have c2: "conn (4 # more) s2" and w: "writes_ok [2, 10] (io_writes s2)" "io_writes s2 = writes" "io_sent s2 = []"
        using r1 assms(5) by (auto simp: after_read_def s)
      obtain s3 where w3: "io_write i [5, 0] s2 = Inr (Going () s3)" "conn (4 # more) s3" "stream s3 = stream s2"
        "io_sent s3 = [5, 0]" "io_writes s3 = ws" "writes_ok [10] ws"
      proof (rule io_write_step [OF c2, of "[5, 0]" "[10]" ws i])
        show "writes_ok (length [5, 0 :: u8] # [10]) (io_writes s2)" "write_rest (length [5, 0 :: u8]) (io_writes s2) = Some ws"
          using w assms(6) by (simp_all flip: numeral_2_eq_2)
      qed (use w in simp_all)
      show ?thesis
      proof (rule io_read_step [OF w3(2), of "new_array (g 2) 4" 2 i])
        fix req s4
        assume r4: "read_n None 2 4 (stream s3) = Some (req, stream s4)" "req = take 4 (stream s3)" "4 \<le> length (stream s3)"
          "io_read i (new_array (g 2) 4) 4 s3 = Inr (Going (req @ drop 4 (new_array (g 2) 4)) s4)"
          "stream s4 = drop 4 (stream s3)" "after_read more (stream s4) s3 s4"
        have f: "stream s3 = drop (2 + n) inp" using w3(3) r2(2) r1(5) s(1) by (simp add: add.commute)
        then have atyp: "drop (2 + n) inp ! 3 = req ! 3" using r4(2) by simp
        have "stream s4 \<noteq> [] \<Longrightarrow> m = unat (hd (stream s4))"
          using r4(5) unfolding f m_def by (simp add: hd_drop_conv_nth)
        moreover have "conn more s4" "io_sent s4 = [5, 0]" "io_writes s4 = ws" using r4(6) w3 by (simp_all add: after_read_def)
        ultimately have "agrees (request_result local req (stream s4)) (after_request i g local req s4)"
          using w3(6) assms(7) unfolding more_def atyp by (intro request_agrees [where m = m and ws = ws']) simp_all
        moreover have "socks5_handler None local (stream s) = request_result local req (stream s4)"
          using r1(1) r2(1) r4(1) w3(3) b by (simp add: socks5_handler_def request_result_def Let_def)
        moreover have "socks5_on_socket i g local s = after_request i g local req s4"
          using r1(4) r2(3) r4(4) w3(1) b by (simp add: socks5_on_socket_def after_request_def Let_def del: One_nat_def)
        ultimately show ?thesis by simp
      qed (use r1 r2 w3 b in \<open>simp_all add: socks5_handler_def socks5_on_socket_def Let_def\<close>)
    qed (use r1 b s in \<open>simp_all add: socks5_handler_def socks5_on_socket_def Let_def after_read_def\<close>)
  qed (simp_all add: socks5_handler_def socks5_on_socket_def s)
  then show ?thesis by (simp add: s_def)
qed

theorem socks5_socket_refines_witness:
  "\<exists>s. socks5_on_socket 1 (\<lambda>_ _. 0) (Inr (inet_address [0, 0, 0, 0] [0, 0]))
      \<lparr>io_reads = [Done [5], Try_Again, Done [1], Done [0], Done [5, 1], Done [0, 1], Done [10, 0, 0, 1], Try_Again,
          Done [0, 80], Done [71, 72]],
        io_writes = [Done 1, Done 1, Try_Again, Done 10], io_sent = [], io_ev = async_event_new 5\<rparr> =
      Inr (Going (Handler_Pipes (dotted [10, 0, 0, 1]) 80) s)
    \<and> stream s = [71, 72] \<and> take 2 (io_sent s) = [5, 0]"
proof -
  let ?reads = "[Done [5], Try_Again, Done [1], Done [0], Done [5, 1], Done [0, 1], Done [10, 0, 0, 1], Try_Again,
    Done [0, 80], Done [71, 72 :: u8]]"
  let ?l = "inet_address [0, 0, 0, 0] [0, 0]"
  have p: "be16_put 80 = [0, 80]" by (simp add: be16_put_def)
  have dl: "delivered ?reads = greeting 5 [0] @ [5, 1, 0, 1] @ [10, 0, 0, 1] @ be16_put 80 @ [71, 72]"
    by (simp add: greeting_def p)
  have "socks5_handler None (Inr ?l) (delivered ?reads) =
      Inr (Socks_Piping (dotted [10, 0, 0, 1]) 80 [[5, 0], connect_reply (address_ipv4 ?l) (address_port ?l)] [71, 72])"
    unfolding dl using handler_after_greeting [of "[0]" "[5, 1, 0, 1]" None "Inr ?l" 5 "[10, 0, 0, 1] @ be16_put 80 @ [71, 72]"]
      read_ipv4_request [of "[10, 0, 0, 1]" None 80 "[71, 72]"] by (simp add: run_command_def)
  moreover have "socks5_requests (delivered ?reads) = [2, 1, 4, 4, 2]" by (simp add: socks5_requests_def Let_def)
  ultimately show ?thesis
    using socks5_socket_refines [of ?reads "async_event_new 5" "[Done 1, Done 1, Try_Again, Done 10]" "[Try_Again, Done 10]" "[]"
        "Inr ?l" 1 "\<lambda>_ _. 0"]
    by (auto simp: read_idle_def write_idle_def async_event_new_def)
qed

end
