(* ===== verification/Bridge_Interleave.thy ===== *)
theory Bridge_Interleave
  imports Ether_Bridge
begin

text \<open>
  The broadcast loop of \<open>ethernet_bridge::forward\<close> (\<open>bridge/ether_bridge.hpp\<close>) between the other coroutines. A
  handler writes to a tap or a socket and may wait there; meanwhile the other loops call \<open>forward\<close> on the same
  table, which learns and expires addresses while the first loop holds an iterator. An iterator of a \<open>std::map\<close>
  stays valid until its own entry is erased, so it is the address of its entry.
\<close>

section \<open>The loop with its iterator\<close>

datatype table_iter = It_At ethernet_address | It_End

fun it_begin :: "'h mac_table \<Rightarrow> table_iter" where
  "it_begin [] = It_End"
| "it_begin ((a, r) # table) = It_At a"

text \<open>\<open>++it\<close>, to the next greater address; the entry of the iterator must still be there.\<close>

definition it_next :: "ethernet_address \<Rightarrow> 'h mac_table \<Rightarrow> table_iter outcome" where
  "it_next a table =
     (if map_find mac_less a table = None then Inl Undefined_Behaviour
      else Inr (it_begin (dropWhile (\<lambda>(b, _). \<not> mac_less a b) table)))"

text \<open>The \<open>i\<close>-th element of the list holds the calls of \<open>forward\<close> the others make while the handler of the \<open>i\<close>-th
  round waits; the loop is still under way when the list ends. The result is the calls with the addresses they
  were made for, and the table.\<close>

fun broadcast_walk ::
    "ethernet_address \<Rightarrow> 'h arrival list list \<Rightarrow> table_iter \<Rightarrow> 'h mac_table \<Rightarrow>
     ((ethernet_address \<times> 'h) list \<times> 'h mac_table) option outcome" where
  "broadcast_walk src waits It_End table = Inr (Some ([], table))"
| "broadcast_walk src [] (It_At a) table = Inr None"
| "broadcast_walk src (others # waits) (It_At a) table =
     (case map_find mac_less a table of None \<Rightarrow> Inl Undefined_Behaviour
      | Some r \<Rightarrow>
          and_then (if mac_equal a src then Inr ([], table)
                    else and_then (bridge_run others table) (\<lambda>(table, _). Inr ([(a, rec_t r)], table)))
            (\<lambda>(call, table).
          and_then (it_next a table) (\<lambda>it.
          and_then (broadcast_walk src waits it table) (\<lambda>rest.
          Inr (map_option (\<lambda>(calls, table). (call @ calls, table)) rest)))))"

section \<open>The iterator\<close>

abbreviation keys :: "'h mac_table \<Rightarrow> ethernet_address set" where
  "keys t \<equiv> fst ` set t"

lemma find_in: "mac_inv t \<Longrightarrow> (a, r) \<in> set t \<longleftrightarrow> map_find mac_less a t = Some r"
  by (auto simp: mac_inv_def mac.find_iff_in_set)

lemma find_keys: "mac_inv t \<Longrightarrow> map_find mac_less a t = None \<longleftrightarrow> a \<notin> keys t"
  by (force simp: map_find_None)

lemma it_begin_spec:
  assumes "map_ordered mac_less t"
  shows "case it_begin t of It_End \<Rightarrow> t = [] | It_At b \<Rightarrow> b \<in> keys t \<and> (\<forall>c \<in> keys t. b \<le> c)"
  using assms by (cases t) (fastforce simp flip: less_ethernet_address_def)+

lemma dropWhile_keys:
  assumes "map_ordered mac_less t"
  shows "set (dropWhile (\<lambda>(b, _). \<not> mac_less a b) t) = {e \<in> set t. a < fst e}"
    "map_ordered mac_less (dropWhile (\<lambda>(b, _). \<not> mac_less a b) t)"
  using assms by (induction t) (force simp flip: less_ethernet_address_def dest: less_trans)+

lemma it_next_spec:
  assumes "mac_inv t" "a \<in> keys t"
  obtains "it_next a t = Inr It_End" "\<forall>c \<in> keys t. c \<le> a"
  | b where "it_next a t = Inr (It_At b)" "b \<in> keys t" "a < b" "\<forall>c \<in> keys t. c \<le> a \<or> b \<le> c"
proof -
  let ?t = "dropWhile (\<lambda>(b, _). \<not> mac_less a b) t"
  have ord: "map_ordered mac_less t" using assms(1) by (simp add: mac_inv_def)
  note d = dropWhile_keys [OF ord, of a]
  have n: "it_next a t = Inr (it_begin ?t)" using assms by (simp add: it_next_def find_keys)
  show thesis
  proof (cases "it_begin ?t")
    case It_End
    with it_begin_spec [OF d(2)] have "\<forall>c \<in> keys t. c \<le> a"
      by (auto simp: not_less simp flip: less_ethernet_address_def)
    with n It_End that(1) show thesis by simp
  next
    case (It_At b)
    with it_begin_spec [OF d(2)] have "b \<in> keys ?t" "\<forall>c \<in> keys ?t. b \<le> c" by simp_all
    with d(1) have "b \<in> keys t" "a < b" "\<forall>c \<in> keys t. c \<le> a \<or> b \<le> c" by (auto simp: not_less)
    with n It_At that(2) show thesis by simp
  qed
qed

section \<open>Within the timeout\<close>

text \<open>From \<open>T\<close> on every entry was active, and no clock reads more than the timeout after \<open>T\<close>.\<close>

definition active_since :: "int \<Rightarrow> 'h mac_table \<Rightarrow> bool" where
  "active_since T t \<longleftrightarrow> (\<forall>(a, r) \<in> set t. T \<le> last_active r)"

definition in_time :: "int \<Rightarrow> 'h arrival \<Rightarrow> bool" where
  "in_time T x \<longleftrightarrow> at_clean x \<le> T + mac_timeout \<and> T \<le> at_update x \<and> buf_wf (frame x)"

lemma active_kept:
  assumes "active_since T t" "now \<le> T + mac_timeout"
  shows "mac_check_timeout now t = t"
proof -
  have "filter (\<lambda>(k, r). \<not> mac_timeout < now - last_active r) t = t"
    using assms by (intro filter_True) (force simp: active_since_def)
  then show ?thesis by (simp add: mac_check_timeout_def map_erase_loop_filter)
qed

lemma update_keys:
  assumes "mac_inv t"
  shows "keys (mac_update now a h t) = insert a (keys t)"
proof -
  have "b \<in> keys (mac_update now a h t) \<longleftrightarrow> b = a \<or> b \<in> keys t" for b
  proof -
    have "map_find mac_less b (mac_update now a h t) = None \<longleftrightarrow> b \<noteq> a \<and> map_find mac_less b t = None"
      using assms by (simp add: mac_simps mac_inv_def)
    then show ?thesis
      unfolding find_keys [OF mac_inv_update [OF assms]] find_keys [OF assms] by argo
  qed
  then show ?thesis by blast
qed

lemma update_active:
  assumes "mac_inv t" "active_since T t" "T \<le> now"
  shows "active_since T (mac_update now a h t)"
proof -
  have "T \<le> last_active r" if "map_find mac_less b (mac_update now a h t) = Some r" for b r
    using that assms find_in [OF assms(1)] by (auto simp: mac_simps mac_inv_def active_since_def split: if_splits)
  then show ?thesis using find_in [OF mac_inv_update [OF assms(1)]] by (auto simp: active_since_def)
qed

text \<open>Whatever the others receive meanwhile, no entry goes.\<close>

definition learned :: "'h arrival list \<Rightarrow> ethernet_address \<Rightarrow> 'h \<Rightarrow> bool" where
  "learned others a h \<longleftrightarrow> (\<exists>x \<in> set others. frame_src (frame x) = Some a \<and> reply x = h)"

lemma others_keep:
  assumes "mac_inv t" "active_since T t" "\<forall>x \<in> set others. in_time T x"
  shows "\<exists>t' calls. bridge_run others t = Inr (t', calls) \<and> mac_inv t' \<and> active_since T t' \<and> keys t \<subseteq> keys t'
    \<and> (\<forall>a h. mac_query a t' = Some h \<longrightarrow> mac_query a t = Some h \<or> learned others a h)"
  using assms
proof (induction others arbitrary: t)
  case (Cons x others)
  then have x: "in_time T x" by simp
  define t1 where "t1 = (case frame_src (frame x) of None \<Rightarrow> t | Some src \<Rightarrow> mac_update (at_update x) src (reply x) t)"
  have kept: "mac_check_timeout (at_clean x) t = t"
    using active_kept [OF Cons.prems(2)] x by (simp add: in_time_def)
  then obtain calls where f: "forward (at_clean x) (at_update x) (frame x) (reply x) t = Inr (t1, calls)"
    using forward_table [of "frame x" "at_clean x" "at_update x" "reply x" t] x
    unfolding kept t1_def in_time_def by auto
  have t1: "mac_inv t1" "active_since T t1" "keys t \<subseteq> keys t1"
    using Cons.prems(1,2) x
    by (simp_all add: t1_def in_time_def mac_inv_update update_active update_keys subset_insertI split: option.split)
  have q: "mac_query a t1 = Some h \<Longrightarrow> mac_query a t = Some h \<or> frame_src (frame x) = Some a \<and> reply x = h" for a h
    using Cons.prems(1) by (auto simp: t1_def tbl.query_update split: option.splits if_splits)
  from Cons.IH [OF t1(1,2)] Cons.prems(3) obtain t' cs where t': "bridge_run others t1 = Inr (t', cs)" "mac_inv t'"
    "active_since T t'" "keys t1 \<subseteq> keys t'" "\<forall>a h. mac_query a t' = Some h \<longrightarrow> mac_query a t1 = Some h \<or> learned others a h"
    by auto
  have "\<forall>a h. mac_query a t' = Some h \<longrightarrow> mac_query a t = Some h \<or> learned (x # others) a h"
    using t'(5) q by (auto simp: learned_def)
  with f t' t1(3) show ?case by (auto simp: learned_def)
qed (simp add: learned_def)

section \<open>The walk\<close>

text \<open>What a walk from \<open>it\<close> over the table \<open>t\<close> achieves.\<close>

definition walk_result ::
    "ethernet_address \<Rightarrow> 'h arrival list list \<Rightarrow> table_iter \<Rightarrow> 'h mac_table \<Rightarrow> (ethernet_address \<times> 'h) list \<Rightarrow> bool" where
  "walk_result src waits it t calls \<longleftrightarrow>
     sorted_wrt (<) (map fst calls) \<and> src \<notin> fst ` set calls
     \<and> (\<forall>c \<in> fst ` set calls. \<exists>a. it = It_At a \<and> a \<le> c)
     \<and> (\<forall>a. it = It_At a \<longrightarrow> (\<forall>c \<in> keys t. a \<le> c \<and> c \<noteq> src \<longrightarrow> c \<in> fst ` set calls))
     \<and> (\<forall>(c, h) \<in> set calls. mac_query c t = Some h \<or> learned (concat waits) c h)"

lemma learned_append [simp]: "learned (xs @ ys) a h \<longleftrightarrow> learned xs a h \<or> learned ys a h"
  by (auto simp: learned_def)

lemma walk_round:
  assumes "mac_inv t" "a \<in> keys t" "keys t \<subseteq> keys t'" "it_next a t' = Inr it" "mac_inv t'"
    and "\<forall>c h. mac_query c t' = Some h \<longrightarrow> mac_query c t = Some h \<or> learned others c h"
    and "walk_result src waits it t' calls"
    and "call = (if a = src then [] else [(a, h)])" "mac_query a t = Some h"
  shows "walk_result src (others # waits) (It_At a) t (call @ calls)"
proof -
  from assms(2,3) have "a \<in> keys t'" by blast
  with assms(5) have "(\<forall>b. it = It_At b \<longrightarrow> a < b) \<and>
      (\<forall>c \<in> keys t'. a < c \<longrightarrow> (\<exists>b. it = It_At b \<and> b \<le> c))"
    by (rule it_next_spec) (use assms(4) in auto)
  with assms(3) have nx: "it = It_At b \<Longrightarrow> a < b" "c \<in> keys t \<Longrightarrow> a < c \<Longrightarrow> \<exists>b. it = It_At b \<and> b \<le> c" for b c
    by blast+
  note w = assms(7) [unfolded walk_result_def]
  note w1 = w [THEN conjunct1] and w2 = w [THEN conjunct2, THEN conjunct1]
  note w3 = w [THEN conjunct2, THEN conjunct2, THEN conjunct1]
  note w4 = w [THEN conjunct2, THEN conjunct2, THEN conjunct2, THEN conjunct1]
  note w5 = w [THEN conjunct2, THEN conjunct2, THEN conjunct2, THEN conjunct2]
  have above: "a < c" if "c \<in> fst ` set calls" for c using w3 that nx(1) by force
  have "sorted_wrt (<) (map fst (call @ calls))" using w1 above assms(8) by simp
  moreover have "src \<notin> fst ` set (call @ calls)" using w2 assms(8) by simp
  moreover have "a \<le> c" if "c \<in> fst ` set (call @ calls)" for c
  proof (cases "c \<in> fst ` set calls")
    case True
    then show ?thesis using above less_imp_le by blast
  qed (use that assms(8) in \<open>simp split: if_splits\<close>)
  moreover have "c \<in> fst ` set (call @ calls)" if "c \<in> keys t" "a \<le> c" "c \<noteq> src" for c
  proof (cases "c = a")
    case True
    with that(3) assms(8) show ?thesis by simp
  next
    case False
    with that(2) have "a < c" by simp
    from nx(2) [OF that(1) this] obtain b where b: "it = It_At b" "b \<le> c" by (elim exE conjE)
    have "c \<in> keys t'" using assms(3) that(1) by (rule subsetD)
    then have "c \<in> fst ` set calls" using w4 [rule_format, OF b(1)] b(2) that(3) by simp
    then show ?thesis by (simp add: image_Un)
  qed
  moreover have "\<forall>(c, k) \<in> set (call @ calls). mac_query c t = Some k \<or> learned (concat (others # waits)) c k"
    using w5 assms(6,8,9) by (fastforce split: if_splits)
  ultimately show ?thesis unfolding walk_result_def by auto
qed

lemma walk_window:
  assumes "mac_inv t" "active_since T t" "\<forall>others \<in> set waits. \<forall>x \<in> set others. in_time T x"
    and "\<forall>a. it = It_At a \<longrightarrow> a \<in> keys t"
  shows "\<exists>r. broadcast_walk src waits it t = Inr r \<and> (\<forall>calls t'. r = Some (calls, t') \<longrightarrow> walk_result src waits it t calls)"
  using assms
proof (induction src waits it t rule: broadcast_walk.induct)
  case (3 src others waits a t)
  then have a: "a \<in> keys t" by simp
  then obtain h where q: "mac_query a t = Some h" and r: "\<exists>r. map_find mac_less a t = Some r \<and> rec_t r = h"
    using find_keys [OF "3.prems"(1), of a] by (auto simp: mac_query_def)
  then obtain r where r: "map_find mac_less a t = Some r" "rec_t r = h" by blast
  define call where "call = (if a = src then [] else [(a, h)])"
  obtain t' where t': "(if mac_equal a src then Inr ([], t)
      else and_then (bridge_run others t) (\<lambda>(t, _). Inr ([(a, rec_t r)], t))) = Inr (call, t')"
    "mac_inv t'" "active_since T t'" "keys t \<subseteq> keys t'"
    "\<forall>c h. mac_query c t' = Some h \<longrightarrow> mac_query c t = Some h \<or> learned others c h"
  proof (cases "a = src")
    case True
    then show ?thesis using "3.prems"(1,2) by (intro that [of t]) (simp_all add: call_def)
  next
    case False
    with others_keep [OF "3.prems"(1,2), of others] "3.prems"(3) r(2) that show ?thesis by (auto simp: call_def)
  qed
  with a have "a \<in> keys t'" by blast
  with t'(2) obtain it where it: "it_next a t' = Inr it" "\<forall>b. it = It_At b \<longrightarrow> b \<in> keys t'"
    by (elim it_next_spec) auto
  have "\<exists>q. broadcast_walk src waits it t' = Inr q \<and> (\<forall>calls u. q = Some (calls, u) \<longrightarrow> walk_result src waits it t' calls)"
    by (rule "3.IH" [OF r(1)]) (use t' it "3.prems"(3) in auto)
  then obtain q where w: "broadcast_walk src waits it t' = Inr q"
    "\<forall>calls u. q = Some (calls, u) \<longrightarrow> walk_result src waits it t' calls" by blast
  have "broadcast_walk src (others # waits) (It_At a) t = Inr (map_option (\<lambda>(calls, u). (call @ calls, u)) q)"
    using r(1) t'(1) it(1) w(1) by simp
  moreover have "walk_result src (others # waits) (It_At a) t (call @ calls)" if "q = Some (calls, u)" for calls u
    using walk_round [OF "3.prems"(1) a t'(4) it(1) t'(2,5) _ call_def q] w(2) that by blast
  ultimately show ?case by auto
qed (auto simp: walk_result_def)

text \<open>When nobody waits, the walk is the loop of \<open>forward\<close>.\<close>

lemma it_next_split:
  assumes "map_ordered mac_less (pre @ (a, r) # suf)"
  shows "it_next a (pre @ (a, r) # suf) = Inr (it_begin suf)"
proof -
  have "\<forall>(b, q) \<in> set pre. \<not> mac_less a b" "\<forall>(b, q) \<in> set suf. mac_less a b"
    using assms mac.lt_asym by (fastforce simp: map_ordered_def sorted_wrt_append)+
  moreover from this(2) have "dropWhile (\<lambda>(b, _). \<not> mac_less a b) suf = suf" by (cases suf) auto
  ultimately have "dropWhile (\<lambda>(b, _). \<not> mac_less a b) (pre @ (a, r) # suf) = suf"
    using mac.lt_irrefl [of a] by (subst dropWhile_append2) auto
  then show ?thesis by (auto simp: it_next_def map_find_None)
qed

lemma walk_quiet:
  assumes "map_ordered mac_less (pre @ suf)" "length suf \<le> n"
  shows "broadcast_walk src (replicate n []) (it_begin suf) (pre @ suf) =
    Inr (Some (filter (\<lambda>(a, h). a \<noteq> src) (mac_entries suf), pre @ suf))"
  using assms
proof (induction suf arbitrary: pre n)
  case (Cons e suf)
  obtain a r where e: "e = (a, r)" by force
  obtain m where n: "n = Suc m" "length suf \<le> m" using Cons.prems(2) by (cases n) auto
  have "map_find mac_less a (pre @ (a, r) # suf) = Some r"
    using Cons.prems(1) e by (subst mac.find_iff_in_set) auto
  moreover have "broadcast_walk src (replicate m []) (it_begin suf) (pre @ (a, r) # suf) =
      Inr (Some (filter (\<lambda>(a, h). a \<noteq> src) (mac_entries suf), pre @ (a, r) # suf))"
    using Cons.IH [of "pre @ [(a, r)]" m] Cons.prems(1) n e by simp
  moreover have "it_next a (pre @ (a, r) # suf) = Inr (it_begin suf)" using Cons.prems(1) e it_next_split by blast
  ultimately show ?case using e n by (auto simp: mac_entries_def)
qed (simp add: mac_entries_def)

definition demo_entry :: "u8 \<Rightarrow> int \<Rightarrow> nat \<Rightarrow> ethernet_address \<times> nat ethernet_address_record" where
  "demo_entry n now h = (Mac 0 0 0 0 0 n, \<lparr>rec_addr = Mac 0 0 0 0 0 n, last_active = now, rec_t = h\<rparr>)"

definition demo_arrival :: "int \<Rightarrow> nat arrival" where
  "demo_arrival now = \<lparr>at_clean = now, at_update = now,
     frame = \<lparr>buf_ptr = Some [0, 0, 0, 0, 0, 1, 0, 0, 0, 0, 0, 3, 8, 0], buf_size = 14\<rparr>, reply = 40\<rparr>"

lemmas demo_bridge = demo_entry_def demo_arrival_def

lemma demo_walk_ok:
  "mac_inv [demo_entry 1 100 10, demo_entry 2 200 20]"
  "active_since 100 [demo_entry 1 100 10, demo_entry 2 200 20]" "now \<le> 700 \<Longrightarrow> 100 \<le> now \<Longrightarrow> in_time 100 (demo_arrival now)"
  by (simp_all add: mac_inv_def active_since_def in_time_def demo_bridge mac_less_def buf_wf_def)

section \<open>Properties\<close>

text \<open>C13: while less than the timeout passes since the oldest entry was active, a broadcast survives everything the
  other loops do to the table during its waits: no iterator dies, every station known at the start gets the frame
  exactly once and its sender never, each through a handler that is that station's; and when nobody waits these
  are the calls \<open>forward\<close> makes.\<close>

theorem broadcast_interleaved:
  assumes "mac_inv t" "active_since T t" "\<forall>others \<in> set waits. \<forall>x \<in> set others. in_time T x"
  shows "(\<exists>r. broadcast_walk src waits (it_begin t) t = Inr r \<and> (\<forall>calls t'. r = Some (calls, t') \<longrightarrow>
      distinct (map fst calls) \<and> src \<notin> fst ` set calls \<and> fst ` set t - {src} \<subseteq> fst ` set calls
      \<and> (\<forall>(c, h) \<in> set calls. mac_query c t = Some h \<or> learned (concat waits) c h)))
    \<and> (\<exists>calls. broadcast_walk src (replicate (length t) []) (it_begin t) t = Inr (Some (calls, t))
      \<and> map snd calls = broadcast_loop src (mac_entries t))"
proof -
  have ord: "map_ordered mac_less t" using assms(1) by (simp add: mac_inv_def)
  note b = it_begin_spec [OF ord]
  have start: "\<forall>a. it_begin t = It_At a \<longrightarrow> a \<in> keys t" using b by auto
  obtain r where r: "broadcast_walk src waits (it_begin t) t = Inr r"
    "\<forall>calls t'. r = Some (calls, t') \<longrightarrow> walk_result src waits (it_begin t) t calls"
    using walk_window [OF assms start] by blast
  have "keys t - {src} \<subseteq> fst ` set calls" if "walk_result src waits (it_begin t) t calls" for calls
    using that b by (cases "it_begin t") (auto simp: walk_result_def)
  moreover have "distinct (map fst calls)" if "sorted_wrt (<) (map fst calls)" for calls :: "(ethernet_address \<times> 'a) list"
    using that strict_sorted_iff by blast
  ultimately show ?thesis
    using r walk_quiet [of "[]" t "length t" src] ord by (auto simp: walk_result_def broadcast_loop_filter)
qed

theorem broadcast_interleaved_witness:
  "\<exists>calls t'. broadcast_walk (Mac 0 0 0 0 0 2) [[demo_arrival 650], [], []] (It_At (Mac 0 0 0 0 0 1))
      [demo_entry 1 100 10, demo_entry 2 200 20] = Inr (Some (calls, t'))
    \<and> Mac 0 0 0 0 0 1 \<in> fst ` set calls \<and> Mac 0 0 0 0 0 2 \<notin> fst ` set calls \<and> distinct (map fst calls)"
proof -
  let ?t = "[demo_entry 1 100 10, demo_entry 2 200 20]"
  have "case broadcast_walk (Mac 0 0 0 0 0 2) [[demo_arrival 650], [], []] (it_begin ?t) ?t of
      Inr (Some _) \<Rightarrow> True | _ \<Rightarrow> False" by code_simp
  moreover have "it_begin ?t = It_At (Mac 0 0 0 0 0 1)" "fst ` set ?t - {Mac 0 0 0 0 0 2} = {Mac 0 0 0 0 0 1}"
    by (auto simp: demo_bridge)
  ultimately show ?thesis
    using broadcast_interleaved [of ?t 100 "[[demo_arrival 650], [], []]" "Mac 0 0 0 0 0 2"] demo_walk_ok
    by (auto split: sum.splits option.splits)
qed

text \<open>C39: an entry that goes stale while the loop waits in its handler takes the iterator with it: the next frame any
  other loop receives expires it, and the \<open>++it\<close> after the handler is undefined.\<close>

theorem broadcast_invalidated:
  assumes "mac_inv t" "mac_stamp a t = Some s" "a \<noteq> src" "s + mac_timeout < at_clean x" "buf_wf (frame x)"
    and "frame_src (frame x) \<noteq> Some a"
  shows "broadcast_walk src ([x] # waits) (It_At a) t = Inl Undefined_Behaviour"
proof -
  obtain t' calls where f: "forward (at_clean x) (at_update x) (frame x) (reply x) t = Inr (t', calls)"
    "t' = (case frame_src (frame x) of None \<Rightarrow> mac_check_timeout (at_clean x) t
       | Some src \<Rightarrow> mac_update (at_update x) src (reply x) (mac_check_timeout (at_clean x) t))"
    using forward_table [OF assms(5), of "at_clean x" "at_update x" "reply x" t] by blast
  have "mac_query a t' = None"
    using assms(1,2,4,6) f(2)
    by (auto simp: tbl.query_update tbl.inv_expire tbl.query_expire split: option.splits)
  then have "it_next a t' = Inl Undefined_Behaviour" by (simp add: it_next_def mac_query_def split: option.splits)
  then show ?thesis using assms(2,3) f(1) by (auto simp: mac_stamp_def)
qed

theorem broadcast_invalidated_witness:
  "broadcast_walk (Mac 0 0 0 0 0 2) [[demo_arrival 701]] (It_At (Mac 0 0 0 0 0 1))
     [demo_entry 1 100 10, demo_entry 2 200 20] = Inl Undefined_Behaviour"
proof -
  have "mac_stamp (Mac 0 0 0 0 0 1) [demo_entry 1 100 10, demo_entry 2 200 20] = Some 100"
    by (simp add: mac_stamp_def demo_bridge)
  moreover have "buf_wf (frame (demo_arrival 701))" "at_clean (demo_arrival 701) = 701"
    "frame_src (frame (demo_arrival 701)) = Some (Mac 0 0 0 0 0 3)"
    by (simp_all add: demo_arrival_def buf_wf_def frame_src_def ether_shost_def buf_bytes_def)
  ultimately show ?thesis
    using broadcast_invalidated [OF demo_walk_ok(1), of "Mac 0 0 0 0 0 1" 100 "Mac 0 0 0 0 0 2" "demo_arrival 701" "[]"]
    by simp
qed

end
