(* ===== verification/Spec2Isabelle.thy ===== *)
theory Spec2Isabelle
  imports Net_Prelude Std_Map Byte_Buffer Aes_Crypto Mac_Table Ether_Bridge Sock_Address Eth_Tunnel
    Tunnel_Session Co_Scheduler Coroutine Co_Switch Co_Library Async_Io Event_Pool Poll_Loop Sockets
    Async_Timer Socks5 Udp_Bridge Compression Proto_Parser Bridge_Main Io_Wakeup Socks5_Pipe
    Socket_Life Tunnel_Faults Program_Start Asm_Machine Asm_Switch Relay_Session Co_Code Buffer_Heap
    Evp_Context Socks5_Async Bridge_Interleave
begin

text \<open>
  NetTraverse joins Ethernet segments over UDP. The client reads frames from a tap device, encrypts
  and masks them and sends each as a datagram; the server decrypts them and hands them to a learning
  bridge, which gives a frame to its own tap, to a client, or to all. Everything runs in one thread:
  a coroutine library switches between the loops, and an event pool over \<open>epoll\<close> wakes the ones whose
  descriptor is ready. The server also answers SOCKS5 requests. A second bridge (\<open>udp_bridge.hpp\<close>)
  relays datagrams between known peers.

  \<^bold>\<open>Theories and code\<close> (paths under \<open>src/\<close>)

  \<^item> \<open>Net_Prelude\<close>: machine integers, faults, blocks of memory with checked access, byte orders (locale
    \<open>codec\<close>, interpreted by the 2-, 4- and 8-byte codecs). \<open>Std_Map\<close>: \<open>std::map\<close> as an ordered
    association list over a strict weak order (locale \<open>strict_weak_order\<close>, interpreted by the
    comparisons of hardware addresses, socket addresses and descriptors).
  \<^item> \<open>Byte_Buffer\<close>: \<open>lib/bytebuffer.hpp\<close>. A buffer is its block and its size; every member function is a
    definition of the same name with the prefix \<open>buf_\<close>. \<open>Buffer_Heap\<close>: the same class on the heap,
    with each \<open>new[]\<close> and \<open>delete[]\<close>, which refines it.
  \<^item> \<open>Aes_Crypto\<close>: \<open>crypto/AES.hpp\<close>, \<open>crypto/AES.cpp\<close>. \<open>Evp_Context\<close>: the same on OpenSSL's
    contexts, with their creation and release. \<open>Compression\<close>: \<open>compression/compression.cpp\<close>.
  \<^item> \<open>Mac_Table\<close> and \<open>Ether_Bridge\<close>: \<open>mac_table\<close> and \<open>ethernet_bridge\<close> of \<open>bridge/ether_bridge.hpp\<close>. The table
    satisfies the locale \<open>learning_table\<close>, on which the bridge's lemmas rest. \<open>Bridge_Interleave\<close>: the broadcast loop
    with its iterator, while the other coroutines use the table.
  \<^item> \<open>Sock_Address\<close> and \<open>Sockets\<close>: \<open>network/socket.hpp\<close>. \<open>Socket_Life\<close>: who owns which descriptor, over the
    constructors, moves and destructors of the sockets, \<open>accept\<close> and the timer.
  \<^item> \<open>Co_Scheduler\<close> (\<open>coroutine/src/scheduler.hpp\<close>), \<open>Coroutine\<close> (\<open>coroutine.h\<close>, \<open>coroutine.cpp\<close>, \<open>ctx.h\<close>,
    \<open>asm/swapper.s\<close>): the state is the record \<open>world\<close>, the heap of coroutines and stacks, the globals and the
    registers. \<open>Co_Switch\<close> holds the invariant \<open>co_inv\<close> and what a switch keeps, \<open>Co_Library\<close> the library as
    its callers see it, \<open>Co_Code\<close> which routine each coroutine runs. \<open>Asm_Machine\<close> is a small
    x86-64 machine, \<open>Asm_Switch\<close> the routines of \<open>asm/swapper.s\<close> and \<open>asm/ctx_switch.s\<close> as lists of instructions; the model's \<open>save_context\<close> and \<open>load_context\<close> refine to them.
  \<^item> \<open>Async_Io\<close> and \<open>Event_Pool\<close>: \<open>network/epoll/epoll.hpp\<close>. \<open>Poll_Loop\<close>: the inner loop of \<open>poll_forever\<close>
    with the coroutines it resumes. \<open>Io_Wakeup\<close>: one wait from the \<open>co_yield\<close> to the resumption.
    \<open>Async_Timer\<close>: \<open>network/timer.hpp\<close>.
  \<^item> \<open>Eth_Tunnel\<close>: the loop bodies of \<open>bridge/ether_bridge_client.cpp\<close> and \<open>ether_bridge_server.cpp\<close> and
    \<open>xor_mess\<close> of \<open>config.hpp\<close>. \<open>Tunnel_Session\<close>: whole sessions of both ends,
    \<open>Tunnel_Faults\<close>: datagrams of strangers. \<open>Socks5\<close>: \<open>socks5_handler\<close>, \<open>Socks5_Async\<close>: the same handshake on the
    socket's asynchronous operations, \<open>Socks5_Pipe\<close>: its piping loops.
  \<^item> \<open>Udp_Bridge\<close>: \<open>bridge/udp_bridge.hpp\<close>, \<open>Relay_Session\<close>: the relay over a history of datagrams.
    \<open>Proto_Parser\<close>: \<open>network/protocol/protocol_test.cpp\<close>.
  \<^item> \<open>Bridge_Main\<close>: the configuration, \<open>network/tuntap.hpp\<close>, \<open>main\<close>, \<open>client\<close>, \<open>server\<close> and \<open>socks5_server\<close>.
    \<open>Program_Start\<close>: \<open>main\<close> as a whole (\<open>main_program\<close>, over the record \<open>host\<close> of what the system provides).

  \<^bold>\<open>How the code is rendered\<close>

  A call returns an \<open>outcome\<close>: a value, or a fault (an exception of the sources, \<open>abort\<close>, \<open>exit\<close>, or behaviour
  the language leaves undefined, such as an access outside a block or through a dead object). What an
  allocation holds is an argument (\<open>g\<close>), so a theorem holds for every content. A system call's answer is
  an argument too; the loops that retry take a list of answers, and \<open>None\<close> is a call that still waits when
  the list ends. A pointer to an object is an identifier that is not used again. Output to the terminal is
  left out.

  \<^bold>\<open>What is shown\<close>

  \<^item> The tunnel: a sealed frame opens to the same bytes, a frame reaches the station it is for, after any
    session and within 600 seconds of the station being heard, whatever comes in between except a datagram
    with that station's address as source; keys and field sizes never change
    (\<open>AES_decrypt_encrypt\<close>, \<open>tunnel_carries_frame\<close>, \<open>session_typed\<close>, \<open>session_delivers\<close>).
  \<^item> The bridge: over any sequence of frames the table refines "the port that last sent from this address
    within 600 seconds" (\<open>bridge_delivers_to_last_port\<close>), and where each frame goes.
  \<^item> The coroutines: every disciplined sequence of calls succeeds and keeps the invariant; a coroutine
    finds its registers and its stack again; the queue rotates; a round of the poll loop takes
    as many turns as coroutines were ready, whatever they post (that each turn ends is not shown, and not true)
    (\<open>co_library_safe\<close>, \<open>co_yield_resumes\<close>, \<open>co_resched_rotates\<close>, \<open>poll_round_ends\<close>); an event wakes exactly the
    coroutines that wait on its object, and a wait ends where it began (\<open>poll_wakes_waiters\<close>, \<open>io_wait_resumes\<close>); the instructions do what the model
    of the switch says (\<open>swapper_refines\<close>, \<open>save_load_returns\<close>).
  \<^item> Memory: each buffer owns its block alone over any sequence of operations, and no block is lost or
    released twice (\<open>buffers_refine\<close>); the cipher gives the same bytes on OpenSSL's contexts and frees each
    context it creates (\<open>aes_on_contexts\<close>).
  \<^item> Between the loops: the SOCKS5 handshake on the asynchronous socket does what the handler says
    (\<open>socks5_socket_refines\<close>); a broadcast reaches its ports while other coroutines use the table, unless
    one removes the entry its iterator stands on (\<open>broadcast_interleaved\<close>, \<open>broadcast_invalidated\<close>).
  \<^item> The relay: over any history, dropped datagrams included, its map is what the history files per address, and so
    contains the peers heard from within 60 seconds (\<open>relay_delivers_to_active\<close>).
  \<^item> I/O, SOCKS5 with its pipes, descriptors, compression, parser: the functional behaviour, errors
    included. Start-up: which routine each coroutine runs, in which order (\<open>program_runs\<close>).
  \<^item> Where the code does not do what it means to, the theorem states what it does: handlers that outlive
    what they refer to, unchecked lengths, a connect that never succeeds, reads that never see the end of a
    stream, pipes that never end, a leaked descriptor per connection, a datagram that ends the program, a handshake that
    goes on with what its buffers held, and others.

  \<^bold>\<open>Bounds and fuel\<close>

  No definition takes fuel: recursion is over the data (bytes left, entries, answers, reads), so every
  function is total. Sizes are \<open>nat\<close> with the wrap of \<open>size_t\<close> written out (\<open>size_sub\<close>, \<open>size_mul\<close>); fields of
  16 and 32 bits are words. Bounds in hypotheses are those of the code or the platform: a frame of at most
  1471 bytes so that its envelope fits the 1500-byte receive buffer, stacks below \<open>2 ^ 64\<close>, buffers below
  \<open>2 ^ 31\<close> where the code converts to \<open>int\<close>.

  \<^bold>\<open>Parameters\<close>

  OpenSSL (record \<open>evp\<close>, hypotheses \<open>evp_cbc_ok\<close>, \<open>evp_refuses\<close> (an empty or incomplete ciphertext) and
  \<open>evp_no_negative\<close> (a negative length, which the manual leaves open; used for datagrams of 16 to 19 bytes
  only); with its contexts, the record
  \<open>evp_lib\<close>), LZ4 (record \<open>lz4\<close>, hypothesis \<open>lz4_ok\<close>), the YAML look-ups
  (\<open>yaml_node\<close>), the JSON text of a peer list, \<open>getaddrinfo\<close>, the clock and the kernel. The witnesses
  instantiate the hypotheses with concrete functions (\<open>pad_evp\<close>, \<open>strict_evp\<close>, \<open>stored\<close>).

  \<^bold>\<open>Not modelled\<close>

  The vendored \<open>3rdparty/json.hpp\<close>; \<open>network/event.hpp\<close>, which only declares interfaces; the empty files of
  \<open>network/protocol\<close>, \<open>network/http\<close> and \<open>utils\<close>; \<open>bridge/udp_bridge.cpp\<close> and \<open>stack_mgt.c\<close>, which are comments;
  the test programs. The flags of the processor are left out of \<open>Asm_Machine\<close>, because no instruction of the
  routines reads one.
\<close>

end
